(* ===== verification/Notifier_Prelude.thy ===== *)
theory Notifier_Prelude
  imports Complex_Main "HOL-Library.Word" "HOL-Library.Product_Lexorder" "HOL-Library.Char_ord"
    "HOL-Library.List_Lexorder"
begin

text \<open>
  Shared vocabulary of the development.

  \<^item> Times: a Go \<open>time.Time\<close> and a PostgreSQL \<open>timestamptz\<close> are both \<open>instant\<close>s, whole
    nanoseconds (a Go time that is stored loses what is below a microsecond, see \<open>Database\<close>);
    a \<open>time.Duration\<close> is a \<open>duration\<close> in nanoseconds.
  \<^item> Strings: a Go string is a byte string, here \<open>string\<close>. The \<open>strings\<close> functions of the
    standard library that the sources call are given for ASCII; a byte outside ASCII is
    neither a letter nor white space to them.
  \<^item> Go maps with string keys: an association list in the order of one iteration, with
    distinct keys; only what does not depend on that order is a property of the map.
  \<^item> Tables: a list of rows; \<open>update_where\<close> is the SQL UPDATE on them.
\<close>

named_theorems store_defs \<open>definitions of the store operations\<close>
named_theorems row_simps \<open>simplification of table updates and lookups\<close>

section \<open>Types\<close>

type_synonym byte = "8 word"
type_synonym instant = int
type_synonym duration = int
type_synonym ('k, 'v) go_map = "('k \<times> 'v) list"

abbreviation Nanosecond :: duration where "Nanosecond \<equiv> 1"
abbreviation Millisecond :: duration where "Millisecond \<equiv> 1000000"
abbreviation Second :: duration where "Second \<equiv> 1000000000"
abbreviation Minute :: duration where "Minute \<equiv> 60 * Second"
abbreviation Hour :: duration where "Hour \<equiv> 3600 * Second"

text \<open>\<open>Duration.Milliseconds\<close> truncates towards zero.\<close>

definition Milliseconds :: "duration \<Rightarrow> int" where
  "Milliseconds d = (if 0 \<le> d then d div Millisecond else - ((- d) div Millisecond))"

section \<open>Go strings\<close>

definition char_lower :: "char \<Rightarrow> char" where
  "char_lower c = (let n = (of_char c :: nat) in if 65 \<le> n \<and> n \<le> 90 then char_of (n + 32) else c)"

definition char_upper :: "char \<Rightarrow> char" where
  "char_upper c = (let n = (of_char c :: nat) in if 97 \<le> n \<and> n \<le> 122 then char_of (n - 32) else c)"

definition ToLower :: "string \<Rightarrow> string" where
  "ToLower = map char_lower"

definition ToUpper :: "string \<Rightarrow> string" where
  "ToUpper = map char_upper"

definition EqualFold :: "string \<Rightarrow> string \<Rightarrow> bool" where
  "EqualFold a b \<longleftrightarrow> ToLower a = ToLower b"

definition trim_by :: "(char \<Rightarrow> bool) \<Rightarrow> string \<Rightarrow> string" where
  "trim_by p s = rev (dropWhile p (rev (dropWhile p s)))"

definition is_space :: "char \<Rightarrow> bool" where
  "is_space c \<longleftrightarrow> (let n = (of_char c :: nat) in n = 32 \<or> (9 \<le> n \<and> n \<le> 13))"

definition TrimSpace :: "string \<Rightarrow> string" where
  "TrimSpace = trim_by is_space"

definition HasPrefix :: "string \<Rightarrow> string \<Rightarrow> bool" where
  "HasPrefix s p \<longleftrightarrow> take (length p) s = p"

definition bytes_of :: "string \<Rightarrow> byte list" where
  "bytes_of = map (\<lambda>c. of_nat (of_char c))"

section \<open>Tables\<close>

definition update_where :: "('a \<Rightarrow> bool) \<Rightarrow> ('a \<Rightarrow> 'a) \<Rightarrow> 'a list \<Rightarrow> 'a list" where
  "update_where p f = map (\<lambda>r. if p r then f r else r)"

definition count_where :: "('a \<Rightarrow> bool) \<Rightarrow> 'a list \<Rightarrow> nat" where
  "count_where p rs = length (filter p rs)"

text \<open>SELECT ... WHERE p ORDER BY k LIMIT n FOR UPDATE SKIP LOCKED: the rows other
  transactions hold are passed over before the limit counts.\<close>

definition select_limit ::
  "('a \<Rightarrow> bool) \<Rightarrow> ('a \<Rightarrow> bool) \<Rightarrow> ('a \<Rightarrow> 'k::linorder) \<Rightarrow> int \<Rightarrow> 'a list \<Rightarrow> 'a list" where
  "select_limit p locked k n rs = take (nat n) (sort_key k (filter (\<lambda>r. p r \<and> \<not> locked r) rs))"

section \<open>Lemmas on strings\<close>

lemma char_lower_idem [simp]: "char_lower (char_lower c) = char_lower c"
  by (simp add: char_lower_def Let_def)

lemma ToLower_idem [simp]: "ToLower (ToLower s) = ToLower s"
  by (simp add: ToLower_def)

lemma length_ToLower [simp]: "length (ToLower s) = length s"
  by (simp add: ToLower_def)

lemma ToLower_Nil_iff [simp]: "ToLower s = [] \<longleftrightarrow> s = []"
  by (simp add: ToLower_def)

lemma of_char_minus_mod [simp]: "(of_char c - k) mod 256 = (of_char c - k :: nat)"
  by (rule mod_less) (rule le_less_trans [OF diff_le_self nat_of_char_less_256])

lemma char_upper_idem [simp]: "char_upper (char_upper c) = char_upper c"
  by (auto simp: char_upper_def Let_def)

lemma ToUpper_idem [simp]: "ToUpper (ToUpper s) = ToUpper s"
  by (simp add: ToUpper_def)

lemma char_lower_upper [simp]: "char_lower (char_upper c) = char_lower c"
  by (auto simp: char_lower_def char_upper_def Let_def)

lemma ToLower_ToUpper [simp]: "ToLower (ToUpper s) = ToLower s"
  by (simp add: ToLower_def ToUpper_def)

lemma EqualFold_refl [simp]: "EqualFold s s"
  by (simp add: EqualFold_def)

lemma EqualFold_sym: "EqualFold a b \<Longrightarrow> EqualFold b a"
  by (simp add: EqualFold_def)

lemma EqualFold_trans: "EqualFold a b \<Longrightarrow> EqualFold b c \<Longrightarrow> EqualFold a c"
  by (simp add: EqualFold_def)

lemma EqualFold_ToUpper [simp]: "EqualFold (ToUpper s) t = EqualFold s t"
  by (simp add: EqualFold_def)

lemma is_space_char_lower [simp]: "is_space (char_lower c) = is_space c"
  by (simp add: is_space_def char_lower_def Let_def)

lemma trim_by_Nil [simp]: "trim_by p [] = []"
  by (simp add: trim_by_def)

lemma dropWhile_rev_noop:
  assumes "xs = [] \<or> \<not> p (hd xs)"
  shows "dropWhile p (rev (dropWhile p (rev xs))) = rev (dropWhile p (rev xs))"
proof (cases xs)
  case (Cons y ys)
  with assms have "\<not> p y" by simp
  then have "dropWhile p (rev ys @ [y]) = dropWhile p (rev ys) @ [y]"
    by (induction "rev ys" arbitrary: ys rule: list.induct) (auto simp: dropWhile_append3 dropWhile_append)
  with Cons \<open>\<not> p y\<close> show ?thesis by simp
qed simp

lemma trim_by_idem [simp]: "trim_by p (trim_by p s) = trim_by p s"
proof -
  have "dropWhile p s = [] \<or> \<not> p (hd (dropWhile p s))"
    by (metis hd_dropWhile)
  from dropWhile_rev_noop [where xs = "dropWhile p s" and p = p, OF this] show ?thesis
    by (simp add: trim_by_def dropWhile_idem)
qed

lemma TrimSpace_idem [simp]: "TrimSpace (TrimSpace s) = TrimSpace s"
  by (simp add: TrimSpace_def)

lemma set_trim_by: "set (trim_by p s) \<subseteq> set s"
  by (auto simp: trim_by_def dest!: set_dropWhileD)

lemma dropWhile_map_comp: "dropWhile p (map f xs) = map f (dropWhile (p \<circ> f) xs)"
  by (induction xs) auto

lemma TrimSpace_ToLower: "TrimSpace (ToLower s) = ToLower (TrimSpace s)"
  by (simp add: TrimSpace_def ToLower_def trim_by_def dropWhile_map_comp rev_map comp_def)

lemma trim_by_noop: "(\<forall>c\<in>set s. \<not> p c) \<Longrightarrow> trim_by p s = s"
proof -
  assume none: "\<forall>c\<in>set s. \<not> p c"
  have keep: "dropWhile p xs = xs" if "set xs \<subseteq> set s" for xs
    using that none by (cases xs) auto
  show ?thesis by (simp add: trim_by_def keep)
qed

lemma length_bytes_of [simp]: "length (bytes_of s) = length s"
  by (simp add: bytes_of_def)

lemma of_char_byte_inject: "(of_nat (of_char c) :: byte) = of_nat (of_char d) \<Longrightarrow> c = d"
proof -
  assume "(of_nat (of_char c) :: byte) = of_nat (of_char d)"
  then have "unat (of_nat (of_char c) :: byte) = unat (of_nat (of_char d) :: byte)" by simp
  then have "(of_char c :: nat) = of_char d" by (simp add: unat_of_nat)
  then show "c = d" by (simp add: of_char_eq_iff)
qed

lemma bytes_of_inject [simp]: "bytes_of s = bytes_of t \<longleftrightarrow> s = t"
  by (auto simp: bytes_of_def inj_map_eq_map injI of_char_byte_inject)

section \<open>Lemmas on tables\<close>

lemma length_update_where [simp, row_simps]: "length (update_where p f rs) = length rs"
  by (simp add: update_where_def)

lemma set_update_where: "set (update_where p f rs) = (\<lambda>r. if p r then f r else r) ` set rs"
  by (simp add: update_where_def)

lemma in_update_whereE:
  assumes "r \<in> set (update_where p f rs)"
  obtains (upd) r0 where "r0 \<in> set rs" "p r0" "r = f r0"
    | (same) "r \<in> set rs" "\<not> p r"
  using assms by (auto simp: set_update_where split: if_splits)

lemma update_where_none: "(\<And>r. r \<in> set rs \<Longrightarrow> \<not> p r) \<Longrightarrow> update_where p f rs = rs"
  by (simp add: update_where_def map_idI)

lemma map_update_where: "(\<And>r. g (f r) = g r) \<Longrightarrow> map g (update_where p f rs) = map g rs"
  by (simp add: update_where_def)

lemma update_where_Nil [simp]: "update_where p f [] = []"
  by (simp add: update_where_def)

lemma update_where_Cons [simp]:
  "update_where p f (r # rs) = (if p r then f r else r) # update_where p f rs"
  by (simp add: update_where_def)

lemma update_where_append [simp]:
  "update_where p f (rs @ ss) = update_where p f rs @ update_where p f ss"
  by (simp add: update_where_def)

lemma count_where_pos: "0 < count_where p rs \<longleftrightarrow> (\<exists>r\<in>set rs. p r)"
  by (auto simp: count_where_def filter_empty_conv)

lemma count_where_0: "count_where p rs = 0 \<longleftrightarrow> (\<forall>r\<in>set rs. \<not> p r)"
  by (auto simp: count_where_def filter_empty_conv)

lemma count_where_append [simp]: "count_where p (rs @ ss) = count_where p rs + count_where p ss"
  by (simp add: count_where_def)

lemma count_where_single [simp]: "count_where p [r] = (if p r then 1 else 0)"
  by (simp add: count_where_def)

lemma distinct_map_in_eq:
  "distinct (map key rs) \<Longrightarrow> x \<in> set rs \<Longrightarrow> y \<in> set rs \<Longrightarrow> key x = key y \<Longrightarrow> x = y"
  by (metis distinct_map inj_onD)

lemma count_where_distinct:
  assumes "distinct (map key rs)" and "\<And>r. p r \<Longrightarrow> key r = k"
  shows "count_where p rs = (if \<exists>r\<in>set rs. p r then 1 else 0)"
  using assms(1)
proof (induction rs)
  case (Cons r rs)
  have "\<not> p x" if "p r" "x \<in> set rs" for x
  proof
    assume "p x"
    with that assms(2) have "key x = key r" by metis
    with Cons.prems that show False by (metis distinct.simps(2) image_eqI list.set_map list.simps(9))
  qed
  with Cons show ?case by (auto simp: count_where_def filter_empty_conv)
qed (simp add: count_where_def)

lemma find_SomeD: "find p rs = Some r \<Longrightarrow> r \<in> set rs \<and> p r"
  by (auto simp: find_Some_iff)

lemma find_unique:
  assumes "distinct (map key rs)" "r \<in> set rs" "p r" "\<And>x. p x \<Longrightarrow> key x = key r"
  shows "find p rs = Some r"
proof (cases "find p rs")
  case None
  with assms(2,3) show ?thesis by (auto simp: find_None_iff)
next
  case (Some x)
  then have "x \<in> set rs" "p x" by (auto dest: find_SomeD)
  with assms show ?thesis using Some distinct_map_in_eq by metis
qed

lemma set_select_limit: "set (select_limit p l k n rs) \<subseteq> {r \<in> set rs. p r \<and> \<not> l r}"
  unfolding select_limit_def by (rule order_trans[OF set_take_subset]) auto

lemma select_limitD:
  assumes "r \<in> set (select_limit p l k n rs)"
  shows "r \<in> set rs" "p r" "\<not> l r"
  using assms set_select_limit by fastforce+

lemma length_select_limit: "length (select_limit p l k n rs) \<le> nat n"
  by (simp add: select_limit_def)

lemma select_limit_all:
  "int (count_where (\<lambda>r. p r \<and> \<not> l r) rs) \<le> n \<Longrightarrow>
   set (select_limit p l k n rs) = {r \<in> set rs. p r \<and> \<not> l r}"
  by (simp add: select_limit_def count_where_def nat_le_iff)

lemma select_limit_first:
  assumes "x \<in> set (select_limit p l k n rs)" "y \<in> set rs" "p y" "\<not> l y" "y \<notin> set (select_limit p l k n rs)"
  shows "k x \<le> k y"
proof -
  let ?s = "sort_key k (filter (\<lambda>r. p r \<and> \<not> l r) rs)"
  have "y \<in> set ?s" using assms(2-4) by simp
  then have "y \<in> set (drop (nat n) ?s)"
    using assms(5) unfolding select_limit_def by (metis Un_iff append_take_drop_id set_append)
  moreover have "sorted (map k (take (nat n) ?s @ drop (nat n) ?s))" by simp
  ultimately show ?thesis
    using assms(1) unfolding select_limit_def map_append sorted_append by auto
qed

lemma distinct_select_limit: "distinct (map g rs) \<Longrightarrow> distinct (map g (select_limit p l k n rs))"
  by (auto simp: select_limit_def take_map [symmetric] distinct_map intro!: distinct_take intro: inj_on_subset)

section \<open>Early returns\<close>

text \<open>A result that is a value went through every guard before it.\<close>

lemma guard_Inr:
  "(if b then (Inl e, s) else rest) = (Inr y, s') \<longleftrightarrow> \<not> b \<and> rest = (Inr y, s')"
  "(case opt of None \<Rightarrow> (Inl e, s) | Some a \<Rightarrow> f a) = (Inr y, s') \<longleftrightarrow> (\<exists>a. opt = Some a \<and> f a = (Inr y, s'))"
  "(case res of Inl x \<Rightarrow> (Inl (h x), s) | Inr b \<Rightarrow> g b) = (Inr y, s') \<longleftrightarrow> (\<exists>b. res = Inr b \<and> g b = (Inr y, s'))"
  by (auto split: option.splits sum.splits)

lemma guard_fst_Inr:
  "fst (if b then (Inl e, s) else rest) = Inr y \<longleftrightarrow> \<not> b \<and> fst rest = Inr y"
  "fst (case opt of None \<Rightarrow> (Inl e, s) | Some a \<Rightarrow> f a) = Inr y \<longleftrightarrow> (\<exists>a. opt = Some a \<and> fst (f a) = Inr y)"
  "fst (case res of Inl x \<Rightarrow> (Inl (h x), s) | Inr b \<Rightarrow> g b) = Inr y \<longleftrightarrow> (\<exists>b. res = Inr b \<and> fst (g b) = Inr y)"
  by (auto split: option.splits sum.splits)

end
