(* ===== verification/Delivery_Model.thy ===== *)
theory Delivery_Model
  imports Notifier_Prelude
begin

text \<open>
  The data of \<open>internal/delivery/model.go\<close>: delivery states, the store's sentinel errors,
  and the structs that cross component boundaries. A field keeps the name it has in Go, behind
  a prefix for its struct. An error the sources wrap with a message is \<open>ErrDb\<close> or \<open>ErrConfig\<close>
  with that message; \<open>time.Time\<close> zero values do not occur in the modelled paths except for the
  lease fields, which are absent (\<open>None\<close>) on a delivery that carries no lease.
\<close>

datatype status =
    StatusPending
  | StatusDelivering
  | StatusSucceeded
  | StatusFailedPermanent

datatype store_error =
    ErrUnauthorized
  | ErrDestinationDenied
  | ErrIdempotencyConflict
  | ErrBacklogCapacity
  | ErrNotFound
  | ErrReplayConflict
  | ErrDeliveryNotClaimable
  | ErrWorkerLeaseLost
  | ErrOutboxLeaseLost
  | ErrDb string
  | ErrConfig string

record Principal =
  pr_CallerID :: string
  pr_IsOperator :: bool

record DestinationVersion =
  dv_DestinationID :: string
  dv_Version :: int
  dv_URL :: string
  dv_NetworkPolicy :: string
  dv_AllowedMethods :: "string list"
  dv_AllowedHeaders :: "string list"
  dv_SecretRef :: string
  dv_CredentialHeader :: string
  dv_IdempotencyHeader :: string
  dv_SuccessStatuses :: "int list"
  dv_RetryStatuses :: "int list"
  dv_ConnectTimeout :: duration
  dv_RequestTimeout :: duration
  dv_RatePerSecond :: rat
  dv_MaxConcurrency :: int

record Delivery =
  dl_ID :: string
  dl_CallerID :: string
  dl_DestinationID :: string
  dl_DestinationVersion :: int
  dl_Method :: string
  dl_CallerHeaders :: "(string, string) go_map"
  dl_Body :: "byte list"
  dl_SupplierIdempotencyValue :: string
  dl_Status :: status
  dl_Generation :: int
  dl_AcceptedAt :: instant
  dl_RetryDeadline :: instant
  dl_NextAttemptAt :: instant
  dl_LeaseOwner :: "string option"
  dl_LeaseToken :: "string option"
  dl_LeaseUntil :: "instant option"

text \<open>The result classes are the three values the CHECK constraint of
  \<open>delivery_attempts.result_class\<close> admits.\<close>

datatype result_class = RcSucceeded | RcRetryableFailure | RcPermanentFailure

record AttemptSummary =
  as_Generation :: int
  as_ResultClass :: result_class
  as_ResponseStatus :: "int option"
  as_ErrorCategory :: "string option"
  as_StartedAt :: instant
  as_FinishedAt :: instant

record Submission =
  sub_CallerID :: string
  sub_IdempotencyKey :: string
  sub_RequestHash :: "byte list"
  sub_DestinationID :: string
  sub_DestinationVersion :: int
  sub_Method :: string
  sub_CallerHeaders :: "(string, string) go_map"
  sub_Body :: "byte list"
  sub_SupplierIdempotencyValue :: string
  sub_AcceptedAt :: instant
  sub_RetryDeadline :: instant

record BootstrapConfig =
  bc_CallerID :: string
  bc_CallerAPIKey :: string
  bc_Destination :: DestinationVersion

definition IsSupportedOutboundMethod :: "string \<Rightarrow> bool" where
  "IsSupportedOutboundMethod method \<longleftrightarrow>
     EqualFold method ''POST'' \<or>
     EqualFold method ''PUT'' \<or>
     EqualFold method ''PATCH'' \<or>
     EqualFold method ''DELETE''"

text \<open>A status is terminal for automatic processing when no worker, scheduler or reconciler
  step leaves it; the active ones are what admission counts.\<close>

definition active_status :: "status \<Rightarrow> bool" where
  "active_status s \<longleftrightarrow> s = StatusPending \<or> s = StatusDelivering"

lemma IsSupportedOutboundMethod_ToUpper [simp]:
  "IsSupportedOutboundMethod (ToUpper m) = IsSupportedOutboundMethod m"
  by (simp add: IsSupportedOutboundMethod_def)

lemma IsSupportedOutboundMethod_fold:
  "EqualFold a b \<Longrightarrow> IsSupportedOutboundMethod a = IsSupportedOutboundMethod b"
  by (simp add: IsSupportedOutboundMethod_def EqualFold_def)

lemma active_status_simps [simp]:
  "active_status StatusPending" "active_status StatusDelivering"
  "\<not> active_status StatusSucceeded" "\<not> active_status StatusFailedPermanent"
  by (simp_all add: active_status_def)

text \<open>A destination version on which the theories of the Worker evaluate their operations.\<close>

definition demo_destination :: DestinationVersion where
  "demo_destination = \<lparr>dv_DestinationID = ''s'', dv_Version = 1, dv_URL = ''https://s/n'', dv_NetworkPolicy = ''public-internet'',
     dv_AllowedMethods = [''POST''], dv_AllowedHeaders = [''x-a''], dv_SecretRef = ''env:S'',
     dv_CredentialHeader = ''Authorization'', dv_IdempotencyHeader = ''Idempotency-Key'',
     dv_SuccessStatuses = [], dv_RetryStatuses = [429], dv_ConnectTimeout = 3 * Second,
     dv_RequestTimeout = 15 * Second, dv_RatePerSecond = 1, dv_MaxConcurrency = 1\<rparr>"

end
