(* ===== verification/Uuid_Signal.thy ===== *)
theory Uuid_Signal
  imports Delivery_Model
begin

text \<open>
  \<open>newUUID\<close> (\<open>internal/delivery/uuid.go\<close>) and the dispatch signal with its validation
  (\<open>Signal.Validate\<close>, \<open>validUUID\<close> in \<open>internal/dispatch/rabbit.go\<close>). The random source is an
  argument: the sixteen bytes \<open>rand.Read\<close> filled in, or \<open>None\<close> when it failed. Every
  identifier the store generates passes the validation the consumer applies to a signal.
\<close>

unbundle bit_operations_syntax

definition hex_digit :: "nat \<Rightarrow> char" where
  "hex_digit n = (if n < 10 then char_of (48 + n) else char_of (87 + n))"

definition hex_byte :: "byte \<Rightarrow> string" where
  "hex_byte b = [hex_digit (unat b div 16), hex_digit (unat b mod 16)]"

definition hex_bytes :: "byte list \<Rightarrow> string" where
  "hex_bytes bs = concat (map hex_byte bs)"

text \<open>A slice expression \<open>value[a:b]\<close>.\<close>

definition slice :: "nat \<Rightarrow> nat \<Rightarrow> 'a list \<Rightarrow> 'a list" where
  "slice a b xs = take (b - a) (drop a xs)"

definition newUUID :: "byte list option \<Rightarrow> store_error + string" where
  "newUUID rand =
     (case rand of
        None \<Rightarrow> Inl (ErrDb ''generate UUID'')
      | Some value0 \<Rightarrow>
          let value1 = value0[6 := (value0 ! 6 AND 0x0f) OR 0x40];
              value = value1[8 := (value1 ! 8 AND 0x3f) OR 0x80]
          in Inr (hex_bytes (slice 0 4 value) @ ''-'' @
                  hex_bytes (slice 4 6 value) @ ''-'' @
                  hex_bytes (slice 6 8 value) @ ''-'' @
                  hex_bytes (slice 8 10 value) @ ''-'' @
                  hex_bytes (slice 10 16 value)))"

record Signal =
  sg_DeliveryID :: string
  sg_Generation :: int
  sg_TraceID :: string

definition is_hex :: "char \<Rightarrow> bool" where
  "is_hex c \<longleftrightarrow> (let n = (of_char c :: nat) in
     (48 \<le> n \<and> n \<le> 57) \<or> (97 \<le> n \<and> n \<le> 102) \<or> (65 \<le> n \<and> n \<le> 70))"

text \<open>\<open>hex.DecodeString\<close> succeeds on an even number of hexadecimal digits.\<close>

definition hex_decodes :: "string \<Rightarrow> bool" where
  "hex_decodes s \<longleftrightarrow> even (length s) \<and> list_all is_hex s"

definition validUUID :: "string \<Rightarrow> bool" where
  "validUUID value \<longleftrightarrow>
     (if length value \<noteq> 36 \<or> value ! 8 \<noteq> CHR ''-'' \<or> value ! 13 \<noteq> CHR ''-'' \<or>
         value ! 18 \<noteq> CHR ''-'' \<or> value ! 23 \<noteq> CHR ''-'' then False
      else hex_decodes (take 8 value @ slice 9 13 value @ slice 14 18 value @ slice 19 23 value @ drop 24 value))"

datatype signal_error = BadDeliveryID | NegativeGeneration | BadTraceID

definition Validate :: "Signal \<Rightarrow> signal_error option" where
  "Validate signal =
     (if \<not> validUUID (sg_DeliveryID signal) then Some BadDeliveryID
      else if sg_Generation signal < 0 then Some NegativeGeneration
      else if \<not> validUUID (sg_TraceID signal) then Some BadTraceID
      else None)"

section \<open>Generated identifiers are valid\<close>

lemma is_hex_hex_digit: "n < 16 \<Longrightarrow> is_hex (hex_digit n)"
  by (auto simp: hex_digit_def is_hex_def Let_def)

lemma length_hex_byte [simp]: "length (hex_byte b) = 2"
  by (simp add: hex_byte_def)

lemma hex_byte_is_hex: "list_all is_hex (hex_byte b)"
proof -
  have "unat b < 2 ^ LENGTH(8)" by (rule unsigned_less)
  then have "unat b div 16 < 16" by simp
  then show ?thesis by (simp add: hex_byte_def is_hex_hex_digit)
qed

lemma length_hex_bytes [simp]: "length (hex_bytes bs) = 2 * length bs"
  by (induction bs) (simp_all add: hex_bytes_def)

lemma hex_bytes_is_hex: "list_all is_hex (hex_bytes bs)"
  by (induction bs) (simp_all add: hex_bytes_def hex_byte_is_hex)

lemma length_slice: "b \<le> length xs \<Longrightarrow> length (slice a b xs) = b - a"
  by (simp add: slice_def)

lemma validUUID_groups:
  assumes "length a = 8" "length b = 4" "length c = 4" "length d = 4" "length e = 12"
    and "list_all is_hex a" "list_all is_hex b" "list_all is_hex c" "list_all is_hex d" "list_all is_hex e"
  shows "validUUID (a @ ''-'' @ b @ ''-'' @ c @ ''-'' @ d @ ''-'' @ e)"
  using assms by (simp add: validUUID_def hex_decodes_def slice_def nth_append nth_Cons')

lemma newUUID_Inr:
  assumes "length value = 16"
  shows "\<exists>u. newUUID (Some value) = Inr u \<and> validUUID u"
proof -
  have "validUUID (hex_bytes (slice 0 4 v) @ ''-'' @ hex_bytes (slice 4 6 v) @ ''-'' @
      hex_bytes (slice 6 8 v) @ ''-'' @ hex_bytes (slice 8 10 v) @ ''-'' @ hex_bytes (slice 10 16 v))"
    if "length v = 16" for v
    by (rule validUUID_groups) (simp_all add: that length_slice hex_bytes_is_hex)
  with assms show ?thesis by (simp add: newUUID_def Let_def)
qed

lemma newUUID_valid: "newUUID (Some value) = Inr u \<Longrightarrow> length value = 16 \<Longrightarrow> validUUID u"
  using newUUID_Inr by fastforce

lemma version_nibble: "unat ((x AND 0x0f) OR 0x40 :: byte) div 16 = 4"
proof -
  have "drop_bit 4 ((x AND 0x0f) OR 0x40 :: byte) = 4"
    by (rule bit_word_eqI) (auto simp: bit_simps bit_numeral_rec)
  then have "((x AND 0x0f) OR 0x40 :: byte) div 16 = 4"
    by (simp add: drop_bit_eq_div)
  then show ?thesis using unat_div_distrib [of "(x AND 0x0f) OR 0x40 :: byte" 16] by simp
qed

lemma variant_nibble: "unat ((x AND 0x3f) OR 0x80 :: byte) div 16 \<in> {8, 9, 10, 11}"
proof -
  have "drop_bit 6 ((x AND 0x3f) OR 0x80 :: byte) = 2"
    by (rule bit_word_eqI) (auto simp: bit_simps bit_numeral_rec)
  then have "((x AND 0x3f) OR 0x80 :: byte) div 64 = 2"
    by (simp add: drop_bit_eq_div)
  then have "unat ((x AND 0x3f) OR 0x80 :: byte) div 64 = 2"
    using unat_div_distrib [of "(x AND 0x3f) OR 0x80 :: byte" 64] by simp
  then show ?thesis by auto
qed

lemma hex_digit_eval:
  "hex_digit 4 = CHR ''4''" "hex_digit 8 = CHR ''8''" "hex_digit 9 = CHR ''9''"
  "hex_digit 10 = CHR ''a''" "hex_digit 11 = CHR ''b''"
  by code_simp+

section \<open>Properties\<close>

text \<open>C20. Every identifier the store generates is a version 4 UUID: from any sixteen random
  bytes \<open>newUUID\<close> returns a string the consumer's \<open>validUUID\<close> accepts, with version digit 4 and
  variant digit 8, 9, a or b.\<close>

theorem newUUID_is_valid_v4:
  assumes "length value = 16"
  shows "\<exists>u. newUUID (Some value) = Inr u \<and> validUUID u \<and> u ! 14 = CHR ''4'' \<and>
     u ! 19 \<in> set ''89ab''"
proof -
  from assms obtain u where u: "newUUID (Some value) = Inr u" "validUUID u"
    using newUUID_Inr by blast
  have val: "value = map ((!) value) [0..<16]"
    by (rule nth_equalityI) (simp_all add: assms)
  obtain v0 v1 v2 v3 v4 v5 v6 v7 v8 v9 v10 v11 v12 v13 v14 v15 where
    "value = [v0, v1, v2, v3, v4, v5, v6, v7, v8, v9, v10, v11, v12, v13, v14, v15]"
    by (subst (asm) val) (auto simp: upt_rec)
  with u(1) have "u ! 14 = hex_digit (unat ((v6 AND 0x0f) OR 0x40) div 16)"
    "u ! 19 = hex_digit (unat ((v8 AND 0x3f) OR 0x80) div 16)"
    by (auto simp: newUUID_def Let_def slice_def hex_bytes_def hex_byte_def)
  then have "u ! 14 = CHR ''4''" "u ! 19 \<in> set ''89ab''"
    using version_nibble [of v6] variant_nibble [of v8] by (auto simp: hex_digit_eval)
  with u show ?thesis by blast
qed

theorem newUUID_is_valid_v4_witness:
  "\<exists>u. newUUID (Some (replicate 16 255)) = Inr u \<and> validUUID u \<and> u ! 14 = CHR ''4'' \<and>
     u ! 19 \<in> set ''89ab''"
  by (rule newUUID_is_valid_v4) simp

end
