(* ===== verification/Database.thy ===== *)
theory Database
  imports Uuid_Signal
begin

text \<open>
  The PostgreSQL schema of \<open>migrations/\<close> as a record of tables, its constraints as executable
  predicates, and the environment of one store call.

  A store operation takes an \<open>env\<close>, the database and its arguments and returns an error or a
  value together with the database after the call. One operation is one atomic step: the
  sources run each in a single statement or in a transaction whose rows are locked by its first
  writing statement (admission by the advisory lock). The environment says what the sources
  cannot choose: which statement fails (named by the message the source wraps the error with),
  whether a commit whose outcome was reported as failed took effect, which rows other
  transactions hold locked, the server clock, the random bytes and the UUIDs the server
  generates, and the server's \<open>uuid\<close> input conversion. A constraint violation fails the
  statement that causes it.
\<close>

section \<open>Tables\<close>

record caller_row =
  c_id :: string
  c_api_key_hash :: "byte list"
  c_is_operator :: bool

record destination_row =
  ds_id :: string
  ds_current_version :: int

record destination_version_row =
  v_destination_id :: string
  v_version :: int
  v_url :: string
  v_network_policy :: string
  v_allowed_methods :: "string list"
  v_allowed_headers :: "string list"
  v_secret_ref :: string
  v_credential_header :: string
  v_idempotency_header :: string
  v_success_statuses :: "int list"
  v_retry_statuses :: "int list"
  v_connect_timeout_ms :: int
  v_request_timeout_ms :: int
  v_rate_per_second :: rat
  v_max_concurrency :: int

record delivery_row =
  d_id :: string
  d_caller_id :: string
  d_idempotency_key :: string
  d_request_hash :: "byte list"
  d_destination_id :: string
  d_destination_version :: int
  d_method :: string
  d_caller_headers :: "(string, string) go_map"
  d_body :: "byte list"
  d_supplier_idempotency_value :: string
  d_accepted_at :: instant
  d_created_at :: instant
  d_status :: status
  d_generation :: int
  d_retry_deadline :: instant
  d_next_attempt_at :: instant
  d_updated_at :: instant
  d_lease_owner :: "string option"
  d_lease_token :: "string option"
  d_lease_until :: "instant option"

record outbox_row =
  o_id :: string
  o_delivery_id :: string
  o_generation :: int
  o_trace_id :: string
  o_available_at :: instant
  o_published_at :: "instant option"
  o_observed_at :: "instant option"
  o_lease_owner :: "string option"
  o_lease_token :: "string option"
  o_lease_until :: "instant option"
  o_created_at :: instant

record attempt_row =
  a_id :: string
  a_delivery_id :: string
  a_generation :: int
  a_lease_token :: string
  a_result_class :: result_class
  a_response_status :: "int option"
  a_error_category :: "string option"
  a_started_at :: instant
  a_finished_at :: instant

record audit_row =
  r_id :: string
  r_delivery_id :: string
  r_from_generation :: int
  r_to_generation :: int
  r_operator_id :: string
  r_reason :: string
  r_replayed_at :: instant

record db =
  callers :: "caller_row list"
  destinations :: "destination_row list"
  destination_versions :: "destination_version_row list"
  caller_destinations :: "(string \<times> string) list"
  deliveries :: "delivery_row list"
  outbox_events :: "outbox_row list"
  delivery_attempts :: "attempt_row list"
  replay_audits :: "audit_row list"

definition empty_db :: db where
  "empty_db = \<lparr>callers = [], destinations = [], destination_versions = [], caller_destinations = [],
     deliveries = [], outbox_events = [], delivery_attempts = [], replay_audits = []\<rparr>"

section \<open>Timestamps\<close>

text \<open>A Go time bound to a \<open>timestamptz\<close> parameter: the column counts microseconds, and pgx sends the whole
  microseconds since the epoch, so that what the nanoseconds of the Go value say below that is cut off.\<close>

definition timestamptz :: "instant \<Rightarrow> instant" where
  "timestamptz t = t div 1000 * 1000"

lemma timestamptz_idem [simp]: "timestamptz (timestamptz t) = timestamptz t"
  by (simp add: timestamptz_def)

lemma timestamptz_le [simp]: "timestamptz t \<le> t" and timestamptz_near: "t < timestamptz t + 1000"
  using div_mult_mod_eq [of t 1000] pos_mod_bound [of 1000 t] pos_mod_sign [of 1000 t] unfolding timestamptz_def by linarith+

lemma timestamptz_mono: "s \<le> t \<Longrightarrow> timestamptz s \<le> timestamptz t"
  by (simp add: timestamptz_def zdiv_mono1)

lemma timestamptz_below [intro]: "t < u \<Longrightarrow> timestamptz t < u" "t \<le> u \<Longrightarrow> timestamptz t \<le> u"
  using timestamptz_le [of t] by linarith+

section \<open>The environment of a call\<close>

record env =
  stmt_fails :: "string \<Rightarrow> bool"
  commit_lost :: bool
  row_locked :: "string \<Rightarrow> bool"
  statement_timestamp :: instant
  clock_timestamp :: instant
  rand_read :: "nat \<Rightarrow> byte list option"
  gen_random_uuid :: "nat \<Rightarrow> string"
  uuid_in :: "string \<Rightarrow> string option"

text \<open>The outcome of the statement that makes a call's effect durable: \<open>tx.Commit\<close>, or a single
  autocommitted statement. When it reports an error the effect may or may not be there.\<close>

definition commit :: "env \<Rightarrow> string \<Rightarrow> db \<Rightarrow> db \<Rightarrow> 'a \<Rightarrow> (store_error + 'a) \<times> db" where
  "commit E msg db db' result =
     (if stmt_fails E msg then (Inl (ErrDb msg), if commit_lost E then db' else db)
      else (Inr result, db'))"

text \<open>A statement whose result rows are read one by one reports its error at any of these
  points; the first that fails is returned.\<close>

definition commit_rows :: "env \<Rightarrow> string list \<Rightarrow> db \<Rightarrow> db \<Rightarrow> 'a \<Rightarrow> (store_error + 'a) \<times> db" where
  "commit_rows E msgs db db' result =
     (case find (stmt_fails E) msgs of
        Some msg \<Rightarrow> (Inl (ErrDb msg), if commit_lost E then db' else db)
      | None \<Rightarrow> (Inr result, db'))"

section \<open>Constraints\<close>

text \<open>\<open>length(text)\<close> counts characters: bytes that do not continue a UTF-8 sequence.\<close>

definition sql_length :: "string \<Rightarrow> nat" where
  "sql_length s = length (filter (\<lambda>c. \<not> (128 \<le> (of_char c :: nat) \<and> (of_char c :: nat) < 192)) s)"

definition version_check :: "destination_version_row \<Rightarrow> bool" where
  "version_check v \<longleftrightarrow> v_version v > 0 \<and> v_connect_timeout_ms v > 0 \<and>
     v_request_timeout_ms v > 0 \<and> v_request_timeout_ms v \<le> 60000 \<and>
     v_rate_per_second v > 0 \<and> v_max_concurrency v > 0"

definition lease_absent :: "delivery_row \<Rightarrow> bool" where
  "lease_absent r \<longleftrightarrow> d_lease_owner r = None \<and> d_lease_token r = None \<and> d_lease_until r = None"

definition lease_present :: "delivery_row \<Rightarrow> bool" where
  "lease_present r \<longleftrightarrow> d_lease_owner r \<noteq> None \<and> d_lease_token r \<noteq> None \<and> d_lease_until r \<noteq> None"

definition delivery_check :: "delivery_row \<Rightarrow> bool" where
  "delivery_check r \<longleftrightarrow> length (d_request_hash r) = 32 \<and> d_generation r \<ge> 0 \<and>
     (if d_status r = StatusDelivering then lease_present r else lease_absent r)"

definition outbox_check :: "outbox_row \<Rightarrow> bool" where
  "outbox_check e \<longleftrightarrow> o_generation e \<ge> 0 \<and>
     ((o_lease_owner e = None \<and> o_lease_token e = None \<and> o_lease_until e = None) \<or>
      (o_lease_owner e \<noteq> None \<and> o_lease_token e \<noteq> None \<and> o_lease_until e \<noteq> None))"

definition attempt_check :: "attempt_row \<Rightarrow> bool" where
  "attempt_check a \<longleftrightarrow> a_generation a \<ge> 0 \<and> a_finished_at a \<ge> a_started_at a"

definition audit_check :: "audit_row \<Rightarrow> bool" where
  "audit_check r \<longleftrightarrow> r_from_generation r \<ge> 0 \<and> r_to_generation r = r_from_generation r + 1 \<and>
     1 \<le> sql_length (r_reason r) \<and> sql_length (r_reason r) \<le> 1000"

definition has_delivery :: "db \<Rightarrow> string \<Rightarrow> bool" where
  "has_delivery db i \<longleftrightarrow> i \<in> d_id ` set (deliveries db)"

definition delivery_fk :: "db \<Rightarrow> delivery_row \<Rightarrow> bool" where
  "delivery_fk db r \<longleftrightarrow> d_caller_id r \<in> c_id ` set (callers db) \<and>
     (d_destination_id r, d_destination_version r) \<in>
       (\<lambda>v. (v_destination_id v, v_version v)) ` set (destination_versions db)"

abbreviation idem_key :: "delivery_row \<Rightarrow> string \<times> string" where
  "idem_key r \<equiv> (d_caller_id r, d_idempotency_key r)"

abbreviation event_key :: "outbox_row \<Rightarrow> string \<times> int" where
  "event_key e \<equiv> (o_delivery_id e, o_generation e)"

abbreviation version_key :: "destination_version_row \<Rightarrow> string \<times> int" where
  "version_key v \<equiv> (v_destination_id v, v_version v)"

text \<open>INSERT: \<open>None\<close> when a constraint of the table rejects the row.\<close>

definition insert_delivery :: "db \<Rightarrow> delivery_row \<Rightarrow> db option" where
  "insert_delivery db r =
     (if delivery_check r \<and> delivery_fk db r \<and> \<not> has_delivery db (d_id r) \<and>
         idem_key r \<notin> idem_key ` set (deliveries db)
      then Some (db\<lparr>deliveries := deliveries db @ [r]\<rparr>) else None)"

definition insert_event :: "db \<Rightarrow> outbox_row \<Rightarrow> db option" where
  "insert_event db e =
     (if outbox_check e \<and> has_delivery db (o_delivery_id e) \<and>
         o_id e \<notin> o_id ` set (outbox_events db) \<and> event_key e \<notin> event_key ` set (outbox_events db)
      then Some (db\<lparr>outbox_events := outbox_events db @ [e]\<rparr>) else None)"

definition insert_attempt :: "db \<Rightarrow> attempt_row \<Rightarrow> db option" where
  "insert_attempt db a =
     (if attempt_check a \<and> has_delivery db (a_delivery_id a) \<and> a_id a \<notin> a_id ` set (delivery_attempts db)
      then Some (db\<lparr>delivery_attempts := delivery_attempts db @ [a]\<rparr>) else None)"

definition insert_audit :: "db \<Rightarrow> audit_row \<Rightarrow> db option" where
  "insert_audit db r =
     (if audit_check r \<and> has_delivery db (r_delivery_id r) \<and>
         r_operator_id r \<in> c_id ` set (callers db) \<and> r_id r \<notin> r_id ` set (replay_audits db) \<and>
         (r_delivery_id r, r_to_generation r) \<notin>
           (\<lambda>r. (r_delivery_id r, r_to_generation r)) ` set (replay_audits db)
      then Some (db\<lparr>replay_audits := replay_audits db @ [r]\<rparr>) else None)"

text \<open>A new Outbox event: unpublished, unobserved, unleased.\<close>

definition new_event :: "string \<Rightarrow> string \<Rightarrow> int \<Rightarrow> string \<Rightarrow> instant \<Rightarrow> instant \<Rightarrow> outbox_row" where
  "new_event i did g trace available created =
     \<lparr>o_id = i, o_delivery_id = did, o_generation = g, o_trace_id = trace, o_available_at = available,
      o_published_at = None, o_observed_at = None, o_lease_owner = None, o_lease_token = None,
      o_lease_until = None, o_created_at = created\<rparr>"

section \<open>Schema invariant\<close>

definition config_ok :: "db \<Rightarrow> bool" where
  "config_ok db \<longleftrightarrow>
     distinct (map c_id (callers db)) \<and> distinct (map c_api_key_hash (callers db)) \<and>
     distinct (map ds_id (destinations db)) \<and> distinct (map version_key (destination_versions db)) \<and>
     list_all version_check (destination_versions db) \<and> distinct (caller_destinations db) \<and>
     (\<forall>v\<in>set (destination_versions db). v_destination_id v \<in> ds_id ` set (destinations db)) \<and>
     (\<forall>d\<in>set (destinations db). (ds_id d, ds_current_version d) \<in> version_key ` set (destination_versions db)) \<and>
     (\<forall>(c, d)\<in>set (caller_destinations db). c \<in> c_id ` set (callers db) \<and> d \<in> ds_id ` set (destinations db))"

definition deliveries_ok :: "db \<Rightarrow> bool" where
  "deliveries_ok db \<longleftrightarrow>
     distinct (map d_id (deliveries db)) \<and> distinct (map idem_key (deliveries db)) \<and>
     list_all delivery_check (deliveries db) \<and> list_all (delivery_fk db) (deliveries db)"

definition outbox_ok :: "db \<Rightarrow> bool" where
  "outbox_ok db \<longleftrightarrow>
     distinct (map o_id (outbox_events db)) \<and> distinct (map event_key (outbox_events db)) \<and>
     list_all outbox_check (outbox_events db) \<and>
     list_all (\<lambda>e. has_delivery db (o_delivery_id e)) (outbox_events db)"

definition attempts_ok :: "db \<Rightarrow> bool" where
  "attempts_ok db \<longleftrightarrow>
     distinct (map a_id (delivery_attempts db)) \<and> list_all attempt_check (delivery_attempts db) \<and>
     list_all (\<lambda>a. has_delivery db (a_delivery_id a)) (delivery_attempts db)"

definition audits_ok :: "db \<Rightarrow> bool" where
  "audits_ok db \<longleftrightarrow>
     distinct (map r_id (replay_audits db)) \<and>
     distinct (map (\<lambda>r. (r_delivery_id r, r_to_generation r)) (replay_audits db)) \<and>
     list_all audit_check (replay_audits db) \<and>
     list_all (\<lambda>r. has_delivery db (r_delivery_id r) \<and> r_operator_id r \<in> c_id ` set (callers db)) (replay_audits db)"

definition schema_ok :: "db \<Rightarrow> bool" where
  "schema_ok db \<longleftrightarrow> config_ok db \<and> deliveries_ok db \<and> outbox_ok db \<and> attempts_ok db \<and> audits_ok db"

lemmas schema_defs = schema_ok_def config_ok_def deliveries_ok_def outbox_ok_def attempts_ok_def audits_ok_def

end
