(* ===== verification/Delivery_Protocol.thy ===== *)
theory Delivery_Protocol
  imports Database
begin

text \<open>
  The delivery protocol every store operation follows, stated over the tables: how one row may
  evolve (\<open>docs/architecture.md\<close>, State model), the invariants beyond the schema, and the
  lemmas on the primitive table updates from which each operation's preservation proof is
  assembled.
\<close>

section \<open>How a delivery row evolves\<close>

definition same_identity :: "delivery_row \<Rightarrow> delivery_row \<Rightarrow> bool" where
  "same_identity r r' \<longleftrightarrow>
     d_id r' = d_id r \<and> d_caller_id r' = d_caller_id r \<and> d_idempotency_key r' = d_idempotency_key r \<and>
     d_request_hash r' = d_request_hash r \<and> d_destination_id r' = d_destination_id r \<and>
     d_destination_version r' = d_destination_version r \<and> d_method r' = d_method r \<and>
     d_caller_headers r' = d_caller_headers r \<and> d_body r' = d_body r \<and>
     d_supplier_idempotency_value r' = d_supplier_idempotency_value r \<and>
     d_accepted_at r' = d_accepted_at r \<and> d_created_at r' = d_created_at r"

definition legal_step :: "delivery_row \<Rightarrow> delivery_row \<Rightarrow> bool" where
  "legal_step r r' \<longleftrightarrow>
     (d_status r' = d_status r \<and> d_generation r' = d_generation r) \<or>
     (d_status r = StatusPending \<and> d_status r' = StatusDelivering \<and> d_generation r' = d_generation r) \<or>
     (d_status r = StatusDelivering \<and> d_status r' = StatusSucceeded \<and> d_generation r' = d_generation r) \<or>
     (d_status r = StatusDelivering \<and> d_status r' = StatusFailedPermanent \<and> d_generation r' = d_generation r) \<or>
     (d_status r = StatusDelivering \<and> d_status r' = StatusPending \<and> d_generation r' = d_generation r + 1) \<or>
     (d_status r = StatusFailedPermanent \<and> d_status r' = StatusPending \<and> d_generation r' = d_generation r + 1) \<or>
     (d_status r = StatusPending \<and> d_status r' = StatusFailedPermanent \<and> d_generation r' = d_generation r)"

definition evolves :: "delivery_row \<Rightarrow> delivery_row \<Rightarrow> bool" where
  "evolves r r' \<longleftrightarrow> same_identity r r' \<and> legal_step r r'"

text \<open>One operation on the whole database: every delivery evolves or, when terminal, is removed;
  a new delivery is pending in generation 0; destination versions and attempts are
  append-only, attempts as long as their delivery exists.\<close>

definition db_evolves :: "db \<Rightarrow> db \<Rightarrow> bool" where
  "db_evolves db db' \<longleftrightarrow>
     (\<forall>r\<in>set (deliveries db). (\<exists>r'\<in>set (deliveries db'). evolves r r') \<or>
        (\<not> active_status (d_status r) \<and> \<not> has_delivery db' (d_id r))) \<and>
     (\<forall>r'\<in>set (deliveries db'). (\<exists>r\<in>set (deliveries db). evolves r r') \<or>
        (\<not> has_delivery db (d_id r') \<and> d_status r' = StatusPending \<and> d_generation r' = 0)) \<and>
     set (destination_versions db) \<subseteq> set (destination_versions db') \<and>
     (\<forall>a\<in>set (delivery_attempts db). has_delivery db' (a_delivery_id a) \<longrightarrow> a \<in> set (delivery_attempts db'))"

section \<open>Invariants beyond the schema\<close>

definition events_not_ahead :: "db \<Rightarrow> bool" where
  "events_not_ahead db \<longleftrightarrow> (\<forall>e\<in>set (outbox_events db). \<forall>r\<in>set (deliveries db).
     o_delivery_id e = d_id r \<longrightarrow> o_generation e \<le> d_generation r)"

definition accepted_signalled :: "db \<Rightarrow> bool" where
  "accepted_signalled db \<longleftrightarrow> (\<forall>r\<in>set (deliveries db).
     d_status r = StatusPending \<and> d_generation r = 0 \<longrightarrow> (d_id r, 0) \<in> event_key ` set (outbox_events db))"

definition attempts_behind :: "db \<Rightarrow> bool" where
  "attempts_behind db \<longleftrightarrow> (\<forall>a\<in>set (delivery_attempts db). \<forall>r\<in>set (deliveries db).
     a_delivery_id a = d_id r \<longrightarrow>
     (if active_status (d_status r) then a_generation a < d_generation r else a_generation a \<le> d_generation r))"

definition attempts_unique :: "db \<Rightarrow> bool" where
  "attempts_unique db \<longleftrightarrow> distinct (map (\<lambda>a. (a_delivery_id a, a_generation a)) (delivery_attempts db))"

definition success_recorded :: "db \<Rightarrow> bool" where
  "success_recorded db \<longleftrightarrow> (\<forall>r\<in>set (deliveries db). d_status r = StatusSucceeded \<longrightarrow>
     (\<exists>a\<in>set (delivery_attempts db). a_delivery_id a = d_id r \<and> a_generation a = d_generation r \<and>
        a_result_class a = RcSucceeded))"

definition audits_not_ahead :: "db \<Rightarrow> bool" where
  "audits_not_ahead db \<longleftrightarrow> (\<forall>x\<in>set (replay_audits db). \<forall>r\<in>set (deliveries db).
     r_delivery_id x = d_id r \<longrightarrow> r_to_generation x \<le> d_generation r)"

definition protocol_ok :: "db \<Rightarrow> bool" where
  "protocol_ok db \<longleftrightarrow> events_not_ahead db \<and> accepted_signalled db \<and> attempts_behind db \<and>
     attempts_unique db \<and> audits_not_ahead db"

definition db_inv :: "db \<Rightarrow> bool" where
  "db_inv db \<longleftrightarrow> schema_ok db \<and> protocol_ok db \<and> success_recorded db"

lemmas protocol_defs = protocol_ok_def events_not_ahead_def accepted_signalled_def attempts_behind_def
  attempts_unique_def audits_not_ahead_def

section \<open>Evolution of rows\<close>

lemma same_identity_refl [simp]: "same_identity r r"
  by (simp add: same_identity_def)

lemma evolves_refl [simp]: "evolves r r"
  by (simp add: evolves_def legal_step_def)

lemma evolves_id: "evolves r r' \<Longrightarrow> d_id r' = d_id r"
  by (simp add: evolves_def same_identity_def)

lemma evolves_generation: "evolves r r' \<Longrightarrow> d_generation r \<le> d_generation r' \<and> d_generation r' \<le> d_generation r + 1"
  by (auto simp: evolves_def legal_step_def)

lemma evolves_fresh_pending:
  "evolves r r' \<Longrightarrow> d_generation r \<ge> 0 \<Longrightarrow> d_status r' = StatusPending \<Longrightarrow> d_generation r' = 0 \<Longrightarrow>
   d_status r = StatusPending \<and> d_generation r = 0"
  by (auto simp: evolves_def legal_step_def)

lemma evolves_attempt_bound:
  assumes "evolves r r'"
    and "if active_status (d_status r) then g < d_generation r else g \<le> d_generation r"
  shows "if active_status (d_status r') then g < d_generation r' else g \<le> d_generation r'"
  using assms by (auto simp: evolves_def legal_step_def split: if_splits)

section \<open>Frame lemmas for the tables\<close>

lemma has_delivery_update [simp]:
  "has_delivery (db\<lparr>outbox_events := es\<rparr>) = has_delivery db"
  "has_delivery (db\<lparr>delivery_attempts := as\<rparr>) = has_delivery db"
  "has_delivery (db\<lparr>replay_audits := xs\<rparr>) = has_delivery db"
  by (simp_all add: has_delivery_def fun_eq_iff)

lemma delivery_fk_update [simp]:
  "delivery_fk (db\<lparr>deliveries := ds\<rparr>) = delivery_fk db"
  "delivery_fk (db\<lparr>outbox_events := es\<rparr>) = delivery_fk db"
  "delivery_fk (db\<lparr>delivery_attempts := as\<rparr>) = delivery_fk db"
  "delivery_fk (db\<lparr>replay_audits := xs\<rparr>) = delivery_fk db"
  by (simp_all add: delivery_fk_def fun_eq_iff)

lemma config_ok_update [simp]:
  "config_ok (db\<lparr>deliveries := ds\<rparr>) = config_ok db"
  "config_ok (db\<lparr>outbox_events := es\<rparr>) = config_ok db"
  "config_ok (db\<lparr>delivery_attempts := as\<rparr>) = config_ok db"
  "config_ok (db\<lparr>replay_audits := xs\<rparr>) = config_ok db"
  by (simp_all add: config_ok_def)

section \<open>Updating delivery rows\<close>

text \<open>The update of the rows \<open>p\<close> selects is legal: each evolves and still satisfies the row checks.\<close>

definition legal_update :: "(delivery_row \<Rightarrow> bool) \<Rightarrow> (delivery_row \<Rightarrow> delivery_row) \<Rightarrow> db \<Rightarrow> bool" where
  "legal_update p f db \<longleftrightarrow> (\<forall>r\<in>set (deliveries db). p r \<longrightarrow> evolves r (f r) \<and> delivery_check (f r))"

lemma legal_updateD:
  "legal_update p f db \<Longrightarrow> r \<in> set (deliveries db) \<Longrightarrow> evolves r (if p r then f r else r)"
  by (simp add: legal_update_def)

lemma legal_update_map:
  assumes "legal_update p f db"
    and "\<And>r r'. evolves r r' \<Longrightarrow> g r' = g r"
  shows "map g (update_where p f (deliveries db)) = map g (deliveries db)"
  using assms by (auto simp: update_where_def legal_update_def)

lemma has_delivery_legal_update [simp]:
  "legal_update p f db \<Longrightarrow>
   has_delivery (db\<lparr>deliveries := update_where p f (deliveries db)\<rparr>) = has_delivery db"
proof -
  assume "legal_update p f db"
  then have "map d_id (update_where p f (deliveries db)) = map d_id (deliveries db)"
    by (rule legal_update_map) (simp add: evolves_id)
  then have "set (map d_id (update_where p f (deliveries db))) = set (map d_id (deliveries db))" by simp
  then show ?thesis by (simp add: has_delivery_def fun_eq_iff)
qed

lemma evolves_fk: "evolves r r' \<Longrightarrow> delivery_fk db r' = delivery_fk db r"
  by (simp add: evolves_def same_identity_def delivery_fk_def)

lemma schema_ok_update_deliveries:
  assumes "schema_ok db" and lu: "legal_update p f db"
  shows "schema_ok (db\<lparr>deliveries := update_where p f (deliveries db)\<rparr>)"
proof -
  have keys: "map d_id (update_where p f (deliveries db)) = map d_id (deliveries db)"
    "map idem_key (update_where p f (deliveries db)) = map idem_key (deliveries db)"
    by (rule legal_update_map [OF lu]; simp add: evolves_def same_identity_def)+
  have "list_all delivery_check (update_where p f (deliveries db))"
    "list_all (delivery_fk db) (update_where p f (deliveries db))"
    using assms by (auto simp: schema_defs legal_update_def list_all_iff set_update_where evolves_fk)
  then show ?thesis
    using assms keys by (simp add: schema_ok_def deliveries_ok_def outbox_ok_def attempts_ok_def audits_ok_def)
qed

lemma in_legal_update:
  assumes "legal_update p f db" "r' \<in> set (update_where p f (deliveries db))"
  obtains r where "r \<in> set (deliveries db)" "evolves r r'"
proof -
  from assms(2) obtain r where "r \<in> set (deliveries db)" "r' = (if p r then f r else r)"
    by (auto simp: set_update_where)
  with legal_updateD [OF assms(1)] that show thesis by blast
qed

lemma events_not_ahead_update_deliveries:
  assumes "events_not_ahead db" "legal_update p f db"
  shows "events_not_ahead (db\<lparr>deliveries := update_where p f (deliveries db)\<rparr>)"
  unfolding events_not_ahead_def
proof (clarsimp)
  fix e r' assume e: "e \<in> set (outbox_events db)" and r': "r' \<in> set (update_where p f (deliveries db))"
    and eq: "o_delivery_id e = d_id r'"
  from assms(2) r' obtain r where r: "r \<in> set (deliveries db)" "evolves r r'" by (rule in_legal_update)
  with e eq assms(1) have "o_generation e \<le> d_generation r"
    by (auto simp: events_not_ahead_def evolves_id)
  with evolves_generation [OF r(2)] show "o_generation e \<le> d_generation r'" by simp
qed

lemma audits_not_ahead_update_deliveries:
  assumes "audits_not_ahead db" "legal_update p f db"
  shows "audits_not_ahead (db\<lparr>deliveries := update_where p f (deliveries db)\<rparr>)"
  unfolding audits_not_ahead_def
proof (clarsimp)
  fix x r' assume x: "x \<in> set (replay_audits db)" and r': "r' \<in> set (update_where p f (deliveries db))"
    and eq: "r_delivery_id x = d_id r'"
  from assms(2) r' obtain r where r: "r \<in> set (deliveries db)" "evolves r r'" by (rule in_legal_update)
  with x eq assms(1) have "r_to_generation x \<le> d_generation r"
    by (auto simp: audits_not_ahead_def evolves_id)
  with evolves_generation [OF r(2)] show "r_to_generation x \<le> d_generation r'" by simp
qed

lemma accepted_signalled_update_deliveries:
  assumes "accepted_signalled db" "legal_update p f db" "deliveries_ok db"
  shows "accepted_signalled (db\<lparr>deliveries := update_where p f (deliveries db)\<rparr>)"
  unfolding accepted_signalled_def
proof (clarsimp)
  fix r' assume r': "r' \<in> set (update_where p f (deliveries db))"
    "d_status r' = StatusPending" "d_generation r' = 0"
  from assms(2) r'(1) obtain r where r: "r \<in> set (deliveries db)" "evolves r r'" by (rule in_legal_update)
  moreover from assms(3) r(1) have "d_generation r \<ge> 0"
    by (auto simp: deliveries_ok_def list_all_iff delivery_check_def)
  ultimately have "d_status r = StatusPending" "d_generation r = 0"
    using evolves_fresh_pending r'(2,3) by blast+
  with assms(1) r show "(d_id r', 0) \<in> event_key ` set (outbox_events db)"
    by (auto simp: accepted_signalled_def evolves_id)
qed

lemma attempts_behind_update_deliveries:
  assumes "attempts_behind db" "legal_update p f db"
  shows "attempts_behind (db\<lparr>deliveries := update_where p f (deliveries db)\<rparr>)"
  unfolding attempts_behind_def
proof (intro ballI impI)
  fix a r' assume a: "a \<in> set (delivery_attempts (db\<lparr>deliveries := update_where p f (deliveries db)\<rparr>))"
    and r': "r' \<in> set (deliveries (db\<lparr>deliveries := update_where p f (deliveries db)\<rparr>))"
    and eq: "a_delivery_id a = d_id r'"
  from assms(2) r' obtain r where r: "r \<in> set (deliveries db)" "evolves r r'"
    by (auto elim: in_legal_update)
  with a eq assms(1) have "if active_status (d_status r) then a_generation a < d_generation r
      else a_generation a \<le> d_generation r"
    by (auto simp: attempts_behind_def evolves_id)
  with r(2) show "if active_status (d_status r') then a_generation a < d_generation r'
      else a_generation a \<le> d_generation r'"
    by (rule evolves_attempt_bound)
qed

text \<open>A row that becomes succeeded has its success in the attempts already.\<close>

lemma success_recorded_update_deliveries:
  assumes "success_recorded db" "legal_update p f db"
    and "\<And>r. r \<in> set (deliveries db) \<Longrightarrow> p r \<Longrightarrow> d_status (f r) = StatusSucceeded \<Longrightarrow>
      \<exists>a\<in>set (delivery_attempts db). a_delivery_id a = d_id (f r) \<and> a_generation a = d_generation (f r) \<and>
        a_result_class a = RcSucceeded"
  shows "success_recorded (db\<lparr>deliveries := update_where p f (deliveries db)\<rparr>)"
  using assms(1,3) by (auto simp: success_recorded_def set_update_where)

section \<open>Inserting rows\<close>

lemma insert_event_Some:
  "insert_event db e = Some db' \<Longrightarrow> db' = db\<lparr>outbox_events := outbox_events db @ [e]\<rparr>"
  by (simp add: insert_event_def split: if_splits)

lemma insert_attempt_Some:
  "insert_attempt db a = Some db' \<Longrightarrow> db' = db\<lparr>delivery_attempts := delivery_attempts db @ [a]\<rparr>"
  by (simp add: insert_attempt_def split: if_splits)

lemma insert_audit_Some:
  "insert_audit db x = Some db' \<Longrightarrow> db' = db\<lparr>replay_audits := replay_audits db @ [x]\<rparr>"
  by (simp add: insert_audit_def split: if_splits)

lemma schema_ok_insert_event: "schema_ok db \<Longrightarrow> insert_event db e = Some db' \<Longrightarrow> schema_ok db'"
  by (auto simp: insert_event_def schema_defs split: if_splits)

lemma schema_ok_insert_attempt: "schema_ok db \<Longrightarrow> insert_attempt db a = Some db' \<Longrightarrow> schema_ok db'"
  by (auto simp: insert_attempt_def schema_defs split: if_splits)

lemma schema_ok_insert_audit: "schema_ok db \<Longrightarrow> insert_audit db x = Some db' \<Longrightarrow> schema_ok db'"
  by (auto simp: insert_audit_def schema_defs split: if_splits)

lemma protocol_ok_insert_event:
  assumes "protocol_ok db" "insert_event db e = Some db'"
    and "\<And>r. r \<in> set (deliveries db) \<Longrightarrow> d_id r = o_delivery_id e \<Longrightarrow> o_generation e \<le> d_generation r"
  shows "protocol_ok db'"
  using assms(1,3) insert_event_Some [OF assms(2)] by (fastforce simp: protocol_defs)

lemma protocol_ok_insert_attempt:
  assumes "protocol_ok db" "insert_attempt db a = Some db'"
    and "\<And>r. r \<in> set (deliveries db) \<Longrightarrow> d_id r = a_delivery_id a \<Longrightarrow>
      (if active_status (d_status r) then a_generation a < d_generation r else a_generation a \<le> d_generation r)"
    and "(a_delivery_id a, a_generation a) \<notin> (\<lambda>a. (a_delivery_id a, a_generation a)) ` set (delivery_attempts db)"
  shows "protocol_ok db'"
  using assms(1,3,4) insert_attempt_Some [OF assms(2)] by (fastforce simp: protocol_defs)

lemma protocol_ok_insert_audit:
  assumes "protocol_ok db" "insert_audit db x = Some db'"
    and "\<And>r. r \<in> set (deliveries db) \<Longrightarrow> d_id r = r_delivery_id x \<Longrightarrow> r_to_generation x \<le> d_generation r"
  shows "protocol_ok db'"
  using assms(1,3) insert_audit_Some [OF assms(2)] by (fastforce simp: protocol_defs)

lemma protocol_ok_update_deliveries:
  assumes "protocol_ok db" "schema_ok db" "legal_update p f db"
  shows "protocol_ok (db\<lparr>deliveries := update_where p f (deliveries db)\<rparr>)"
  using assms events_not_ahead_update_deliveries accepted_signalled_update_deliveries
    attempts_behind_update_deliveries audits_not_ahead_update_deliveries
  by (auto simp: protocol_ok_def schema_ok_def attempts_unique_def)

lemma success_recorded_mono:
  assumes "success_recorded db" "deliveries db' = deliveries db"
    "set (delivery_attempts db) \<subseteq> set (delivery_attempts db')"
  shows "success_recorded db'"
  using assms by (fastforce simp: success_recorded_def)

section \<open>Updating Outbox events\<close>

definition legal_event_update :: "(outbox_row \<Rightarrow> outbox_row) \<Rightarrow> bool" where
  "legal_event_update f \<longleftrightarrow> (\<forall>e. o_id (f e) = o_id e \<and> event_key (f e) = event_key e \<and>
     (outbox_check e \<longrightarrow> outbox_check (f e)))"

lemma update_events_keys:
  assumes "legal_event_update f"
  shows "map o_id (update_where p f es) = map o_id es"
    "map event_key (update_where p f es) = map event_key es"
  using assms by (auto simp: update_where_def legal_event_update_def)

lemma update_events_key_image:
  assumes "legal_event_update f"
  shows "event_key ` set (update_where p f es) = event_key ` set es"
  using update_events_keys(2) [OF assms] by (metis list.set_map)

lemma db_inv_update_events:
  assumes "db_inv db" and f: "legal_event_update f"
  shows "db_inv (db\<lparr>outbox_events := update_where p f (outbox_events db)\<rparr>)"
proof -
  have checks: "list_all outbox_check (update_where p f (outbox_events db))"
    "list_all (\<lambda>e. has_delivery db (o_delivery_id e)) (update_where p f (outbox_events db))"
    using assms by (auto simp: db_inv_def schema_defs list_all_iff set_update_where legal_event_update_def)
  moreover have "events_not_ahead (db\<lparr>outbox_events := update_where p f (outbox_events db)\<rparr>)"
    using assms by (fastforce simp: db_inv_def protocol_defs set_update_where legal_event_update_def)
  ultimately show ?thesis
    using assms(1) update_events_keys [OF f] update_events_key_image [OF f]
    by (simp add: db_inv_def schema_ok_def protocol_ok_def outbox_ok_def deliveries_ok_def attempts_ok_def
        audits_ok_def accepted_signalled_def attempts_behind_def attempts_unique_def audits_not_ahead_def
        success_recorded_def)
qed

section \<open>Evolution of the database\<close>

lemma db_evolves_refl [simp]: "db_evolves db db"
  by (auto simp: db_evolves_def intro: bexI [of _ _ "set (deliveries db)", OF evolves_refl])

lemma db_evolves_update:
  assumes "legal_update p f db"
    and "deliveries db' = update_where p f (deliveries db)"
    and "destination_versions db' = destination_versions db"
    and "set (delivery_attempts db) \<subseteq> set (delivery_attempts db')"
  shows "db_evolves db db'"
proof -
  have "\<exists>r'\<in>set (deliveries db'). evolves r r'" if "r \<in> set (deliveries db)" for r
  proof (rule bexI)
    show "evolves r (if p r then f r else r)" using assms(1) that by (rule legal_updateD)
    show "(if p r then f r else r) \<in> set (deliveries db')" using that by (auto simp: assms(2) set_update_where)
  qed
  moreover have "\<exists>r\<in>set (deliveries db). evolves r r'" if "r' \<in> set (deliveries db')" for r'
    using in_legal_update [OF assms(1)] that assms(2) by metis
  ultimately show ?thesis using assms(3,4) by (auto simp: db_evolves_def)
qed

lemma db_evolves_frame:
  assumes "deliveries db' = deliveries db" "destination_versions db' = destination_versions db"
    "set (delivery_attempts db) \<subseteq> set (delivery_attempts db')"
  shows "db_evolves db db'"
  using assms by (auto simp: db_evolves_def intro: bexI [of _ _ "set (deliveries db)", OF evolves_refl])

text \<open>What a store operation owes: from a good database it leads to a good one, every delivery
  evolving as the protocol allows.\<close>

definition good_step :: "db \<Rightarrow> db \<Rightarrow> bool" where
  "good_step db db' \<longleftrightarrow> db_inv db' \<and> db_evolves db db'"

lemma good_step_refl: "db_inv db \<Longrightarrow> good_step db db"
  by (simp add: good_step_def)

lemma good_step_commit:
  "db_inv db \<Longrightarrow> good_step db db' \<Longrightarrow> good_step db (snd (commit E msg db db' x))"
  by (simp add: commit_def good_step_refl)

lemma commit_Inr: "fst (commit E msg db db' x) = Inr y \<Longrightarrow> y = x \<and> snd (commit E msg db db' x) = db'"
  by (auto simp: commit_def split: if_splits)

lemma good_step_commit_rows:
  "db_inv db \<Longrightarrow> good_step db db' \<Longrightarrow> good_step db (snd (commit_rows E msgs db db' x))"
  by (simp add: commit_rows_def good_step_refl split: option.split)

lemma commit_rows_Inr: "commit_rows E msgs db db' x = (Inr y, db2) \<Longrightarrow> y = x \<and> db2 = db'"
  by (auto simp: commit_rows_def split: option.splits)

lemma good_step_update_events:
  assumes "db_inv db" "legal_event_update f"
  shows "good_step db (db\<lparr>outbox_events := update_where p f (outbox_events db)\<rparr>)"
  using assms by (simp add: good_step_def db_inv_update_events db_evolves_frame)

lemma good_step_update_deliveries:
  assumes "db_inv db" "legal_update p f db"
    and "\<And>r. r \<in> set (deliveries db) \<Longrightarrow> p r \<Longrightarrow> d_status (f r) \<noteq> StatusSucceeded"
  shows "good_step db (db\<lparr>deliveries := update_where p f (deliveries db)\<rparr>)"
  using assms
  by (auto simp: good_step_def db_inv_def schema_ok_update_deliveries protocol_ok_update_deliveries
      intro!: success_recorded_update_deliveries db_evolves_update [OF assms(2)])

section \<open>Rows of a good database\<close>

lemma delivery_checkD: "db_inv db \<Longrightarrow> r \<in> set (deliveries db) \<Longrightarrow> delivery_check r"
  by (simp add: db_inv_def schema_ok_def deliveries_ok_def list_all_iff)

lemma delivery_row_unique:
  "db_inv db \<Longrightarrow> r \<in> set (deliveries db) \<Longrightarrow> r' \<in> set (deliveries db) \<Longrightarrow> d_id r = d_id r' \<Longrightarrow> r = r'"
  by (rule distinct_map_in_eq [where key = d_id and rs = "deliveries db"])
    (auto simp: db_inv_def schema_ok_def deliveries_ok_def)

text \<open>The row of a delivery after an update that selected it.\<close>

lemma updated_row_unique:
  assumes "db_inv db" "r \<in> set (deliveries db)" "p r" "\<And>x. p x \<Longrightarrow> d_id (f x) = d_id x"
    and "x \<in> set (update_where p f (deliveries db))" "d_id x = d_id r"
  shows "x = f r"
  using assms(5)
proof (cases rule: in_update_whereE)
  case (upd r0)
  then show ?thesis using delivery_row_unique [OF assms(1,2), of r0] assms(4,6) by metis
next
  case same
  then show ?thesis using delivery_row_unique [OF assms(1,2), of x] assms(3,6) by metis
qed

lemma legal_updateI:
  assumes "db_inv db"
    and "\<And>r. r \<in> set (deliveries db) \<Longrightarrow> p r \<Longrightarrow> delivery_check r \<Longrightarrow> evolves r (f r) \<and> delivery_check (f r)"
  shows "legal_update p f db"
  using assms delivery_checkD by (simp add: legal_update_def)

lemmas row_step_defs = evolves_def same_identity_def legal_step_def delivery_check_def lease_present_def lease_absent_def

section \<open>The contract of a store operation\<close>

lemma db_evolves_row:
  assumes "db_evolves db db'" "deliveries_ok db'" "r \<in> set (deliveries db)" "r' \<in> set (deliveries db')"
    "d_id r' = d_id r"
  shows "evolves r r'"
proof -
  have "has_delivery db' (d_id r)" using assms(4,5) by (auto simp: has_delivery_def image_iff intro: sym)
  with assms(1,3) obtain r2 where r2: "r2 \<in> set (deliveries db')" "evolves r r2"
    unfolding db_evolves_def by blast
  have "distinct (map d_id (deliveries db'))" using assms(2) by (simp add: deliveries_ok_def)
  then have "r2 = r'" using r2 assms(4,5) evolves_id by (metis distinct_map_in_eq)
  with r2 show ?thesis by simp
qed

text \<open>An operation of the store takes an environment, its arguments and the database. What all of
  them promise, whatever fails: the invariant holds afterwards and every delivery evolves
  along the protocol. The consequences for a client that calls it any number of times follow
  once for all operations.\<close>

locale store_operation =
  fixes call :: "env \<Rightarrow> 'a \<Rightarrow> db \<Rightarrow> 'r \<times> db"
  assumes call_good: "db_inv db \<Longrightarrow> good_step db (snd (call E x db))"
begin

lemma call_inv: "db_inv db \<Longrightarrow> db_inv (snd (call E x db))"
  using call_good by (simp add: good_step_def)

lemma calls_inv: "db_inv db \<Longrightarrow> db_inv (foldl (\<lambda>db (E, x). snd (call E x db)) db calls)"
  by (induction calls arbitrary: db) (auto simp: call_inv)

lemma call_row_evolves:
  assumes "db_inv db" "r \<in> set (deliveries db)" "r' \<in> set (deliveries (snd (call E x db)))" "d_id r' = d_id r"
  shows "evolves r r'"
  using assms call_good [OF assms(1), of E x]
  by (intro db_evolves_row) (auto simp: good_step_def db_inv_def schema_ok_def)

lemma call_keeps_active:
  assumes "db_inv db" "r \<in> set (deliveries db)" "active_status (d_status r)"
  shows "has_delivery (snd (call E x db)) (d_id r)"
proof -
  let ?db' = "snd (call E x db)"
  have "db_evolves db ?db'" using call_good [OF assms(1)] by (simp add: good_step_def)
  with assms(2,3) obtain r' where "r' \<in> set (deliveries ?db')" "evolves r r'"
    unfolding db_evolves_def by blast
  then show ?thesis unfolding has_delivery_def by (metis evolves_id imageI)
qed

lemma call_keeps_attempts:
  assumes "db_inv db" "a \<in> set (delivery_attempts db)" "has_delivery (snd (call E x db)) (a_delivery_id a)"
  shows "a \<in> set (delivery_attempts (snd (call E x db)))"
  using assms call_good [OF assms(1), of E x] by (auto simp: good_step_def db_evolves_def)

end

section \<open>A fault-free environment and a small database\<close>

definition fault_free :: "env \<Rightarrow> bool" where
  "fault_free E \<longleftrightarrow> (\<forall>msg. \<not> stmt_fails E msg)"

text \<open>At clock \<open>now\<close>, with nothing failing or locked and distinct identifiers.\<close>

definition quiet_env :: "instant \<Rightarrow> env" where
  "quiet_env now = \<lparr>stmt_fails = (\<lambda>_. False), commit_lost = False, row_locked = (\<lambda>_. False),
     statement_timestamp = now, clock_timestamp = now,
     rand_read = (\<lambda>n. Some (replicate 15 0 @ [of_nat n])),
     gen_random_uuid = (\<lambda>n. ''u'' @ replicate n CHR ''x''), uuid_in = Some\<rparr>"

definition demo_version :: destination_version_row where
  "demo_version = \<lparr>v_destination_id = ''s'', v_version = 1, v_url = ''https://s/n'', v_network_policy = ''public-internet'',
     v_allowed_methods = [''POST''], v_allowed_headers = [''x-a''], v_secret_ref = ''env:S'',
     v_credential_header = ''Authorization'', v_idempotency_header = ''Idempotency-Key'',
     v_success_statuses = [], v_retry_statuses = [429], v_connect_timeout_ms = 3000,
     v_request_timeout_ms = 15000, v_rate_per_second = 1, v_max_concurrency = 1\<rparr>"

definition demo_delivery :: "string \<Rightarrow> string \<Rightarrow> status \<Rightarrow> int \<Rightarrow> delivery_row" where
  "demo_delivery i key st g = \<lparr>d_id = i, d_caller_id = ''c'', d_idempotency_key = key,
     d_request_hash = replicate 32 7, d_destination_id = ''s'', d_destination_version = 1,
     d_method = ''POST'', d_caller_headers = [], d_body = [1], d_supplier_idempotency_value = i,
     d_accepted_at = 0, d_created_at = 0, d_status = st, d_generation = g,
     d_retry_deadline = 24 * Hour, d_next_attempt_at = 0, d_updated_at = 0,
     d_lease_owner = (if st = StatusDelivering then Some ''w'' else None),
     d_lease_token = (if st = StatusDelivering then Some ''t'' else None),
     d_lease_until = (if st = StatusDelivering then Some 90 else None)\<rparr>"

text \<open>A caller, an operator, one destination, and deliveries pending (generation 0), delivering
  and failed, each with its generation 0 event.\<close>

definition demo_db :: db where
  "demo_db = empty_db\<lparr>callers := [\<lparr>c_id = ''c'', c_api_key_hash = [1], c_is_operator = False\<rparr>,
       \<lparr>c_id = ''op'', c_api_key_hash = [2], c_is_operator = True\<rparr>],
     destinations := [\<lparr>ds_id = ''s'', ds_current_version = 1\<rparr>], destination_versions := [demo_version],
     caller_destinations := [(''c'', ''s'')],
     deliveries := [demo_delivery ''p'' ''kp'' StatusPending 0, demo_delivery ''d'' ''kd'' StatusDelivering 0,
       demo_delivery ''f'' ''kf'' StatusFailedPermanent 0, demo_delivery ''r'' ''kr'' StatusPending 1],
     outbox_events := [new_event ''ep'' ''p'' 0 ''tp'' 0 0, new_event ''ed'' ''d'' 0 ''td'' 0 0,
       new_event ''ef'' ''f'' 0 ''tf'' 0 0, new_event ''er'' ''r'' 0 ''tr'' 0 0]\<rparr>"

lemma fault_free_quiet [simp]: "fault_free (quiet_env now)"
  by (simp add: fault_free_def quiet_env_def)

lemma fault_freeD [simp]: "fault_free E \<Longrightarrow> \<not> stmt_fails E msg"
  by (simp add: fault_free_def)

lemma commit_fault_free [simp]: "fault_free E \<Longrightarrow> commit E msg db db' x = (Inr x, db')"
  by (simp add: commit_def)

lemma commit_rows_fault_free [simp]: "fault_free E \<Longrightarrow> commit_rows E msgs db db' x = (Inr x, db')"
  by (auto simp: commit_rows_def find_None_iff split: option.split dest!: find_SomeD)

lemma demo_db_inv: "db_inv demo_db"
  by code_simp

end
