(* ===== verification/Store.thy ===== *)
theory Store
  imports Delivery_Protocol
begin

text \<open>
  \<open>internal/delivery/store.go\<close>: authentication, destination resolution, admission
  (\<open>Submit\<close>), caller-scoped reads and the local bootstrap. The main results: an accepted
  submission commits the delivery together with its generation 0 Outbox event, a repeated
  idempotency key returns the original delivery, the admission limit bounds the active backlog,
  and bootstrap never changes a stored destination version.
\<close>

record Store =
  st_backlogLimit :: int

definition NewStore :: "bool \<Rightarrow> int \<Rightarrow> store_error + Store" where
  "NewStore pool_given backlogLimit =
     (if \<not> pool_given then Inl (ErrConfig ''delivery store requires a PostgreSQL pool'')
      else if backlogLimit \<le> 0 then Inl (ErrConfig ''backlog limit must be positive'')
      else Inr \<lparr>st_backlogLimit = backlogLimit\<rparr>)"

definition AuthenticatePrincipal ::
  "env \<Rightarrow> (byte list \<Rightarrow> byte list) \<Rightarrow> db \<Rightarrow> string \<Rightarrow> store_error + Principal" where
  "AuthenticatePrincipal E sha256 db apiKey =
     (if stmt_fails E ''authenticate principal'' then Inl (ErrDb ''authenticate principal'')
      else case find (\<lambda>c. c_api_key_hash c = sha256 (bytes_of apiKey)) (callers db) of
        None \<Rightarrow> Inl ErrUnauthorized
      | Some c \<Rightarrow> Inr \<lparr>pr_CallerID = c_id c, pr_IsOperator = c_is_operator c\<rparr>)"

definition destination_of_row :: "destination_version_row \<Rightarrow> DestinationVersion" where
  "destination_of_row v =
     \<lparr>dv_DestinationID = v_destination_id v, dv_Version = v_version v, dv_URL = v_url v,
      dv_NetworkPolicy = v_network_policy v, dv_AllowedMethods = v_allowed_methods v,
      dv_AllowedHeaders = v_allowed_headers v, dv_SecretRef = v_secret_ref v,
      dv_CredentialHeader = v_credential_header v, dv_IdempotencyHeader = v_idempotency_header v,
      dv_SuccessStatuses = v_success_statuses v, dv_RetryStatuses = v_retry_statuses v,
      dv_ConnectTimeout = v_connect_timeout_ms v * Millisecond,
      dv_RequestTimeout = v_request_timeout_ms v * Millisecond,
      dv_RatePerSecond = v_rate_per_second v, dv_MaxConcurrency = v_max_concurrency v\<rparr>"

definition AuthorizedDestination ::
  "env \<Rightarrow> db \<Rightarrow> string \<Rightarrow> string \<Rightarrow> store_error + DestinationVersion" where
  "AuthorizedDestination E db callerID destinationID =
     (if stmt_fails E ''resolve authorized destination''
      then Inl (ErrDb ''resolve authorized destination'')
      else if (callerID, destinationID) \<notin> set (caller_destinations db) then Inl ErrDestinationDenied
      else case find (\<lambda>d. ds_id d = destinationID) (destinations db) of
        None \<Rightarrow> Inl ErrDestinationDenied
      | Some d \<Rightarrow>
          (case find (\<lambda>v. v_destination_id v = ds_id d \<and> v_version v = ds_current_version d)
             (destination_versions db) of
             None \<Rightarrow> Inl ErrDestinationDenied
           | Some v \<Rightarrow> Inr (destination_of_row v)))"

text \<open>The row as \<open>queryDelivery\<close> scans it: the lease columns are not selected.\<close>

definition delivery_of_row :: "delivery_row \<Rightarrow> Delivery" where
  "delivery_of_row r =
     \<lparr>dl_ID = d_id r, dl_CallerID = d_caller_id r, dl_DestinationID = d_destination_id r,
      dl_DestinationVersion = d_destination_version r, dl_Method = d_method r,
      dl_CallerHeaders = d_caller_headers r, dl_Body = d_body r,
      dl_SupplierIdempotencyValue = d_supplier_idempotency_value r, dl_Status = d_status r,
      dl_Generation = d_generation r, dl_AcceptedAt = d_accepted_at r,
      dl_RetryDeadline = d_retry_deadline r, dl_NextAttemptAt = d_next_attempt_at r,
      dl_LeaseOwner = None, dl_LeaseToken = None, dl_LeaseUntil = None\<rparr>"

definition queryDelivery :: "(delivery_row \<Rightarrow> bool) \<Rightarrow> db \<Rightarrow> (Delivery \<times> byte list) option" where
  "queryDelivery clause db =
     (case find clause (deliveries db) of
        None \<Rightarrow> None
      | Some r \<Rightarrow> Some (delivery_of_row r, d_request_hash r))"

definition queryDeliveryByIdempotency :: "db \<Rightarrow> string \<Rightarrow> string \<Rightarrow> (Delivery \<times> byte list) option" where
  "queryDeliveryByIdempotency db callerID idempotencyKey =
     queryDelivery (\<lambda>r. d_caller_id r = callerID \<and> d_idempotency_key r = idempotencyKey) db"

definition active_backlog :: "db \<Rightarrow> int" where
  "active_backlog db = int (count_where (\<lambda>r. active_status (d_status r)) (deliveries db))"

definition accepted_row :: "env \<Rightarrow> Submission \<Rightarrow> string \<Rightarrow> string \<Rightarrow> delivery_row" where
  "accepted_row E submission deliveryID supplierValue =
     \<lparr>d_id = deliveryID, d_caller_id = sub_CallerID submission,
      d_idempotency_key = sub_IdempotencyKey submission, d_request_hash = sub_RequestHash submission,
      d_destination_id = sub_DestinationID submission,
      d_destination_version = sub_DestinationVersion submission, d_method = sub_Method submission,
      d_caller_headers = sub_CallerHeaders submission, d_body = sub_Body submission,
      d_supplier_idempotency_value = supplierValue, d_accepted_at = timestamptz (sub_AcceptedAt submission),
      d_created_at = clock_timestamp E, d_status = StatusPending, d_generation = 0,
      d_retry_deadline = timestamptz (sub_RetryDeadline submission),
      d_next_attempt_at = timestamptz (sub_AcceptedAt submission),
      d_updated_at = clock_timestamp E, d_lease_owner = None, d_lease_token = None, d_lease_until = None\<rparr>"

text \<open>The answer for a new delivery is built from the submission, not read back: its times keep their nanoseconds.\<close>

definition accepted_delivery :: "Submission \<Rightarrow> string \<Rightarrow> string \<Rightarrow> Delivery" where
  "accepted_delivery submission deliveryID supplierValue =
     \<lparr>dl_ID = deliveryID, dl_CallerID = sub_CallerID submission, dl_DestinationID = sub_DestinationID submission,
      dl_DestinationVersion = sub_DestinationVersion submission, dl_Method = sub_Method submission,
      dl_CallerHeaders = sub_CallerHeaders submission, dl_Body = sub_Body submission,
      dl_SupplierIdempotencyValue = supplierValue, dl_Status = StatusPending, dl_Generation = 0,
      dl_AcceptedAt = sub_AcceptedAt submission, dl_RetryDeadline = sub_RetryDeadline submission,
      dl_NextAttemptAt = sub_AcceptedAt submission,
      dl_LeaseOwner = None, dl_LeaseToken = None, dl_LeaseUntil = None\<rparr>"

text \<open>The part of \<open>Submit\<close> after the capacity check: identifiers, the two inserts, the commit.\<close>

definition submit_new :: "env \<Rightarrow> db \<Rightarrow> Submission \<Rightarrow> (store_error + Delivery) \<times> db" where
  "submit_new E db submission =
     (case newUUID (rand_read E 0) of Inl e \<Rightarrow> (Inl e, db) | Inr deliveryID \<Rightarrow>
      case newUUID (rand_read E 1) of Inl e \<Rightarrow> (Inl e, db) | Inr outboxID \<Rightarrow>
      case newUUID (rand_read E 2) of Inl e \<Rightarrow> (Inl e, db) | Inr traceID \<Rightarrow>
      let supplierValue = (if sub_SupplierIdempotencyValue submission = [] then deliveryID
                           else sub_SupplierIdempotencyValue submission);
          row = accepted_row E submission deliveryID supplierValue
      in if stmt_fails E ''insert delivery'' then (Inl (ErrDb ''insert delivery''), db)
         else case insert_delivery db row of
           None \<Rightarrow> (Inl (ErrDb ''insert delivery''), db)
         | Some db1 \<Rightarrow>
             if stmt_fails E ''insert initial Outbox event''
             then (Inl (ErrDb ''insert initial Outbox event''), db)
             else case insert_event db1 (new_event outboxID deliveryID 0 traceID
                         (timestamptz (sub_AcceptedAt submission)) (clock_timestamp E)) of
               None \<Rightarrow> (Inl (ErrDb ''insert initial Outbox event''), db)
             | Some db2 \<Rightarrow> commit E ''commit submission'' db db2 (accepted_delivery submission deliveryID supplierValue))"

definition Submit :: "env \<Rightarrow> Store \<Rightarrow> db \<Rightarrow> Submission \<Rightarrow> (store_error + Delivery) \<times> db" where
  "Submit E store db submission =
     (if stmt_fails E ''begin submission transaction''
      then (Inl (ErrDb ''begin submission transaction''), db)
      else if stmt_fails E ''lock admission'' then (Inl (ErrDb ''lock admission''), db)
      else if stmt_fails E ''query idempotent delivery''
      then (Inl (ErrDb ''query idempotent delivery''), db)
      else case queryDeliveryByIdempotency db (sub_CallerID submission) (sub_IdempotencyKey submission) of
        Some (existing, existingHash) \<Rightarrow>
          if existingHash \<noteq> sub_RequestHash submission then (Inl ErrIdempotencyConflict, db)
          else commit E ''commit idempotent lookup'' db db existing
      | None \<Rightarrow>
          if stmt_fails E ''count active backlog'' then (Inl (ErrDb ''count active backlog''), db)
          else if active_backlog db \<ge> st_backlogLimit store then (Inl ErrBacklogCapacity, db)
          else submit_new E db submission)"

definition Get :: "env \<Rightarrow> db \<Rightarrow> string \<Rightarrow> string \<Rightarrow> store_error + Delivery" where
  "Get E db callerID deliveryID =
     (case uuid_in E deliveryID of
        None \<Rightarrow> Inl (ErrDb ''get delivery'')
      | Some i \<Rightarrow>
          if stmt_fails E ''get delivery'' then Inl (ErrDb ''get delivery'')
          else case queryDelivery (\<lambda>r. d_id r = i \<and> d_caller_id r = callerID) db of
            None \<Rightarrow> Inl ErrNotFound
          | Some (delivery, _) \<Rightarrow> Inr delivery)"

definition summary_of_row :: "attempt_row \<Rightarrow> AttemptSummary" where
  "summary_of_row a =
     \<lparr>as_Generation = a_generation a, as_ResultClass = a_result_class a,
      as_ResponseStatus = a_response_status a, as_ErrorCategory = a_error_category a,
      as_StartedAt = a_started_at a, as_FinishedAt = a_finished_at a\<rparr>"

text \<open>ORDER BY started_at DESC, id DESC; a canonical UUID text sorts as the UUID does.\<close>

definition newest_attempts :: "attempt_row list \<Rightarrow> attempt_row list" where
  "newest_attempts as = rev (sort_key (\<lambda>a. (a_started_at a, a_id a)) as)"

definition ListAttemptSummaries ::
  "env \<Rightarrow> db \<Rightarrow> string \<Rightarrow> string \<Rightarrow> int \<Rightarrow> store_error + AttemptSummary list" where
  "ListAttemptSummaries E db callerID deliveryID limit =
     (if limit \<le> 0 then Inl (ErrConfig ''attempt summary limit must be positive'')
      else case uuid_in E deliveryID of
        None \<Rightarrow> Inl (ErrDb ''list delivery attempt summaries'')
      | Some i \<Rightarrow>
          if stmt_fails E ''list delivery attempt summaries''
          then Inl (ErrDb ''list delivery attempt summaries'')
          else Inr (map summary_of_row (take (nat limit) (newest_attempts
                 (filter (\<lambda>a. a_delivery_id a = i \<and>
                    (\<exists>r\<in>set (deliveries db). d_id r = i \<and> d_caller_id r = callerID))
                   (delivery_attempts db))))))"

text \<open>\<open>queryDestinationVersion\<close> of \<open>worker_store.go\<close>.\<close>

definition queryDestinationVersion :: "db \<Rightarrow> string \<Rightarrow> int \<Rightarrow> DestinationVersion option" where
  "queryDestinationVersion db destinationID version =
     map_option destination_of_row
       (find (\<lambda>v. v_destination_id v = destinationID \<and> v_version v = version) (destination_versions db))"

definition row_of_destination :: "DestinationVersion \<Rightarrow> destination_version_row" where
  "row_of_destination d =
     \<lparr>v_destination_id = dv_DestinationID d, v_version = dv_Version d, v_url = dv_URL d,
      v_network_policy = dv_NetworkPolicy d, v_allowed_methods = dv_AllowedMethods d,
      v_allowed_headers = dv_AllowedHeaders d, v_secret_ref = dv_SecretRef d,
      v_credential_header = dv_CredentialHeader d, v_idempotency_header = dv_IdempotencyHeader d,
      v_success_statuses = dv_SuccessStatuses d, v_retry_statuses = dv_RetryStatuses d,
      v_connect_timeout_ms = Milliseconds (dv_ConnectTimeout d),
      v_request_timeout_ms = Milliseconds (dv_RequestTimeout d),
      v_rate_per_second = dv_RatePerSecond d, v_max_concurrency = dv_MaxConcurrency d\<rparr>"

text \<open>INSERT INTO callers ... ON CONFLICT (id) DO NOTHING: another caller's key hash still
  violates its UNIQUE constraint.\<close>

definition upsert_caller :: "db \<Rightarrow> string \<Rightarrow> byte list \<Rightarrow> db option" where
  "upsert_caller db callerID apiKeyHash =
     (if callerID \<in> c_id ` set (callers db) then Some db
      else if apiKeyHash \<in> c_api_key_hash ` set (callers db) then None
      else Some (db\<lparr>callers := callers db @ [\<lparr>c_id = callerID, c_api_key_hash = apiKeyHash, c_is_operator = False\<rparr>]\<rparr>))"

definition upsert_destination :: "db \<Rightarrow> string \<Rightarrow> int \<Rightarrow> db" where
  "upsert_destination db i version =
     (if i \<in> ds_id ` set (destinations db)
      then db\<lparr>destinations := update_where (\<lambda>d. ds_id d = i) (\<lambda>d. d\<lparr>ds_current_version := version\<rparr>) (destinations db)\<rparr>
      else db\<lparr>destinations := destinations db @ [\<lparr>ds_id = i, ds_current_version = version\<rparr>]\<rparr>)"

text \<open>INSERT INTO destination_versions ... ON CONFLICT DO NOTHING: the CHECK constraints are
  evaluated before the conflict.\<close>

definition insert_version :: "db \<Rightarrow> destination_version_row \<Rightarrow> db option" where
  "insert_version db v =
     (if \<not> version_check v then None
      else if version_key v \<in> version_key ` set (destination_versions db) then Some db
      else Some (db\<lparr>destination_versions := destination_versions db @ [v]\<rparr>))"

definition insert_grant :: "db \<Rightarrow> string \<Rightarrow> string \<Rightarrow> db" where
  "insert_grant db c d =
     (if (c, d) \<in> set (caller_destinations db) then db
      else db\<lparr>caller_destinations := caller_destinations db @ [(c, d)]\<rparr>)"

text \<open>The statements of the bootstrap transaction, from the caller to the commit.\<close>

definition bootstrap_tx ::
  "env \<Rightarrow> (byte list \<Rightarrow> byte list) \<Rightarrow> db \<Rightarrow> BootstrapConfig \<Rightarrow> (store_error + unit) \<times> db" where
  "bootstrap_tx E sha256 db config =
     (let dest = bc_Destination config; apiKeyHash = sha256 (bytes_of (bc_CallerAPIKey config)) in
      if stmt_fails E ''bootstrap caller'' then (Inl (ErrDb ''bootstrap caller''), db)
      else case upsert_caller db (bc_CallerID config) apiKeyHash of
        None \<Rightarrow> (Inl (ErrDb ''bootstrap caller''), db)
      | Some db1 \<Rightarrow>
        if stmt_fails E ''verify bootstrap caller'' then (Inl (ErrDb ''verify bootstrap caller''), db)
        else if \<not> (\<exists>c\<in>set (callers db1). c_id c = bc_CallerID config \<and> c_api_key_hash c = apiKeyHash)
        then (Inl (ErrConfig ''bootstrap caller conflicts with existing configuration''), db)
        else if stmt_fails E ''bootstrap destination'' then (Inl (ErrDb ''bootstrap destination''), db)
        else let db2 = upsert_destination db1 (dv_DestinationID dest) (dv_Version dest) in
        if stmt_fails E ''bootstrap destination version''
        then (Inl (ErrDb ''bootstrap destination version''), db)
        else case insert_version db2 (row_of_destination dest) of
          None \<Rightarrow> (Inl (ErrDb ''bootstrap destination version''), db)
        | Some db3 \<Rightarrow>
          if stmt_fails E ''verify bootstrap destination version''
          then (Inl (ErrDb ''verify bootstrap destination version''), db)
          else case queryDestinationVersion db3 (dv_DestinationID dest) (dv_Version dest) of
            None \<Rightarrow> (Inl (ErrDb ''verify bootstrap destination version''), db)
          | Some existingDestination \<Rightarrow>
            if existingDestination \<noteq> dest
            then (Inl (ErrConfig ''bootstrap destination version conflicts with existing configuration''), db)
            else if stmt_fails E ''bootstrap destination authorization''
            then (Inl (ErrDb ''bootstrap destination authorization''), db)
            else commit E ''commit bootstrap'' db
                   (insert_grant db3 (bc_CallerID config) (dv_DestinationID dest)) ())"

definition Bootstrap ::
  "env \<Rightarrow> (byte list \<Rightarrow> byte list) \<Rightarrow> db \<Rightarrow> BootstrapConfig \<Rightarrow> (store_error + unit) \<times> db" where
  "Bootstrap E sha256 db config =
     (let dest = bc_Destination config in
      if bc_CallerID config = [] \<or> bc_CallerAPIKey config = [] \<or> dv_DestinationID dest = [] \<or> dv_Version dest \<le> 0
      then (Inl (ErrConfig ''bootstrap configuration is incomplete''), db)
      else if list_ex (\<lambda>m. \<not> IsSupportedOutboundMethod m) (dv_AllowedMethods dest)
      then (Inl (ErrConfig ''bootstrap destination contains unsupported method''), db)
      else if stmt_fails E ''begin bootstrap'' then (Inl (ErrDb ''begin bootstrap''), db)
      else bootstrap_tx E sha256 db config)"

section \<open>Submission keeps the invariant\<close>

lemma insert_delivery_Some:
  assumes "insert_delivery db r = Some db'"
  shows "db' = db\<lparr>deliveries := deliveries db @ [r]\<rparr>" "delivery_check r" "delivery_fk db r"
    "\<not> has_delivery db (d_id r)" "idem_key r \<notin> idem_key ` set (deliveries db)"
  using assms by (auto simp: insert_delivery_def split: if_splits)

lemma has_delivery_append [simp]:
  "has_delivery (db\<lparr>deliveries := deliveries db @ rs\<rparr>) i \<longleftrightarrow> has_delivery db i \<or> i \<in> d_id ` set rs"
  by (auto simp: has_delivery_def)

lemma schema_ok_insert_delivery:
  assumes "schema_ok db" "insert_delivery db r = Some db'"
  shows "schema_ok db'"
proof -
  note ins = insert_delivery_Some [OF assms(2)]
  have "deliveries_ok db'"
    using assms(1) ins by (auto simp: schema_ok_def deliveries_ok_def has_delivery_def)
  then show ?thesis
    using assms(1) by (auto simp: schema_ok_def outbox_ok_def attempts_ok_def audits_ok_def ins(1) list_all_iff)
qed

lemma fresh_delivery_no_refs:
  assumes "schema_ok db" "\<not> has_delivery db i"
  shows "e \<in> set (outbox_events db) \<Longrightarrow> o_delivery_id e \<noteq> i"
    "a \<in> set (delivery_attempts db) \<Longrightarrow> a_delivery_id a \<noteq> i"
    "x \<in> set (replay_audits db) \<Longrightarrow> r_delivery_id x \<noteq> i"
  using assms by (auto simp: schema_defs list_all_iff)

lemma good_step_accept:
  assumes inv: "db_inv db" and ins: "insert_delivery db r = Some db1"
    and new: "d_status r = StatusPending" "d_generation r = 0"
    and ev: "insert_event db1 e = Some db2" "event_key e = (d_id r, 0)"
  shows "good_step db db2"
proof -
  note d = insert_delivery_Some [OF ins]
  have schema: "schema_ok db" using inv by (simp add: db_inv_def)
  note fresh = fresh_delivery_no_refs [OF schema d(4)]
  have db2: "db2 = db\<lparr>deliveries := deliveries db @ [r], outbox_events := outbox_events db @ [e]\<rparr>"
    using insert_event_Some [OF ev(1)] d(1) by simp
  have "schema_ok db2"
    using schema_ok_insert_event [OF schema_ok_insert_delivery [OF schema ins] ev(1)] .
  moreover have "protocol_ok db2"
    using inv fresh new ev(2) d(4) unfolding db2
    by (auto simp: db_inv_def protocol_defs has_delivery_def)
  moreover have "success_recorded db2"
    using inv new by (auto simp: db_inv_def success_recorded_def db2)
  moreover have "db_evolves db db2"
    using new d(4) by (auto simp: db_evolves_def db2 intro: evolves_refl)
  ultimately show ?thesis by (simp add: good_step_def db_inv_def)
qed

lemma submit_new_good: "db_inv db \<Longrightarrow> good_step db (snd (submit_new E db submission))"
  unfolding submit_new_def Let_def
  by (auto simp: good_step_refl accepted_row_def new_event_def split: sum.split option.split
      intro!: good_step_commit intro: good_step_accept)

lemma Submit_good: "db_inv db \<Longrightarrow> good_step db (snd (Submit E store db submission))"
  by (auto simp: Submit_def good_step_refl submit_new_good split: option.split intro!: good_step_commit)

section \<open>Bootstrap keeps the invariant\<close>

lemma upsert_caller_Some:
  assumes "upsert_caller db c h = Some db1" "config_ok db"
  obtains cs where "db1 = db\<lparr>callers := callers db @ cs\<rparr>" "c \<in> c_id ` set (callers db @ cs)"
    "distinct (map c_id (callers db @ cs))" "distinct (map c_api_key_hash (callers db @ cs))"
proof (cases "c \<in> c_id ` set (callers db)")
  case True
  with assms that [of "[]"] show ?thesis by (auto simp: upsert_caller_def config_ok_def)
next
  case False
  with assms that [of "[\<lparr>c_id = c, c_api_key_hash = h, c_is_operator = False\<rparr>]"] show ?thesis
    by (auto simp: upsert_caller_def config_ok_def split: if_splits)
qed

lemma upsert_destination_props:
  assumes "distinct (map ds_id (destinations db))"
  shows "upsert_destination db i v = db\<lparr>destinations := destinations (upsert_destination db i v)\<rparr>"
    "distinct (map ds_id (destinations (upsert_destination db i v)))"
    "ds_id ` set (destinations (upsert_destination db i v)) = insert i (ds_id ` set (destinations db))"
    "d \<in> set (destinations (upsert_destination db i v)) \<Longrightarrow>
       (ds_id d = i \<and> ds_current_version d = v) \<or> d \<in> set (destinations db)"
proof -
  let ?f = "\<lambda>d. d\<lparr>ds_current_version := v\<rparr>"
  have m: "map ds_id (update_where (\<lambda>d. ds_id d = i) ?f (destinations db)) = map ds_id (destinations db)"
    by (rule map_update_where) simp
  have im: "ds_id ` set (update_where (\<lambda>d. ds_id d = i) ?f (destinations db)) = ds_id ` set (destinations db)"
    using m by (metis list.set_map)
  show "upsert_destination db i v = db\<lparr>destinations := destinations (upsert_destination db i v)\<rparr>"
    by (simp add: upsert_destination_def)
  show "distinct (map ds_id (destinations (upsert_destination db i v)))"
    using assms m by (auto simp: upsert_destination_def)
  show "ds_id ` set (destinations (upsert_destination db i v)) = insert i (ds_id ` set (destinations db))"
    by (auto simp: upsert_destination_def im)
  show "(ds_id d = i \<and> ds_current_version d = v) \<or> d \<in> set (destinations db)"
    if "d \<in> set (destinations (upsert_destination db i v))"
    using that by (auto simp: upsert_destination_def set_update_where split: if_splits)
qed

lemma insert_version_Some:
  assumes "insert_version db v = Some db'"
  obtains vs where "db' = db\<lparr>destination_versions := destination_versions db @ vs\<rparr>" "set vs \<subseteq> {v}"
    "version_key v \<in> version_key ` set (destination_versions db @ vs)" "version_check v"
    "distinct (map version_key (destination_versions db)) \<longrightarrow> distinct (map version_key (destination_versions db @ vs))"
proof (cases "version_key v \<in> version_key ` set (destination_versions db)")
  case True
  with assms that [of "[]"] show ?thesis by (auto simp: insert_version_def split: if_splits)
next
  case False
  with assms that [of "[v]"] show ?thesis by (auto simp: insert_version_def split: if_splits)
qed

text \<open>The database a bootstrap commits, table by table.\<close>

lemma good_step_config:
  assumes inv: "db_inv db"
    and db': "db' = db\<lparr>callers := callers db @ cs, destinations := D,
       destination_versions := destination_versions db @ vs, caller_destinations := G\<rparr>"
    and config: "config_ok db'"
  shows "good_step db db'"
proof -
  have dels: "deliveries db' = deliveries db" "outbox_events db' = outbox_events db"
    "delivery_attempts db' = delivery_attempts db" "replay_audits db' = replay_audits db"
    by (simp_all add: db')
  have "deliveries_ok db'"
    using inv by (auto simp: db_inv_def schema_ok_def deliveries_ok_def dels list_all_iff delivery_fk_def db')
  moreover have "has_delivery db' = has_delivery db" by (simp add: has_delivery_def fun_eq_iff dels)
  ultimately have "schema_ok db'"
    using inv config by (auto simp: db_inv_def schema_ok_def outbox_ok_def attempts_ok_def audits_ok_def dels
        list_all_iff db')
  moreover have "protocol_ok db' \<and> success_recorded db'"
    using inv by (simp add: db_inv_def protocol_defs success_recorded_def dels)
  moreover have "db_evolves db db'"
    by (auto simp: db_evolves_def dels db' intro: bexI [of _ _ "set (deliveries db)", OF evolves_refl])
  ultimately show ?thesis by (simp add: good_step_def db_inv_def)
qed

lemma current_versions_kept:
  assumes "\<forall>d\<in>set ds. (ds_id d, ds_current_version d) \<in> version_key ` set vs"
    and "\<forall>d\<in>set D. ds_id d = i \<and> ds_current_version d = n \<or> d \<in> set ds" "(i, n) \<in> version_key ` set (vs @ vs')"
  shows "\<forall>d\<in>set D. (ds_id d, ds_current_version d) \<in> version_key ` set (vs @ vs')"
  using assms by fastforce

lemma bootstrap_config_ok:
  assumes inv: "config_ok db"
    and c: "upsert_caller db c h = Some db1"
    and v: "insert_version (upsert_destination db1 i n) v = Some db3" "version_key v = (i, n)"
  shows "config_ok (insert_grant db3 c i)"
    "\<exists>cs D vs G. insert_grant db3 c i = db\<lparr>callers := callers db @ cs, destinations := D,
       destination_versions := destination_versions db @ vs, caller_destinations := G\<rparr>"
proof -
  from c inv obtain cs where cs: "db1 = db\<lparr>callers := callers db @ cs\<rparr>" "c \<in> c_id ` set (callers db @ cs)"
    "distinct (map c_id (callers db @ cs))" "distinct (map c_api_key_hash (callers db @ cs))"
    by (rule upsert_caller_Some)
  define D where "D = destinations (upsert_destination db1 i n)"
  have "distinct (map ds_id (destinations db1))" using inv cs(1) by (simp add: config_ok_def)
  note D = upsert_destination_props [OF this, where i = i and v = n, folded D_def]
  from v(1) obtain vs where vs: "db3 = (upsert_destination db1 i n)\<lparr>destination_versions :=
        destination_versions (upsert_destination db1 i n) @ vs\<rparr>" "set vs \<subseteq> {v}"
      "version_key v \<in> version_key ` set (destination_versions (upsert_destination db1 i n) @ vs)" "version_check v"
      "distinct (map version_key (destination_versions (upsert_destination db1 i n))) \<longrightarrow>
       distinct (map version_key (destination_versions (upsert_destination db1 i n) @ vs))"
    by (rule insert_version_Some)
  have ud: "destination_versions (upsert_destination db1 i n) = destination_versions db"
    by (simp add: upsert_destination_def cs(1))
  define G where "G = caller_destinations (insert_grant db3 c i)"
  have db3: "db3 = db\<lparr>callers := callers db @ cs, destinations := D,
       destination_versions := destination_versions db @ vs\<rparr>"
    using vs(1) ud by (subst (asm) D(1)) (simp add: cs(1))
  have fin: "insert_grant db3 c i = db\<lparr>callers := callers db @ cs, destinations := D,
       destination_versions := destination_versions db @ vs, caller_destinations := G\<rparr>"
    by (simp add: G_def insert_grant_def db3)
  then show "\<exists>cs D vs G. insert_grant db3 c i = db\<lparr>callers := callers db @ cs, destinations := D,
       destination_versions := destination_versions db @ vs, caller_destinations := G\<rparr>" by blast
  have G: "distinct G" "set G = insert (c, i) (set (caller_destinations db))"
    using inv by (auto simp: G_def insert_grant_def db3 config_ok_def)
  have "list_all version_check (destination_versions db @ vs)"
    using inv vs(2,4) by (auto simp: config_ok_def list_all_iff)
  moreover have "distinct (map version_key (destination_versions db @ vs))"
    using inv vs(5) by (simp add: ud config_ok_def)
  moreover have "\<forall>w\<in>set (destination_versions db @ vs). v_destination_id w \<in> ds_id ` set D"
    using inv vs(2) v(2) D(3) cs(1) by (auto simp: config_ok_def)
  moreover have "\<forall>d\<in>set D. (ds_id d, ds_current_version d) \<in> version_key ` set (destination_versions db @ vs)"
    by (rule current_versions_kept [where ds = "destinations db" and i = i and n = n])
      (use inv D(4) cs(1) vs(3) v(2) ud in \<open>simp_all add: config_ok_def\<close>)
  moreover have "\<forall>(c', d')\<in>set G. c' \<in> c_id ` set (callers db @ cs) \<and> d' \<in> ds_id ` set D"
    using inv cs(1,2) D(3) by (auto simp: config_ok_def G(2))
  ultimately show "config_ok (insert_grant db3 c i)"
    unfolding fin using cs(3,4) D(2) G(1) by (simp add: config_ok_def)
qed

lemma version_key_row_of_destination [simp]:
  "v_destination_id (row_of_destination d) = dv_DestinationID d" "v_version (row_of_destination d) = dv_Version d"
  by (simp_all add: row_of_destination_def)

lemma bootstrap_tx_good: "db_inv db \<Longrightarrow> good_step db (snd (bootstrap_tx E sha256 db config))"
proof -
  assume inv: "db_inv db"
  have step: "good_step db (insert_grant db3 c i)"
    if c: "upsert_caller db c h = Some db1"
      and v: "insert_version (upsert_destination db1 i n) v = Some db3" "version_key v = (i, n)"
    for c h db1 i n v db3
  proof -
    have "config_ok db" using inv by (simp add: db_inv_def schema_ok_def)
    note ok = bootstrap_config_ok [OF this c v]
    from ok(2) obtain cs D vs G where "insert_grant db3 c i = db\<lparr>callers := callers db @ cs, destinations := D,
       destination_versions := destination_versions db @ vs, caller_destinations := G\<rparr>" by blast
    from good_step_config [OF inv this ok(1)] show ?thesis .
  qed
  show ?thesis
    unfolding bootstrap_tx_def Let_def
    by (auto simp: inv good_step_refl split: option.split intro!: good_step_commit intro: step)
qed

lemma Bootstrap_good: "db_inv db \<Longrightarrow> good_step db (snd (Bootstrap E sha256 db config))"
  by (auto simp: Bootstrap_def Let_def good_step_refl bootstrap_tx_good)

lemma bootstrap_tx_Inr:
  assumes "bootstrap_tx E sha256 db config = (Inr (), db')"
  obtains db1 db3 where
    "upsert_caller db (bc_CallerID config) (sha256 (bytes_of (bc_CallerAPIKey config))) = Some db1"
    "\<exists>c\<in>set (callers db1). c_id c = bc_CallerID config \<and> c_api_key_hash c = sha256 (bytes_of (bc_CallerAPIKey config))"
    "insert_version (upsert_destination db1 (dv_DestinationID (bc_Destination config)) (dv_Version (bc_Destination config)))
       (row_of_destination (bc_Destination config)) = Some db3"
    "queryDestinationVersion db3 (dv_DestinationID (bc_Destination config)) (dv_Version (bc_Destination config)) =
       Some (bc_Destination config)"
    "db' = insert_grant db3 (bc_CallerID config) (dv_DestinationID (bc_Destination config))"
  using assms unfolding bootstrap_tx_def Let_def guard_Inr
  by (elim conjE exE, intro that) (auto simp: commit_def split: if_splits)

lemma upsert_destination_current:
  "d \<in> set (destinations (upsert_destination db i n)) \<Longrightarrow> ds_id d = i \<Longrightarrow> ds_current_version d = n"
proof (cases "i \<in> ds_id ` set (destinations db)")
  case True
  assume d: "d \<in> set (destinations (upsert_destination db i n))" "ds_id d = i"
  with True have "d \<in> set (update_where (\<lambda>d. ds_id d = i) (\<lambda>d. d\<lparr>ds_current_version := n\<rparr>) (destinations db))"
    by (simp add: upsert_destination_def)
  then show ?thesis using d(2) by (cases rule: in_update_whereE) simp_all
next
  case False
  assume d: "d \<in> set (destinations (upsert_destination db i n))" "ds_id d = i"
  from d(1) False have "d \<in> set (destinations db) \<or> d = \<lparr>ds_id = i, ds_current_version = n\<rparr>"
    by (simp add: upsert_destination_def disj_commute)
  then have "d \<in> set (destinations db) \<or> ds_current_version d = n" by (metis destination_row.select_convs(2))
  with False d(2) show ?thesis by blast
qed

lemma upsert_destination_again:
  assumes "i \<in> ds_id ` set (destinations db)" "\<And>d. d \<in> set (destinations db) \<Longrightarrow> ds_id d = i \<Longrightarrow> ds_current_version d = n"
  shows "upsert_destination db i n = db"
proof -
  have "update_where (\<lambda>d. ds_id d = i) (\<lambda>d. d\<lparr>ds_current_version := n\<rparr>) (destinations db) = destinations db"
    unfolding update_where_def using assms(2) by (intro map_idI) auto
  then show ?thesis using assms(1) by (simp add: upsert_destination_def)
qed

text \<open>After a bootstrap, a second one with the same configuration finds every row in place.\<close>

lemma bootstrap_tx_again:
  assumes "bootstrap_tx E sha256 db config = (Inr (), db')" "config_ok db" "fault_free E'"
  shows "bootstrap_tx E' sha256 db' config = (Inr (), db')"
proof -
  let ?d = "bc_Destination config" and ?h = "sha256 (bytes_of (bc_CallerAPIKey config))" and ?c = "bc_CallerID config"
  from assms(1) obtain db1 db3 where
    c: "upsert_caller db ?c ?h = Some db1" "\<exists>c\<in>set (callers db1). c_id c = ?c \<and> c_api_key_hash c = ?h"
    and v: "insert_version (upsert_destination db1 (dv_DestinationID ?d) (dv_Version ?d)) (row_of_destination ?d) = Some db3"
    and q: "queryDestinationVersion db3 (dv_DestinationID ?d) (dv_Version ?d) = Some ?d"
    and db': "db' = insert_grant db3 ?c (dv_DestinationID ?d)" by (rule bootstrap_tx_Inr)
  let ?u = "upsert_destination db1 (dv_DestinationID ?d) (dv_Version ?d)"
  from v obtain vs where vs: "db3 = ?u\<lparr>destination_versions := destination_versions ?u @ vs\<rparr>" "set vs \<subseteq> {row_of_destination ?d}"
    "version_key (row_of_destination ?d) \<in> version_key ` set (destination_versions ?u @ vs)"
    "version_check (row_of_destination ?d)"
    by (rule insert_version_Some)
  have ca: "callers db' = callers db1" "destinations db' = destinations ?u"
    "destination_versions db' = destination_versions ?u @ vs"
    by (simp_all add: db' insert_grant_def vs(1) upsert_destination_def)
  from c(1) assms(2) obtain cs where "db1 = db\<lparr>callers := callers db @ cs\<rparr>" by (rule upsert_caller_Some)
  then have "distinct (map ds_id (destinations db1))" using assms(2) by (simp add: config_ok_def)
  note u = upsert_destination_props [OF this, where i = "dv_DestinationID ?d" and v = "dv_Version ?d"]
  from c(2) have "?c \<in> c_id ` set (callers db')" by (metis ca(1) imageI)
  then have "upsert_caller db' ?c ?h = Some db'" by (simp add: upsert_caller_def)
  moreover have "upsert_destination db' (dv_DestinationID ?d) (dv_Version ?d) = db'"
    by (rule upsert_destination_again) (use u(3) upsert_destination_current in \<open>auto simp: ca(2)\<close>)
  moreover have "insert_version db' (row_of_destination ?d) = Some db'"
    using vs(3,4) by (simp add: insert_version_def ca(3))
  moreover have "queryDestinationVersion db' (dv_DestinationID ?d) (dv_Version ?d) = Some ?d"
    using q by (simp add: queryDestinationVersion_def db' insert_grant_def)
  moreover have "insert_grant db' ?c (dv_DestinationID ?d) = db'"
    by (simp add: db' insert_grant_def)
  ultimately show ?thesis
    using assms(3) c(2) by (simp add: bootstrap_tx_def Let_def ca(1))
qed

interpretation submit: store_operation "\<lambda>E (store, submission) db. Submit E store db submission"
  by unfold_locales (auto simp: Submit_good)

interpretation bootstrap: store_operation "\<lambda>E (sha256, config) db. Bootstrap E sha256 db config"
  by unfold_locales (auto simp: Bootstrap_good)

section \<open>What a submission returns\<close>

lemma queryDeliveryByIdempotency_Some:
  assumes "db_inv db" "r \<in> set (deliveries db)" "idem_key r = (c, k)"
  shows "queryDeliveryByIdempotency db c k = Some (delivery_of_row r, d_request_hash r)"
proof -
  have "find (\<lambda>r. d_caller_id r = c \<and> d_idempotency_key r = k) (deliveries db) = Some r"
    using assms by (intro find_unique [where key = idem_key]) (auto simp: db_inv_def schema_ok_def deliveries_ok_def)
  then show ?thesis by (simp add: queryDeliveryByIdempotency_def queryDelivery_def)
qed

lemma queryDeliveryByIdempotency_in:
  assumes "queryDeliveryByIdempotency db c k = Some (d, h)"
  obtains r where "r \<in> set (deliveries db)" "idem_key r = (c, k)" "d = delivery_of_row r" "h = d_request_hash r"
  using assms by (auto simp: queryDeliveryByIdempotency_def queryDelivery_def dest!: find_SomeD split: option.splits)

lemma queryDeliveryByIdempotency_None:
  "queryDeliveryByIdempotency db c k = None \<longleftrightarrow> (c, k) \<notin> idem_key ` set (deliveries db)"
  by (force simp: queryDeliveryByIdempotency_def queryDelivery_def find_None_iff dest!: find_SomeD split: option.splits)

lemma accepted_row_simps [simp]:
  "d_id (accepted_row E s i v) = i" "d_caller_id (accepted_row E s i v) = sub_CallerID s"
  "d_idempotency_key (accepted_row E s i v) = sub_IdempotencyKey s"
  "d_request_hash (accepted_row E s i v) = sub_RequestHash s"
  "d_status (accepted_row E s i v) = StatusPending" "d_generation (accepted_row E s i v) = 0"
  "d_accepted_at (accepted_row E s i v) = timestamptz (sub_AcceptedAt s)"
  by (simp_all add: accepted_row_def)

text \<open>A delivery with its times as the table keeps them.\<close>

definition as_stored :: "Delivery \<Rightarrow> Delivery" where
  "as_stored d = d\<lparr>dl_AcceptedAt := timestamptz (dl_AcceptedAt d), dl_RetryDeadline := timestamptz (dl_RetryDeadline d),
     dl_NextAttemptAt := timestamptz (dl_NextAttemptAt d)\<rparr>"

lemma as_stored_idem [simp]: "as_stored (as_stored d) = as_stored d"
  by (simp add: as_stored_def)

lemma as_stored_id [simp]: "dl_ID (as_stored d) = dl_ID d"
  by (simp add: as_stored_def)

lemma accepted_delivery_stored: "delivery_of_row (accepted_row E s i v) = as_stored (accepted_delivery s i v)"
  by (simp add: as_stored_def accepted_delivery_def accepted_row_def delivery_of_row_def)

lemma new_event_simps [simp]:
  "o_id (new_event i d g t a c) = i" "o_delivery_id (new_event i d g t a c) = d"
  "o_generation (new_event i d g t a c) = g" "o_published_at (new_event i d g t a c) = None"
  "o_available_at (new_event i d g t a c) = a" "o_trace_id (new_event i d g t a c) = t"
  by (simp_all add: new_event_def)

text \<open>The rows an accepted submission adds.\<close>

definition accepts :: "db \<Rightarrow> Submission \<Rightarrow> delivery_row \<Rightarrow> outbox_row \<Rightarrow> bool" where
  "accepts db s r e \<longleftrightarrow> idem_key r = (sub_CallerID s, sub_IdempotencyKey s) \<and>
     d_request_hash r = sub_RequestHash s \<and> d_status r = StatusPending \<and> d_generation r = 0 \<and>
     event_key e = (d_id r, 0) \<and> o_published_at e = None \<and> o_available_at e = d_accepted_at r \<and>
     \<not> has_delivery db (d_id r)"

lemma submit_new_cases:
  obtains (failed) x where "fst (submit_new E db s) = Inl x" "snd (submit_new E db s) = db"
  | (committed) r e d where "accepts db s r e" "delivery_of_row r = as_stored d"
      "submit_new E db s = commit E ''commit submission'' db
         (db\<lparr>deliveries := deliveries db @ [r], outbox_events := outbox_events db @ [e]\<rparr>) d"
proof (cases "\<exists>x. submit_new E db s = (Inl x, db)")
  case True
  with failed show thesis by auto
next
  case False
  then obtain did oid tid v db1 db2 where
      ins: "insert_delivery db (accepted_row E s did v) = Some db1"
      "insert_event db1 (new_event oid did 0 tid (timestamptz (sub_AcceptedAt s)) (clock_timestamp E)) = Some db2"
      and eq: "submit_new E db s = commit E ''commit submission'' db db2 (accepted_delivery s did v)"
    unfolding submit_new_def by (auto simp: Let_def split: sum.splits option.splits if_splits)
  from ins have "db2 = db\<lparr>deliveries := deliveries db @ [accepted_row E s did v],
      outbox_events := outbox_events db @ [new_event oid did 0 tid (timestamptz (sub_AcceptedAt s)) (clock_timestamp E)]\<rparr>"
    by (auto dest!: insert_event_Some insert_delivery_Some(1))
  moreover from ins(1) have "\<not> has_delivery db did" by (auto dest: insert_delivery_Some(4))
  ultimately show thesis using eq
    by (intro committed [OF _ accepted_delivery_stored]) (auto simp: accepts_def)
qed

text \<open>A new submission that nothing stands against: no fault, fresh identifiers, a digest of the
  right length, an unused key and room in the backlog.\<close>

definition admissible :: "env \<Rightarrow> Store \<Rightarrow> db \<Rightarrow> Submission \<Rightarrow> string \<Rightarrow> bool" where
  "admissible E store db s did \<longleftrightarrow> fault_free E \<and> newUUID (rand_read E 0) = Inr did \<and> \<not> has_delivery db did \<and>
     (case newUUID (rand_read E 1) of Inl _ \<Rightarrow> False | Inr oid \<Rightarrow> oid \<notin> o_id ` set (outbox_events db)) \<and>
     \<not> isl (newUUID (rand_read E 2)) \<and> length (sub_RequestHash s) = 32 \<and> (sub_CallerID s, sub_IdempotencyKey s) \<notin> idem_key ` set (deliveries db) \<and>
     active_backlog db < st_backlogLimit store"

lemma Submit_admits:
  assumes inv: "db_inv db" and ok: "admissible E store db s did"
    and fk: "sub_CallerID s \<in> c_id ` set (callers db)"
      "(sub_DestinationID s, sub_DestinationVersion s) \<in> version_key ` set (destination_versions db)"
  shows "\<exists>db' v. Submit E store db s = (Inr (accepted_delivery s did v), db') \<and>
    deliveries db' = deliveries db @ [accepted_row E s did v]"
proof -
  obtain oid tid where ids: "newUUID (rand_read E 0) = Inr did" "newUUID (rand_read E 1) = Inr oid" "newUUID (rand_read E 2) = Inr tid"
    and oid: "oid \<notin> o_id ` set (outbox_events db)"
    using ok by (auto simp: admissible_def isl_def split: sum.splits) (metis sum.exhaust)
  define v where "v = (if sub_SupplierIdempotencyValue s = [] then did else sub_SupplierIdempotencyValue s)"
  let ?r = "accepted_row E s did v" and ?e = "new_event oid did 0 tid (timestamptz (sub_AcceptedAt s)) (clock_timestamp E)"
  have ff: "fault_free E" and new: "\<not> has_delivery db did" using ok by (auto simp: admissible_def)
  have "insert_delivery db ?r = Some (db\<lparr>deliveries := deliveries db @ [?r]\<rparr>)"
    using ok fk by (auto simp: insert_delivery_def admissible_def delivery_check_def delivery_fk_def accepted_row_def lease_absent_def)
  moreover have "(did, 0) \<notin> event_key ` set (outbox_events db)"
    using inv new by (auto simp: db_inv_def schema_ok_def outbox_ok_def list_all_iff)
  then have "\<exists>db2. insert_event (db\<lparr>deliveries := deliveries db @ [?r]\<rparr>) ?e = Some db2 \<and> deliveries db2 = deliveries db @ [?r]"
    using oid by (auto simp: insert_event_def outbox_check_def new_event_def has_delivery_def)
  ultimately have "\<exists>db'. submit_new E db s = (Inr (accepted_delivery s did v), db') \<and> deliveries db' = deliveries db @ [?r]"
    using ff ids by (auto simp: submit_new_def v_def [symmetric] Let_def)
  moreover have "queryDeliveryByIdempotency db (sub_CallerID s) (sub_IdempotencyKey s) = None"
    using ok by (simp add: queryDeliveryByIdempotency_None admissible_def)
  then have "Submit E store db s = submit_new E db s" using ok ff by (simp add: Submit_def admissible_def)
  ultimately show ?thesis by auto
qed

lemma Submit_Inr_cases:
  assumes "fst (Submit E store db s) = Inr d"
  obtains (existing) r where "r \<in> set (deliveries db)" "idem_key r = (sub_CallerID s, sub_IdempotencyKey s)"
      "d_request_hash r = sub_RequestHash s" "d = delivery_of_row r" "snd (Submit E store db s) = db"
  | (accepted) r e where "accepts db s r e" "delivery_of_row r = as_stored d"
      "snd (Submit E store db s) = db\<lparr>deliveries := deliveries db @ [r], outbox_events := outbox_events db @ [e]\<rparr>"
      "idem_key r \<notin> idem_key ` set (deliveries db)" "active_backlog db < st_backlogLimit store"
proof (cases "queryDeliveryByIdempotency db (sub_CallerID s) (sub_IdempotencyKey s)")
  case None
  then have new: "fst (submit_new E db s) = Inr d" "Submit E store db s = submit_new E db s"
    "active_backlog db < st_backlogLimit store"
    using assms by (auto simp: Submit_def split: if_splits)
  show ?thesis
  proof (cases rule: submit_new_cases [of E db s])
    case (committed r e d')
    with new None accepted show ?thesis
      by (auto simp: queryDeliveryByIdempotency_None accepts_def dest!: commit_Inr)
  qed (use new in auto)
next
  case (Some p)
  obtain d' h where p: "p = (d', h)" by (cases p)
  from Some obtain r where r: "r \<in> set (deliveries db)" "idem_key r = (sub_CallerID s, sub_IdempotencyKey s)"
    "d' = delivery_of_row r" "h = d_request_hash r" unfolding p by (rule queryDeliveryByIdempotency_in)
  from assms Some have "d_request_hash r = sub_RequestHash s" "d = delivery_of_row r" "snd (Submit E store db s) = db"
    using r by (auto simp: Submit_def p commit_def split: if_splits)
  with r existing show ?thesis by blast
qed

lemma Submit_keeps_rows: "set (deliveries db) \<subseteq> set (deliveries (snd (Submit E store db s)))"
proof -
  have "set (deliveries db) \<subseteq> set (deliveries (snd (submit_new E db s)))"
    by (cases rule: submit_new_cases [of E db s]) (auto simp: commit_def)
  then show ?thesis by (auto simp: Submit_def commit_def split: option.split)
qed

text \<open>A client that repeats its submission, each time under other faults.\<close>

fun submit_all :: "Store \<Rightarrow> db \<Rightarrow> (env \<times> Submission) list \<Rightarrow> (store_error + Delivery) list \<times> db" where
  "submit_all store db [] = ([], db)"
| "submit_all store db ((E, s) # rest) =
     (let (result, db1) = Submit E store db s; (results, db2) = submit_all store db1 rest
      in (result # results, db2))"

lemma submit_all_inv: "db_inv db \<Longrightarrow> db_inv (snd (submit_all store db xs))"
proof (induction xs arbitrary: db)
  case (Cons x xs)
  obtain E s where x: "x = (E, s)" by (cases x)
  have "db_inv (snd (Submit E store db s))"
    using Submit_good [OF Cons.prems, of E store s] by (simp add: good_step_def)
  from Cons.IH [OF this] show ?case by (simp add: x split_beta Let_def)
qed simp

lemma submit_all_keeps_rows: "set (deliveries db) \<subseteq> set (deliveries (snd (submit_all store db xs)))"
proof (induction xs arbitrary: db)
  case (Cons x xs)
  obtain E s where x: "x = (E, s)" by (cases x)
  have "set (deliveries db) \<subseteq> set (deliveries (snd (Submit E store db s)))" by (rule Submit_keeps_rows)
  also have "\<dots> \<subseteq> set (deliveries (snd (submit_all store db (x # xs))))"
    using Cons.IH [of "snd (Submit E store db s)"] by (simp add: x split_beta Let_def)
  finally show ?case .
qed simp

lemma submit_all_results:
  assumes "Inr d \<in> set (fst (submit_all store db xs))" "\<forall>(E, s)\<in>set xs. (sub_CallerID s, sub_IdempotencyKey s) = ck"
  shows "\<exists>r\<in>set (deliveries (snd (submit_all store db xs))). idem_key r = ck \<and> as_stored d = as_stored (delivery_of_row r)"
  using assms
proof (induction xs arbitrary: db)
  case (Cons x xs)
  obtain E s where x: "x = (E, s)" by (cases x)
  let ?db1 = "snd (Submit E store db s)"
  have key: "(sub_CallerID s, sub_IdempotencyKey s) = ck" using Cons.prems(2) by (simp add: x)
  have last: "snd (submit_all store db (x # xs)) = snd (submit_all store ?db1 xs)"
    by (simp add: x split_beta Let_def)
  from Cons.prems(1) consider "fst (Submit E store db s) = Inr d" | "Inr d \<in> set (fst (submit_all store ?db1 xs))"
    by (auto simp: x split_beta Let_def)
  then show ?case
  proof cases
    case 1
    then have "\<exists>r\<in>set (deliveries ?db1). idem_key r = ck \<and> as_stored d = as_stored (delivery_of_row r)"
      using key by (cases rule: Submit_Inr_cases) (auto simp: accepts_def)
    then show ?thesis using submit_all_keeps_rows [of ?db1 store xs] unfolding last by blast
  next
    case 2
    with Cons.IH [of ?db1] Cons.prems(2) show ?thesis unfolding last by simp
  qed
qed simp

lemma active_backlog_append [simp]:
  "active_backlog (db\<lparr>deliveries := deliveries db @ [r], outbox_events := es\<rparr>) =
     active_backlog db + (if active_status (d_status r) then 1 else 0)"
  by (simp add: active_backlog_def)

section \<open>Properties\<close>

definition demo_submission :: "string \<Rightarrow> byte \<Rightarrow> Submission" where
  "demo_submission key b = \<lparr>sub_CallerID = ''c'', sub_IdempotencyKey = key, sub_RequestHash = replicate 32 b,
     sub_DestinationID = ''s'', sub_DestinationVersion = 1, sub_Method = ''POST'', sub_CallerHeaders = [],
     sub_Body = [b], sub_SupplierIdempotencyValue = [], sub_AcceptedAt = 10, sub_RetryDeadline = 10 + 24 * Hour\<rparr>"

text \<open>C7. Durable acceptance is atomic: when \<open>Submit\<close> reports a delivery, the database holds it under
  the caller's idempotency key with the submitted hash, and either it was there before and
  nothing changed, or the one transaction added exactly that delivery, its times cut to the
  column's microseconds, pending in generation 0, and its unpublished generation 0 Outbox event,
  with the active backlog below the limit.\<close>

theorem submit_accepts_atomically:
  assumes "Submit E store db s = (Inr d, db')"
  shows "\<exists>r\<in>set (deliveries db').
     idem_key r = (sub_CallerID s, sub_IdempotencyKey s) \<and> d_request_hash r = sub_RequestHash s \<and>
     (db' = db \<and> d = delivery_of_row r \<or> (\<exists>e. delivery_of_row r = as_stored d \<and> db' = db\<lparr>deliveries := deliveries db @ [r], outbox_events := outbox_events db @ [e]\<rparr> \<and>
        accepts db s r e \<and> active_backlog db < st_backlogLimit store))"
proof -
  from assms have res: "fst (Submit E store db s) = Inr d" and db': "db' = snd (Submit E store db s)" by simp_all
  from res show ?thesis
  proof (cases rule: Submit_Inr_cases)
    case (existing r)
    then show ?thesis unfolding db' by (intro bexI [of _ r]) simp_all
  next
    case (accepted r e)
    then show ?thesis unfolding db' by (intro bexI [of _ r]) (auto simp: accepts_def)
  qed
qed

theorem submit_accepts_atomically_witness:
  "\<exists>d db'. Submit (quiet_env 5) \<lparr>st_backlogLimit = 10\<rparr> demo_db (demo_submission ''new'' 9) = (Inr d, db') \<and>
     (\<exists>r\<in>set (deliveries db'). idem_key r = (''c'', ''new'') \<and> d_request_hash r = replicate 32 9)"
proof -
  let ?S = "Submit (quiet_env 5) \<lparr>st_backlogLimit = 10\<rparr> demo_db (demo_submission ''new'' 9)"
  have "isl (fst ?S) = False" by code_simp
  then obtain d where "?S = (Inr d, snd ?S)" by (metis isl_def prod.collapse sum.collapse(2) sum.disc(2))
  from submit_accepts_atomically [OF this] this show ?thesis
    unfolding demo_submission_def Submission.simps by blast
qed

text \<open>Submission is idempotent: without database faults, repeating an idempotency key that is
  already stored returns the original delivery when the request hash agrees and
  \<open>ErrIdempotencyConflict\<close> when it differs; either way nothing changes, and the capacity limit
  is not consulted.\<close>

theorem resubmission_is_idempotent:
  assumes "db_inv db" "r \<in> set (deliveries db)" "idem_key r = (sub_CallerID s, sub_IdempotencyKey s)" "fault_free E"
  shows "Submit E store db s =
     (if d_request_hash r = sub_RequestHash s then Inr (delivery_of_row r) else Inl ErrIdempotencyConflict, db)"
  using assms by (simp add: Submit_def queryDeliveryByIdempotency_Some [OF assms(1-3)])

theorem resubmission_is_idempotent_witness:
  "Submit (quiet_env 5) \<lparr>st_backlogLimit = 1\<rparr> demo_db (demo_submission ''kp'' 7) =
     (Inr (delivery_of_row (demo_delivery ''p'' ''kp'' StatusPending 0)), demo_db)"
proof -
  have r: "demo_delivery ''p'' ''kp'' StatusPending 0 \<in> set (deliveries demo_db)"
    by (simp add: demo_db_def)
  show ?thesis
    using resubmission_is_idempotent [OF demo_db_inv r, of "demo_submission ''kp'' 7" "quiet_env 5"]
    by (simp add: demo_delivery_def demo_submission_def)
qed

text \<open>C8. However often a client repeats a submission under one idempotency key, and whatever faults
  (including a commit whose outcome was lost) occur on the way, all successful answers are the
  same delivery, up to the nanoseconds that the answer to the first one has and the table does not
  keep, and the database holds exactly one delivery for the key.\<close>

theorem retried_submission_single_delivery:
  assumes "db_inv db" "\<forall>(E, s)\<in>set xs. (sub_CallerID s, sub_IdempotencyKey s) = ck"
    and "submit_all store db xs = (results, db')" "Inr d1 \<in> set results" "Inr d2 \<in> set results"
  shows "as_stored d1 = as_stored d2 \<and> count_where (\<lambda>r. idem_key r = ck) (deliveries db') = 1"
proof -
  from assms(3) have res: "results = fst (submit_all store db xs)" and db': "db' = snd (submit_all store db xs)"
    by simp_all
  have uniq: "distinct (map idem_key (deliveries db'))"
    using submit_all_inv [OF assms(1)] by (simp add: db' db_inv_def schema_ok_def deliveries_ok_def)
  from submit_all_results [OF _ assms(2)] assms(4,5) res obtain r1 r2 where
    r: "r1 \<in> set (deliveries db')" "idem_key r1 = ck" "as_stored d1 = as_stored (delivery_of_row r1)"
    "r2 \<in> set (deliveries db')" "idem_key r2 = ck" "as_stored d2 = as_stored (delivery_of_row r2)" unfolding db' by metis
  have "r1 = r2" by (rule distinct_map_in_eq [OF uniq]) (use r in simp_all)
  moreover have "count_where (\<lambda>r. idem_key r = ck) (deliveries db') = 1"
    using count_where_distinct [OF uniq, of "\<lambda>r. idem_key r = ck" ck] r by auto
  ultimately show ?thesis using r by simp
qed

theorem retried_submission_single_delivery_witness:
  "\<exists>d db'. submit_all \<lparr>st_backlogLimit = 10\<rparr> demo_db
      [((quiet_env 5)\<lparr>stmt_fails := (\<lambda>m. m = ''commit submission''), commit_lost := True\<rparr>, demo_submission ''new'' 9),
       (quiet_env 6, demo_submission ''new'' 9)] = ([Inl (ErrDb ''commit submission''), Inr d], db') \<and>
     count_where (\<lambda>r. idem_key r = (''c'', ''new'')) (deliveries db') = 1"
proof -
  let ?xs = "[((quiet_env 5)\<lparr>stmt_fails := (\<lambda>m. m = ''commit submission''), commit_lost := True\<rparr>, demo_submission ''new'' 9),
       (quiet_env 6, demo_submission ''new'' 9)]"
  define T where "T = submit_all \<lparr>st_backlogLimit = 10\<rparr> demo_db ?xs"
  have "length (fst T) = 2" "fst T ! 0 = Inl (ErrDb ''commit submission'')" "\<not> isl (fst T ! 1)"
    unfolding T_def by code_simp+
  then obtain d where "fst T = [Inl (ErrDb ''commit submission''), Inr d]"
    by (cases "fst T"; cases "tl (fst T)"; cases "fst T ! 1") auto
  then have "T = ([Inl (ErrDb ''commit submission''), Inr d], snd T)" by (cases T) simp
  then have S: "submit_all \<lparr>st_backlogLimit = 10\<rparr> demo_db ?xs = ([Inl (ErrDb ''commit submission''), Inr d], snd T)"
    by (simp only: T_def [symmetric])
  have keys: "\<forall>(E, s)\<in>set ?xs. (sub_CallerID s, sub_IdempotencyKey s) = (''c'', ''new'')"
    by (simp add: demo_submission_def)
  have "as_stored d = as_stored d \<and> count_where (\<lambda>r. idem_key r = (''c'', ''new'')) (deliveries (snd T)) = 1"
    by (rule retried_submission_single_delivery [OF demo_db_inv keys S]) simp_all
  with S show ?thesis by blast
qed

text \<open>A failed submission leaves nothing behind: when \<open>Submit\<close> returns an error the database is
  unchanged, except that a commit reported as failed may have taken effect, and then the whole acceptance
  is there.\<close>

theorem submit_error_leaves_no_trace:
  assumes "Submit E store db s = (Inl x, db')"
  shows "db' = db \<or> (x = ErrDb ''commit submission'' \<and> stmt_fails E ''commit submission'' \<and> commit_lost E \<and>
    (\<exists>r e. accepts db s r e \<and> db' = db\<lparr>deliveries := deliveries db @ [r], outbox_events := outbox_events db @ [e]\<rparr>))"
proof -
  let ?lost = "\<lambda>db'. x = ErrDb ''commit submission'' \<and> stmt_fails E ''commit submission'' \<and> commit_lost E \<and>
    (\<exists>r e. accepts db s r e \<and> db' = db\<lparr>deliveries := deliveries db @ [r], outbox_events := outbox_events db @ [e]\<rparr>)"
  have "snd (submit_new E db s) = db \<or> ?lost (snd (submit_new E db s))" if "fst (submit_new E db s) = Inl x"
    using that by (cases rule: submit_new_cases [of E db s]) (auto simp: commit_def split: if_splits)
  moreover have "db' = db \<or> submit_new E db s = (Inl x, db')"
    using assms by (auto simp: Submit_def commit_def split: option.splits if_splits)
  ultimately show ?thesis by auto
qed

theorem submit_error_leaves_no_trace_witness:
  "snd (Submit (quiet_env 5) \<lparr>st_backlogLimit = 3\<rparr> demo_db (demo_submission ''new'' 9)) = demo_db"
proof -
  have "fst (Submit (quiet_env 5) \<lparr>st_backlogLimit = 3\<rparr> demo_db (demo_submission ''new'' 9)) = Inl ErrBacklogCapacity"
    by code_simp
  then have "Submit (quiet_env 5) \<lparr>st_backlogLimit = 3\<rparr> demo_db (demo_submission ''new'' 9) =
      (Inl ErrBacklogCapacity, snd (Submit (quiet_env 5) \<lparr>st_backlogLimit = 3\<rparr> demo_db (demo_submission ''new'' 9)))"
    by (simp only: prod_eq_iff fst_conv snd_conv)
  from submit_error_leaves_no_trace [OF this] show ?thesis by auto
qed

text \<open>C9. Backpressure: \<open>Submit\<close> never lifts the number of pending and delivering rows above the
  configured limit, and at the limit a new key is refused with \<open>ErrBacklogCapacity\<close>.\<close>

theorem submit_respects_backlog_limit:
  assumes "active_backlog db \<le> st_backlogLimit store"
  shows "active_backlog (snd (Submit E store db s)) \<le> st_backlogLimit store \<and>
     (active_backlog db = st_backlogLimit store \<and> fault_free E \<and>
        (sub_CallerID s, sub_IdempotencyKey s) \<notin> idem_key ` set (deliveries db)
      \<longrightarrow> Submit E store db s = (Inl ErrBacklogCapacity, db))"
proof
  have new: "active_backlog (snd (submit_new E db s)) \<le> active_backlog db + 1"
    by (cases rule: submit_new_cases [of E db s]) (auto simp: commit_def)
  show "active_backlog (snd (Submit E store db s)) \<le> st_backlogLimit store"
    using assms new by (auto simp: Submit_def commit_def split: option.split)
  show "active_backlog db = st_backlogLimit store \<and> fault_free E \<and>
        (sub_CallerID s, sub_IdempotencyKey s) \<notin> idem_key ` set (deliveries db)
      \<longrightarrow> Submit E store db s = (Inl ErrBacklogCapacity, db)"
    by (auto simp: Submit_def simp flip: queryDeliveryByIdempotency_None)
qed

theorem submit_respects_backlog_limit_witness:
  "Submit (quiet_env 5) \<lparr>st_backlogLimit = 3\<rparr> demo_db (demo_submission ''new'' 9) = (Inl ErrBacklogCapacity, demo_db)"
proof -
  have "active_backlog demo_db = 3"
    "(''c'', ''new'') \<notin> idem_key ` set (deliveries demo_db)" by code_simp+
  then show ?thesis
    using submit_respects_backlog_limit [of demo_db "\<lparr>st_backlogLimit = 3\<rparr>" "quiet_env 5" "demo_submission ''new'' 9"]
    by (simp add: demo_submission_def)
qed

text \<open>Reads are scoped to the caller: for a stored delivery, \<open>Get\<close> returns it to the caller that
  owns it and answers every other caller as if it did not exist.\<close>

theorem get_is_caller_scoped:
  assumes "db_inv db" "r \<in> set (deliveries db)" "uuid_in E i = Some (d_id r)" "fault_free E"
  shows "Get E db caller i = (if d_caller_id r = caller then Inr (delivery_of_row r) else Inl ErrNotFound)"
proof (cases "d_caller_id r = caller")
  case True
  have "find (\<lambda>x. d_id x = d_id r \<and> d_caller_id x = caller) (deliveries db) = Some r"
    using assms(1,2) True by (intro find_unique [where key = d_id]) (auto simp: db_inv_def schema_ok_def deliveries_ok_def)
  with True assms show ?thesis by (simp add: Get_def queryDelivery_def)
next
  case False
  have "find (\<lambda>x. d_id x = d_id r \<and> d_caller_id x = caller) (deliveries db) = None"
  proof (rule ccontr)
    assume "find (\<lambda>x. d_id x = d_id r \<and> d_caller_id x = caller) (deliveries db) \<noteq> None"
    then obtain x where "x \<in> set (deliveries db)" "d_id x = d_id r" "d_caller_id x = caller"
      by (auto dest: find_SomeD)
    with assms(1,2) False show False
      using distinct_map_in_eq [of d_id "deliveries db" x r] by (auto simp: db_inv_def schema_ok_def deliveries_ok_def)
  qed
  with False assms show ?thesis by (simp add: Get_def queryDelivery_def)
qed

theorem get_is_caller_scoped_witness:
  "Get (quiet_env 5) demo_db ''op'' ''p'' = Inl ErrNotFound"
proof -
  have "demo_delivery ''p'' ''kp'' StatusPending 0 \<in> set (deliveries demo_db)" by (simp add: demo_db_def)
  from get_is_caller_scoped [OF demo_db_inv this, of "quiet_env 5" "''p''" "''op''"] show ?thesis
    by (simp add: demo_delivery_def quiet_env_def fault_free_def)
qed

text \<open>Attempt summaries: at most \<open>limit\<close> of them, newest first, all of the caller's own delivery,
  and none left out is newer than one listed.\<close>

theorem attempt_summaries_newest_first:
  assumes "ListAttemptSummaries E db caller i limit = Inr xs" "uuid_in E i = Some did"
  shows "length xs \<le> nat limit \<and> sorted (rev (map as_StartedAt xs)) \<and>
     (\<exists>shown hidden. xs = map summary_of_row shown \<and>
        set (shown @ hidden) = {a \<in> set (delivery_attempts db). a_delivery_id a = did \<and>
           (\<exists>r\<in>set (deliveries db). d_id r = did \<and> d_caller_id r = caller)} \<and>
        (\<forall>a\<in>set shown. \<forall>b\<in>set hidden. a_started_at b \<le> a_started_at a))"
proof -
  define mine where "mine = filter (\<lambda>a. a_delivery_id a = did \<and>
      (\<exists>r\<in>set (deliveries db). d_id r = did \<and> d_caller_id r = caller)) (delivery_attempts db)"
  define ord where "ord = newest_attempts mine"
  have xs: "xs = map summary_of_row (take (nat limit) ord)"
    using assms by (auto simp: ListAttemptSummaries_def mine_def ord_def split: if_splits)
  have "sorted (map (\<lambda>a. (a_started_at a, a_id a)) (sort_key (\<lambda>a. (a_started_at a, a_id a)) mine))"
    by (rule sorted_sort_key)
  then have "sorted (map a_started_at (sort_key (\<lambda>a. (a_started_at a, a_id a)) mine))"
    by (auto simp: sorted_map elim!: sorted_wrt_mono_rel [rotated])
  then have desc: "sorted_wrt (\<lambda>a b. a_started_at b \<le> a_started_at a) ord"
    by (simp add: ord_def newest_attempts_def sorted_wrt_rev sorted_map)
  then have split: "sorted_wrt (\<lambda>a b. a_started_at b \<le> a_started_at a) (take (nat limit) ord @ drop (nat limit) ord)"
    by simp
  have "sorted (rev (map as_StartedAt xs))"
    using desc by (simp add: xs rev_map sorted_map sorted_wrt_rev sorted_wrt_take summary_of_row_def comp_def)
  moreover have "set (take (nat limit) ord @ drop (nat limit) ord) = set mine"
    by (simp only: append_take_drop_id) (simp add: ord_def newest_attempts_def)
  moreover have "\<forall>a\<in>set (take (nat limit) ord). \<forall>b\<in>set (drop (nat limit) ord). a_started_at b \<le> a_started_at a"
    using split unfolding sorted_wrt_append by blast
  ultimately show ?thesis
    by (intro conjI exI [of _ "take (nat limit) ord"] exI [of _ "drop (nat limit) ord"]) (auto simp: xs mine_def)
qed

theorem attempt_summaries_newest_first_witness:
  "\<exists>xs. ListAttemptSummaries (quiet_env 5) demo_db ''c'' ''p'' 20 = Inr xs \<and> length xs \<le> 20"
proof -
  have "\<not> isl (ListAttemptSummaries (quiet_env 5) demo_db ''c'' ''p'' 20)" by code_simp
  then obtain xs where xs: "ListAttemptSummaries (quiet_env 5) demo_db ''c'' ''p'' 20 = Inr xs"
    by (metis sum.collapse(2))
  have "uuid_in (quiet_env 5) ''p'' = Some ''p''" by (simp add: quiet_env_def)
  from attempt_summaries_newest_first [OF xs this] xs show ?thesis by auto
qed

text \<open>Bootstrap is idempotent and never mutates a destination version: when it succeeds every stored
  version is still there unchanged, the requested version reads back exactly as configured, and
  running it again without faults succeeds and changes nothing.\<close>

theorem bootstrap_idempotent_and_immutable:
  assumes "db_inv db" "Bootstrap E sha256 db config = (Inr (), db')"
  shows "set (destination_versions db) \<subseteq> set (destination_versions db') \<and>
     queryDestinationVersion db' (dv_DestinationID (bc_Destination config)) (dv_Version (bc_Destination config)) =
       Some (bc_Destination config) \<and>
     (\<forall>E'. fault_free E' \<longrightarrow> Bootstrap E' sha256 db' config = (Inr (), db'))"
proof -
  have tx: "bootstrap_tx E sha256 db config = (Inr (), db')"
    and guards: "\<And>E'. fault_free E' \<Longrightarrow> Bootstrap E' sha256 db' config = bootstrap_tx E' sha256 db' config"
    using assms(2) by (auto simp: Bootstrap_def Let_def split: if_splits)
  have "good_step db db'" using bootstrap_tx_good [OF assms(1), of E sha256 config] tx by simp
  then have "set (destination_versions db) \<subseteq> set (destination_versions db')"
    by (simp add: good_step_def db_evolves_def)
  moreover have "queryDestinationVersion db' (dv_DestinationID (bc_Destination config)) (dv_Version (bc_Destination config)) =
       Some (bc_Destination config)"
    using tx by (elim bootstrap_tx_Inr) (simp add: queryDestinationVersion_def insert_grant_def)
  moreover have "config_ok db" using assms(1) by (simp add: db_inv_def schema_ok_def)
  ultimately show ?thesis using guards bootstrap_tx_again [OF tx] by simp
qed

theorem bootstrap_idempotent_and_immutable_witness:
  "\<exists>db'. Bootstrap (quiet_env 5) (\<lambda>x. x) demo_db \<lparr>bc_CallerID = ''n'', bc_CallerAPIKey = ''key'',
        bc_Destination = destination_of_row (demo_version\<lparr>v_version := 2\<rparr>)\<rparr> = (Inr (), db') \<and>
     demo_version \<in> set (destination_versions db')"
proof -
  let ?B = "Bootstrap (quiet_env 5) (\<lambda>x. x) demo_db \<lparr>bc_CallerID = ''n'', bc_CallerAPIKey = ''key'',
        bc_Destination = destination_of_row (demo_version\<lparr>v_version := 2\<rparr>)\<rparr>"
  have "fst ?B = Inr ()" by code_simp
  then have B: "?B = (Inr (), snd ?B)" by (simp only: prod_eq_iff fst_conv snd_conv)
  have "demo_version \<in> set (destination_versions demo_db)" by (simp add: demo_db_def)
  with bootstrap_idempotent_and_immutable [OF demo_db_inv B] B show ?thesis by blast
qed

end
