(* ===== verification/Worker_Store.thy ===== *)
theory Worker_Store
  imports Store
begin

text \<open>
  The store operations of the delivery Worker (\<open>internal/delivery/worker_store.go\<close>): the
  eligibility check, the observation of a signal, the fenced claim, and the three result
  transitions, which all run \<open>completeResult\<close>. A delivery identifier that arrives in a signal
  goes through the server's \<open>uuid\<close> conversion; the one in an attempt result was returned by a
  claim and is canonical. Header JSON decodes to the map that was encoded.
\<close>

section \<open>Operations\<close>

record AttemptResult =
  ar_DeliveryID :: string
  ar_Generation :: int
  ar_LeaseOwner :: string
  ar_LeaseToken :: string
  ar_ResponseStatus :: "int option"
  ar_ErrorCategory :: string
  ar_StartedAt :: instant
  ar_FinishedAt :: instant

text \<open>The WHERE clause shared by the eligibility check, the observation and the claim.\<close>

definition worker_eligible :: "instant \<Rightarrow> string \<Rightarrow> int \<Rightarrow> delivery_row \<Rightarrow> bool" where
  "worker_eligible now deliveryID generation r \<longleftrightarrow>
     d_id r = deliveryID \<and> d_generation r = generation \<and> d_status r = StatusPending \<and>
     d_next_attempt_at r \<le> now \<and> d_retry_deadline r > now"

definition EligibleDestination :: "env \<Rightarrow> db \<Rightarrow> string \<Rightarrow> int \<Rightarrow> store_error + DestinationVersion" where
  "EligibleDestination E db deliveryID generation =
     (case uuid_in E deliveryID of
        None \<Rightarrow> Inl (ErrDb ''check delivery eligibility'')
      | Some i \<Rightarrow>
          if stmt_fails E ''check delivery eligibility'' then Inl (ErrDb ''check delivery eligibility'')
          else case find (worker_eligible (clock_timestamp E) i generation) (deliveries db) of
            None \<Rightarrow> Inl ErrDeliveryNotClaimable
          | Some r \<Rightarrow>
              if stmt_fails E ''load immutable destination version''
              then Inl (ErrDb ''load immutable destination version'')
              else case queryDestinationVersion db (d_destination_id r) (d_destination_version r) of
                None \<Rightarrow> Inl (ErrDb ''load immutable destination version'')
              | Some destination \<Rightarrow> Inr destination)"

definition ObserveSignal :: "env \<Rightarrow> db \<Rightarrow> string \<Rightarrow> int \<Rightarrow> (store_error + unit) \<times> db" where
  "ObserveSignal E db deliveryID generation =
     (case uuid_in E deliveryID of
        None \<Rightarrow> (Inl (ErrDb ''record dispatch signal observation''), db)
      | Some i \<Rightarrow>
          commit E ''record dispatch signal observation'' db
            (db\<lparr>outbox_events := update_where
               (\<lambda>e. o_delivery_id e = i \<and> o_generation e = generation \<and>
                  list_ex (worker_eligible (clock_timestamp E) i generation) (deliveries db))
               (\<lambda>e. e\<lparr>o_observed_at := Some (clock_timestamp E)\<rparr>) (outbox_events db)\<rparr>) ())"

text \<open>\<open>interval\<close> prints the duration in seconds with six decimals: whole microseconds.\<close>

definition interval :: "duration \<Rightarrow> duration" where
  "interval d = ((d + 500) div 1000) * 1000"

definition claim_row :: "instant \<Rightarrow> string \<Rightarrow> string \<Rightarrow> duration \<Rightarrow> delivery_row \<Rightarrow> delivery_row" where
  "claim_row now owner leaseToken leaseDuration r =
     r\<lparr>d_status := StatusDelivering, d_lease_owner := Some owner, d_lease_token := Some leaseToken,
       d_lease_until := Some (now + interval leaseDuration), d_updated_at := now\<rparr>"

definition claimed_of_row :: "delivery_row \<Rightarrow> Delivery" where
  "claimed_of_row r =
     (delivery_of_row r)\<lparr>dl_LeaseOwner := d_lease_owner r, dl_LeaseToken := d_lease_token r,
        dl_LeaseUntil := d_lease_until r\<rparr>"

definition ClaimDelivery ::
  "env \<Rightarrow> db \<Rightarrow> string \<Rightarrow> int \<Rightarrow> string \<Rightarrow> duration \<Rightarrow> (store_error + Delivery \<times> DestinationVersion) \<times> db" where
  "ClaimDelivery E db deliveryID generation owner leaseDuration =
     (if owner = [] \<or> leaseDuration \<le> 0
      then (Inl (ErrConfig ''Worker claim requires owner and positive lease''), db)
      else case newUUID (rand_read E 0) of Inl e \<Rightarrow> (Inl e, db) | Inr leaseToken \<Rightarrow>
        if stmt_fails E ''begin Worker claim'' then (Inl (ErrDb ''begin Worker claim''), db)
        else case uuid_in E deliveryID of
          None \<Rightarrow> (Inl (ErrDb ''claim delivery''), db)
        | Some i \<Rightarrow>
            if stmt_fails E ''claim delivery'' then (Inl (ErrDb ''claim delivery''), db)
            else let eligible = worker_eligible (clock_timestamp E) i generation;
                     claim = claim_row (clock_timestamp E) owner leaseToken leaseDuration;
                     db1 = db\<lparr>deliveries := update_where eligible claim (deliveries db)\<rparr>
            in case find eligible (deliveries db) of
              None \<Rightarrow> (Inl ErrDeliveryNotClaimable, db)
            | Some r \<Rightarrow>
                if stmt_fails E ''load immutable destination version''
                then (Inl (ErrDb ''load immutable destination version''), db)
                else case queryDestinationVersion db1 (d_destination_id r) (d_destination_version r) of
                  None \<Rightarrow> (Inl (ErrDb ''load immutable destination version''), db)
                | Some destination \<Rightarrow>
                    commit E ''commit Worker claim'' db db1 (claimed_of_row (claim r), destination))"

definition class_name :: "result_class \<Rightarrow> string" where
  "class_name c = (case c of RcSucceeded \<Rightarrow> ''succeeded'' | RcRetryableFailure \<Rightarrow> ''retryable_failure''
     | RcPermanentFailure \<Rightarrow> ''permanent_failure'')"

text \<open>The WHERE clause of the result update; a NULL \<open>$6\<close> compares to nothing.\<close>

definition fenced :: "instant \<Rightarrow> AttemptResult \<Rightarrow> result_class \<Rightarrow> instant option \<Rightarrow> delivery_row \<Rightarrow> bool" where
  "fenced now result resultClass nextAttemptAt r \<longleftrightarrow>
     d_id r = ar_DeliveryID result \<and> d_generation r = ar_Generation result \<and>
     d_status r = StatusDelivering \<and> d_lease_owner r = Some (ar_LeaseOwner result) \<and>
     d_lease_token r = Some (ar_LeaseToken result) \<and>
     (case d_lease_until r of None \<Rightarrow> False | Some u \<Rightarrow> u > now) \<and>
     (resultClass \<noteq> RcRetryableFailure \<or>
      (case nextAttemptAt of None \<Rightarrow> False | Some t \<Rightarrow> timestamptz t < d_retry_deadline r))"

definition complete_row :: "instant \<Rightarrow> result_class \<Rightarrow> instant option \<Rightarrow> delivery_row \<Rightarrow> delivery_row" where
  "complete_row now resultClass nextAttemptAt r =
     r\<lparr>d_status := (case resultClass of RcRetryableFailure \<Rightarrow> StatusPending
          | RcPermanentFailure \<Rightarrow> StatusFailedPermanent | RcSucceeded \<Rightarrow> StatusSucceeded),
       d_generation := (if resultClass = RcRetryableFailure then d_generation r + 1 else d_generation r),
       d_next_attempt_at := (if resultClass = RcRetryableFailure
          then (case nextAttemptAt of Some t \<Rightarrow> timestamptz t | None \<Rightarrow> d_next_attempt_at r) else d_next_attempt_at r),
       d_lease_owner := None, d_lease_token := None, d_lease_until := None, d_updated_at := now\<rparr>"

definition attempt_of_result :: "string \<Rightarrow> AttemptResult \<Rightarrow> result_class \<Rightarrow> attempt_row" where
  "attempt_of_result attemptID result resultClass =
     \<lparr>a_id = attemptID, a_delivery_id = ar_DeliveryID result, a_generation = ar_Generation result,
      a_lease_token = ar_LeaseToken result, a_result_class = resultClass,
      a_response_status = ar_ResponseStatus result,
      a_error_category = (if ar_ErrorCategory result = [] then None else Some (ar_ErrorCategory result)),
      a_started_at = timestamptz (ar_StartedAt result), a_finished_at = timestamptz (ar_FinishedAt result)\<rparr>"

definition completeResult ::
  "env \<Rightarrow> db \<Rightarrow> AttemptResult \<Rightarrow> result_class \<Rightarrow> instant option \<Rightarrow> (store_error + unit) \<times> db" where
  "completeResult E db result resultClass nextAttemptAt =
     (case newUUID (rand_read E 0) of Inl e \<Rightarrow> (Inl e, db) | Inr attemptID \<Rightarrow>
      if stmt_fails E ''begin success result'' then (Inl (ErrDb ''begin success result''), db)
      else let updateMsg = ''commit fenced '' @ class_name resultClass @ '' state'';
               recordMsg = ''record '' @ class_name resultClass @ '' attempt'';
               p = fenced (clock_timestamp E) result resultClass nextAttemptAt;
               db1 = db\<lparr>deliveries := update_where p (complete_row (clock_timestamp E) resultClass nextAttemptAt) (deliveries db)\<rparr>
           in if stmt_fails E updateMsg then (Inl (ErrDb updateMsg), db)
              else if count_where p (deliveries db) \<noteq> 1 then (Inl ErrWorkerLeaseLost, db)
              else if stmt_fails E recordMsg then (Inl (ErrDb recordMsg), db)
              else case insert_attempt db1 (attempt_of_result attemptID result resultClass) of
                None \<Rightarrow> (Inl (ErrDb recordMsg), db)
              | Some db2 \<Rightarrow> commit E (''commit '' @ class_name resultClass @ '' result'') db db2 ())"

definition CompleteSuccess :: "env \<Rightarrow> db \<Rightarrow> AttemptResult \<Rightarrow> (store_error + unit) \<times> db" where
  "CompleteSuccess E db result = completeResult E db result RcSucceeded None"

definition CompleteRetry :: "env \<Rightarrow> db \<Rightarrow> AttemptResult \<Rightarrow> instant \<Rightarrow> (store_error + unit) \<times> db" where
  "CompleteRetry E db result nextAttemptAt = completeResult E db result RcRetryableFailure (Some nextAttemptAt)"

definition CompletePermanent :: "env \<Rightarrow> db \<Rightarrow> AttemptResult \<Rightarrow> (store_error + unit) \<times> db" where
  "CompletePermanent E db result = completeResult E db result RcPermanentFailure None"

section \<open>Claims and observations keep the invariant\<close>

lemma ObserveSignal_good: "db_inv db \<Longrightarrow> good_step db (snd (ObserveSignal E db i g))"
  by (auto simp: ObserveSignal_def good_step_refl legal_event_update_def outbox_check_def split: option.split
      intro!: good_step_commit good_step_update_events)

lemma claim_row_legal:
  "db_inv db \<Longrightarrow> legal_update (worker_eligible now i g) (claim_row now owner token lease) db"
  by (erule legal_updateI) (simp add: worker_eligible_def claim_row_def row_step_defs)

lemma ClaimDelivery_good: "db_inv db \<Longrightarrow> good_step db (snd (ClaimDelivery E db i g owner lease))"
  unfolding ClaimDelivery_def Let_def
  by (auto simp: good_step_refl claim_row_def [of _ _ _ _ _] split: sum.split option.split
      intro!: good_step_commit good_step_update_deliveries claim_row_legal)

section \<open>Results keep the invariant\<close>

lemma complete_row_legal:
  "db_inv db \<Longrightarrow> legal_update (fenced now result cls next) (complete_row now cls next) db"
  by (erule legal_updateI) (cases cls; simp add: fenced_def complete_row_def row_step_defs)

lemma complete_row_bound:
  "if active_status (d_status (complete_row now cls next r)) then d_generation r < d_generation (complete_row now cls next r)
   else d_generation r \<le> d_generation (complete_row now cls next r)"
  by (cases cls) (simp_all add: complete_row_def)

lemma d_id_complete_row [simp]: "d_id (complete_row now cls next r) = d_id r"
  by (simp add: complete_row_def)

text \<open>A leased delivery has no attempt of its generation yet.\<close>

lemma delivering_unattempted:
  assumes "db_inv db" "r \<in> set (deliveries db)" "d_status r = StatusDelivering" "a \<in> set (delivery_attempts db)"
    "a_delivery_id a = d_id r"
  shows "a_generation a < d_generation r"
  using assms by (auto simp: db_inv_def protocol_ok_def attempts_behind_def)

lemma attempt_of_result_simps [simp]:
  "a_id (attempt_of_result i result cls) = i" "a_delivery_id (attempt_of_result i result cls) = ar_DeliveryID result"
  "a_generation (attempt_of_result i result cls) = ar_Generation result"
  "a_result_class (attempt_of_result i result cls) = cls"
  by (simp_all add: attempt_of_result_def)

lemma good_step_complete:
  assumes inv: "db_inv db" and r: "r \<in> set (deliveries db)" "fenced now result cls next r"
    and ins: "insert_attempt (db\<lparr>deliveries := update_where (fenced now result cls next) (complete_row now cls next) (deliveries db)\<rparr>)
      (attempt_of_result i result cls) = Some db2"
  shows "good_step db db2"
proof -
  let ?p = "fenced now result cls next" and ?f = "complete_row now cls next"
  let ?db1 = "db\<lparr>deliveries := update_where ?p ?f (deliveries db)\<rparr>"
  note legal = complete_row_legal [OF inv, of now result cls "next"]
  note db2 = insert_attempt_Some [OF ins]
  have schema: "schema_ok ?db1" "protocol_ok ?db1"
    using inv legal by (auto simp: db_inv_def schema_ok_update_deliveries protocol_ok_update_deliveries)
  have "protocol_ok db2"
  proof (rule protocol_ok_insert_attempt [OF schema(2) ins])
    fix x assume x: "x \<in> set (deliveries ?db1)" "d_id x = a_delivery_id (attempt_of_result i result cls)"
    have "x = ?f r"
      by (rule updated_row_unique [where p = ?p and f = ?f, OF inv r]) (use x r(2) in \<open>simp_all add: fenced_def\<close>)
    with complete_row_bound [of now cls "next" r] r(2)
    show "if active_status (d_status x) then a_generation (attempt_of_result i result cls) < d_generation x
        else a_generation (attempt_of_result i result cls) \<le> d_generation x"
      by (simp add: fenced_def split: if_splits)
  next
    have "a_delivery_id a = d_id r \<Longrightarrow> a_generation a < d_generation r" if "a \<in> set (delivery_attempts db)" for a
      using delivering_unattempted [OF inv r(1) _ that] r(2) by (simp add: fenced_def)
    then show "(a_delivery_id (attempt_of_result i result cls), a_generation (attempt_of_result i result cls))
        \<notin> (\<lambda>a. (a_delivery_id a, a_generation a)) ` set (delivery_attempts ?db1)"
      using r(2) by (force simp: fenced_def)
  qed
  moreover have "success_recorded db" using inv by (simp add: db_inv_def)
  then have "success_recorded db2"
    by (auto simp: success_recorded_def db2 set_update_where fenced_def complete_row_def split: result_class.splits)
  moreover have "db_evolves db db2" by (rule db_evolves_update [OF legal]) (auto simp: db2)
  ultimately show ?thesis
    using schema_ok_insert_attempt [OF schema(1) ins] by (simp add: good_step_def db_inv_def)
qed

lemma completeResult_good: "db_inv db \<Longrightarrow> good_step db (snd (completeResult E db result cls next))"
proof -
  assume inv: "db_inv db"
  have step: "good_step db db2"
    if "count_where (fenced (clock_timestamp E) result cls next) (deliveries db) = Suc 0"
      "insert_attempt (db\<lparr>deliveries := update_where (fenced (clock_timestamp E) result cls next)
         (complete_row (clock_timestamp E) cls next) (deliveries db)\<rparr>) (attempt_of_result i result cls) = Some db2" for i db2
  proof -
    from that(1) have "0 < count_where (fenced (clock_timestamp E) result cls next) (deliveries db)" by simp
    then obtain r where "r \<in> set (deliveries db)" "fenced (clock_timestamp E) result cls next r"
      unfolding count_where_pos by blast
    from good_step_complete [OF inv this that(2)] show ?thesis .
  qed
  show ?thesis unfolding completeResult_def Let_def
    by (auto simp: inv good_step_refl split: sum.split option.split intro!: good_step_commit intro: step)
qed

interpretation observe: store_operation "\<lambda>E (i, g) db. ObserveSignal E db i g"
  by unfold_locales (auto simp: ObserveSignal_good)

interpretation claim: store_operation "\<lambda>E (i, g, owner, lease) db. ClaimDelivery E db i g owner lease"
  by unfold_locales (auto simp: ClaimDelivery_good)

interpretation complete: store_operation "\<lambda>E (result, cls, next) db. completeResult E db result cls next"
  by unfold_locales (auto simp: completeResult_good)

section \<open>Claims are exclusive\<close>

lemma ClaimDelivery_Inr:
  assumes "ClaimDelivery E db i g owner lease = (Inr (d, v), db')"
  obtains r token j where "uuid_in E i = Some j" "find (worker_eligible (clock_timestamp E) j g) (deliveries db) = Some r"
    "d = claimed_of_row (claim_row (clock_timestamp E) owner token lease r)"
    "queryDestinationVersion db (d_destination_id r) (d_destination_version r) = Some v"
    "db' = db\<lparr>deliveries := update_where (worker_eligible (clock_timestamp E) j g)
       (claim_row (clock_timestamp E) owner token lease) (deliveries db)\<rparr>"
  using assms unfolding ClaimDelivery_def Let_def guard_Inr
  by (elim conjE exE) (auto simp: commit_def queryDestinationVersion_def split: if_splits intro: that)

lemma claimed_of_row_simps [simp]:
  "dl_ID (claimed_of_row r) = d_id r" "dl_Generation (claimed_of_row r) = d_generation r"
  "dl_LeaseOwner (claimed_of_row r) = d_lease_owner r" "dl_LeaseToken (claimed_of_row r) = d_lease_token r"
  "dl_LeaseUntil (claimed_of_row r) = d_lease_until r" "dl_Status (claimed_of_row r) = d_status r"
  "dl_RetryDeadline (claimed_of_row r) = d_retry_deadline r" "dl_DestinationID (claimed_of_row r) = d_destination_id r"
  "dl_DestinationVersion (claimed_of_row r) = d_destination_version r"
  by (simp_all add: claimed_of_row_def delivery_of_row_def)

lemma claim_row_simps [simp]:
  "d_id (claim_row now owner token lease r) = d_id r" "d_generation (claim_row now owner token lease r) = d_generation r"
  "d_status (claim_row now owner token lease r) = StatusDelivering"
  "d_lease_owner (claim_row now owner token lease r) = Some owner"
  "d_lease_token (claim_row now owner token lease r) = Some token"
  "d_lease_until (claim_row now owner token lease r) = Some (now + interval lease)"
  "d_retry_deadline (claim_row now owner token lease r) = d_retry_deadline r"
  "d_destination_id (claim_row now owner token lease r) = d_destination_id r"
  "d_destination_version (claim_row now owner token lease r) = d_destination_version r"
  by (simp_all add: claim_row_def)

text \<open>What a successful claim leaves in the table.\<close>

lemma claimed_row_present:
  assumes "db_inv db" "ClaimDelivery E db i g owner lease = (Inr (d, v), db')"
  obtains r token where "r \<in> set (deliveries db)" "worker_eligible (clock_timestamp E) (d_id r) g r"
    "uuid_in E i = Some (d_id r)"
    "d = claimed_of_row (claim_row (clock_timestamp E) owner token lease r)"
    "claim_row (clock_timestamp E) owner token lease r \<in> set (deliveries db')"
    "queryDestinationVersion db (d_destination_id r) (d_destination_version r) = Some v"
    "db_inv db'"
proof -
  from assms(2) obtain r token j where c: "uuid_in E i = Some j"
    "find (worker_eligible (clock_timestamp E) j g) (deliveries db) = Some r"
    "d = claimed_of_row (claim_row (clock_timestamp E) owner token lease r)"
    "queryDestinationVersion db (d_destination_id r) (d_destination_version r) = Some v"
    "db' = db\<lparr>deliveries := update_where (worker_eligible (clock_timestamp E) j g)
       (claim_row (clock_timestamp E) owner token lease) (deliveries db)\<rparr>"
    by (rule ClaimDelivery_Inr)
  from find_SomeD [OF c(2)] have r: "r \<in> set (deliveries db)" "worker_eligible (clock_timestamp E) j g r" by auto
  from r(2) have "j = d_id r" by (simp add: worker_eligible_def)
  moreover have "claim_row (clock_timestamp E) owner token lease r \<in> set (deliveries db')"
    using r by (auto simp: c(5) set_update_where)
  moreover have "db_inv db'"
    using claim.call_inv [OF assms(1), of E "(i, g, owner, lease)"] assms(2) by simp
  ultimately show thesis using that c r by blast
qed

text \<open>C10. A claim succeeds only on the pending delivery of exactly the signalled generation, due and
  before its retry deadline, with the destination version it was accepted with; and once it has
  succeeded no other claim of that delivery does, by any Worker, at any clock, for any generation.\<close>

theorem claim_is_exclusive:
  assumes "db_inv db" "ClaimDelivery E db i g owner lease = (Inr (d, v), db')"
  shows "(\<exists>r\<in>set (deliveries db). d_id r = dl_ID d \<and> d_generation r = g \<and> d_status r = StatusPending \<and>
       d_next_attempt_at r \<le> clock_timestamp E \<and> clock_timestamp E < d_retry_deadline r \<and>
       dv_DestinationID v = d_destination_id r \<and> dv_Version v = d_destination_version r) \<and>
     (\<forall>E' g' owner' lease' x. uuid_in E' i = uuid_in E i \<longrightarrow>
        fst (ClaimDelivery E' db' i g' owner' lease') \<noteq> Inr x)"
proof -
  from assms obtain r token where c: "r \<in> set (deliveries db)" "worker_eligible (clock_timestamp E) (d_id r) g r"
    "uuid_in E i = Some (d_id r)" "d = claimed_of_row (claim_row (clock_timestamp E) owner token lease r)"
    "claim_row (clock_timestamp E) owner token lease r \<in> set (deliveries db')"
    "queryDestinationVersion db (d_destination_id r) (d_destination_version r) = Some v" "db_inv db'"
    by (rule claimed_row_present)
  from c(6) have v: "dv_DestinationID v = d_destination_id r" "dv_Version v = d_destination_version r"
    by (auto simp: queryDestinationVersion_def destination_of_row_def dest!: find_SomeD)
  have "fst (ClaimDelivery E' db' i g' owner' lease') \<noteq> Inr x" if "uuid_in E' i = uuid_in E i" for E' g' owner' lease' x
  proof
    assume "fst (ClaimDelivery E' db' i g' owner' lease') = Inr x"
    then have "ClaimDelivery E' db' i g' owner' lease' =
        (Inr (fst x, snd x), snd (ClaimDelivery E' db' i g' owner' lease'))" by (metis prod.collapse)
    with c(7) obtain r' where r': "r' \<in> set (deliveries db')" "worker_eligible (clock_timestamp E') (d_id r') g' r'"
      "uuid_in E' i = Some (d_id r')" by (rule claimed_row_present)
    with that c(3) have "d_id r' = d_id r" by simp
    then have "r' = claim_row (clock_timestamp E) owner token lease r"
      using delivery_row_unique [OF c(7) r'(1) c(5)] by simp
    with r'(2) show False by (simp add: worker_eligible_def)
  qed
  with c v show ?thesis by (auto simp: worker_eligible_def)
qed

theorem claim_is_exclusive_witness:
  "fst (ClaimDelivery (quiet_env 20) (snd (ClaimDelivery (quiet_env 10) demo_db ''p'' 0 ''w'' Second)) ''p'' 0 ''x'' Second)
     \<noteq> Inr (claimed_of_row (demo_delivery ''p'' ''kp'' StatusPending 0), destination_of_row demo_version)"
proof -
  have run: "ClaimDelivery (quiet_env 10) demo_db ''p'' 0 ''w'' Second =
    (Inr (claimed_of_row (claim_row 10 ''w'' ''00000000-0000-4000-8000-000000000000'' Second
        (demo_delivery ''p'' ''kp'' StatusPending 0)), destination_of_row demo_version),
     snd (ClaimDelivery (quiet_env 10) demo_db ''p'' 0 ''w'' Second))" by code_simp
  have "uuid_in (quiet_env 20) ''p'' = uuid_in (quiet_env 10) ''p''" by (simp add: quiet_env_def)
  then show ?thesis using claim_is_exclusive [OF demo_db_inv run] by blast
qed

section \<open>Results are atomic and fenced\<close>

lemma completeResult_Inr:
  assumes "completeResult E db result cls next = (Inr (), db')"
  obtains r attemptID where "r \<in> set (deliveries db)" "fenced (clock_timestamp E) result cls next r"
    "db' = db\<lparr>deliveries := update_where (fenced (clock_timestamp E) result cls next)
         (complete_row (clock_timestamp E) cls next) (deliveries db),
       delivery_attempts := delivery_attempts db @ [attempt_of_result attemptID result cls]\<rparr>"
    "timestamptz (ar_StartedAt result) \<le> timestamptz (ar_FinishedAt result)"
proof -
  from assms obtain attemptID db2 where
    one: "count_where (fenced (clock_timestamp E) result cls next) (deliveries db) = 1"
    and ins: "insert_attempt (db\<lparr>deliveries := update_where (fenced (clock_timestamp E) result cls next)
         (complete_row (clock_timestamp E) cls next) (deliveries db)\<rparr>) (attempt_of_result attemptID result cls) = Some db2"
    and "commit E (''commit '' @ class_name cls @ '' result'') db db2 () = (Inr (), db')"
    unfolding completeResult_def Let_def guard_Inr by blast
  then have "db' = db2" by (auto simp: commit_def split: if_splits)
  moreover from one have "0 < count_where (fenced (clock_timestamp E) result cls next) (deliveries db)" by simp
  then obtain r where "r \<in> set (deliveries db)" "fenced (clock_timestamp E) result cls next r"
    unfolding count_where_pos by blast
  moreover from ins have "attempt_check (attempt_of_result attemptID result cls)"
    by (simp add: insert_attempt_def split: if_splits)
  ultimately show thesis
    using insert_attempt_Some [OF ins] by (intro that) (auto simp: attempt_check_def attempt_of_result_def)
qed

text \<open>C12. A recorded result changes exactly one delivery, the one whose lease the Worker still held,
  to the state its class demands (a retry advances the generation and leaves it pending for the
  given time, before the retry deadline), and appends exactly one attempt of the old generation, with
  the times it took in whole microseconds; nothing else of the database changes. In particular no
  result is recorded whose finishing time is before its starting time by the Worker's clock.\<close>

theorem result_recorded_exactly:
  assumes "db_inv db" "completeResult E db result cls next = (Inr (), db')"
  shows "\<exists>r\<in>set (deliveries db). \<exists>a. d_id r = ar_DeliveryID result \<and> d_generation r = ar_Generation result \<and>
     d_status r = StatusDelivering \<and> d_lease_token r = Some (ar_LeaseToken result) \<and>
     set (deliveries db') = insert (complete_row (clock_timestamp E) cls next r) (set (deliveries db) - {r}) \<and>
     db' = db\<lparr>deliveries := deliveries db', delivery_attempts := delivery_attempts db @ [a]\<rparr> \<and>
     a_delivery_id a = d_id r \<and> a_generation a = d_generation r \<and> a_result_class a = cls \<and>
     a_started_at a = timestamptz (ar_StartedAt result) \<and> a_finished_at a = timestamptz (ar_FinishedAt result) \<and>
     a_started_at a \<le> a_finished_at a \<and>
     (case cls of RcSucceeded \<Rightarrow> d_status (complete_row (clock_timestamp E) cls next r) = StatusSucceeded
      | RcPermanentFailure \<Rightarrow> d_status (complete_row (clock_timestamp E) cls next r) = StatusFailedPermanent
      | RcRetryableFailure \<Rightarrow> d_status (complete_row (clock_timestamp E) cls next r) = StatusPending \<and>
          d_generation (complete_row (clock_timestamp E) cls next r) = d_generation r + 1 \<and>
          map_option timestamptz next = Some (d_next_attempt_at (complete_row (clock_timestamp E) cls next r)) \<and>
          d_next_attempt_at (complete_row (clock_timestamp E) cls next r) < d_retry_deadline r)"
proof -
  let ?p = "fenced (clock_timestamp E) result cls next" and ?f = "complete_row (clock_timestamp E) cls next"
  from assms(2) obtain r attemptID where r: "r \<in> set (deliveries db)" "?p r"
    and db': "db' = db\<lparr>deliveries := update_where ?p ?f (deliveries db),
       delivery_attempts := delivery_attempts db @ [attempt_of_result attemptID result cls]\<rparr>"
    and times: "timestamptz (ar_StartedAt result) \<le> timestamptz (ar_FinishedAt result)"
    by (rule completeResult_Inr)
  have only: "?p x \<longleftrightarrow> x = r" if "x \<in> set (deliveries db)" for x
    using delivery_row_unique [OF assms(1) that r(1)] r(2) by (auto simp: fenced_def)
  have rows: "set (deliveries db') = insert (?f r) (set (deliveries db) - {r})"
    unfolding db' using r(1) only by (auto simp: set_update_where)
  show ?thesis
  proof (intro bexI exI conjI)
    show "r \<in> set (deliveries db)" "set (deliveries db') = insert (?f r) (set (deliveries db) - {r})"
      using r(1) rows by simp_all
    show "db' = db\<lparr>deliveries := deliveries db',
        delivery_attempts := delivery_attempts db @ [attempt_of_result attemptID result cls]\<rparr>" by (simp add: db')
  qed (use r(2) times in \<open>auto simp: fenced_def complete_row_def attempt_of_result_def split: result_class.split option.splits\<close>)
qed

definition demo_result :: AttemptResult where
  "demo_result = \<lparr>ar_DeliveryID = ''d'', ar_Generation = 0, ar_LeaseOwner = ''w'', ar_LeaseToken = ''t'',
     ar_ResponseStatus = Some 503, ar_ErrorCategory = ''http_503'', ar_StartedAt = 10, ar_FinishedAt = 20\<rparr>"

lemma demo_complete_retry: "completeResult (quiet_env 20) demo_db demo_result RcRetryableFailure (Some 99) =
    (Inr (), snd (completeResult (quiet_env 20) demo_db demo_result RcRetryableFailure (Some 99)))"
  by code_simp

theorem result_recorded_exactly_witness:
  "\<exists>r\<in>set (deliveries demo_db). d_id r = ''d'' \<and>
     set (deliveries (snd (completeResult (quiet_env 20) demo_db demo_result RcRetryableFailure (Some 99)))) =
       insert (complete_row 20 RcRetryableFailure (Some 99) r) (set (deliveries demo_db) - {r})"
  using result_recorded_exactly [OF demo_db_inv demo_complete_retry]
  by (simp add: quiet_env_def demo_result_def) blast

lemma completeResult_Inl_effect:
  assumes "completeResult E db result cls next = (Inl x, db')" "db' \<noteq> db"
  shows "x = ErrDb (''commit '' @ class_name cls @ '' result'') \<and>
    (\<exists>r\<in>set (deliveries db). fenced (clock_timestamp E) result cls next r) \<and>
    (\<exists>E'. completeResult E' db result cls next = (Inr (), db'))"
proof -
  let ?p = "fenced (clock_timestamp E) result cls next"
  let ?db1 = "db\<lparr>deliveries := update_where ?p (complete_row (clock_timestamp E) cls next) (deliveries db)\<rparr>"
  from assms obtain attemptID db2 where
    u: "newUUID (rand_read E 0) = Inr attemptID" and one: "count_where ?p (deliveries db) = 1"
    and ins: "insert_attempt ?db1 (attempt_of_result attemptID result cls) = Some db2"
    and c: "commit E (''commit '' @ class_name cls @ '' result'') db db2 () = (Inl x, db')"
    unfolding completeResult_def Let_def by (auto split: sum.splits option.splits if_splits)
  from c assms(2) have x: "x = ErrDb (''commit '' @ class_name cls @ '' result'')" "db' = db2"
    by (auto simp: commit_def split: if_splits)
  let ?E = "E\<lparr>stmt_fails := \<lambda>_. False\<rparr>"
  have "completeResult ?E db result cls next = (Inr (), db')"
    using u one ins by (simp add: completeResult_def Let_def commit_def x(2))
  moreover have "\<exists>r\<in>set (deliveries db). ?p r" using one by (metis count_where_pos less_one)
  ultimately show ?thesis using x(1) by blast
qed

text \<open>A result that is reported as an error is all or nothing: either the database is as before or,
  when the failure was in the commit, the complete result is there. A lost lease changes nothing.\<close>

theorem failed_result_is_atomic:
  assumes "completeResult E db result cls next = (Inl x, db')"
  shows "db' = db \<or> (x = ErrDb (''commit '' @ class_name cls @ '' result'') \<and>
     (\<exists>r\<in>set (deliveries db). fenced (clock_timestamp E) result cls next r) \<and>
     (\<exists>E'. completeResult E' db result cls next = (Inr (), db')))"
  using completeResult_Inl_effect [OF assms] by blast

theorem failed_result_is_atomic_witness:
  "snd (completeResult (quiet_env 95) demo_db demo_result RcSucceeded None) = demo_db"
proof -
  have "completeResult (quiet_env 95) demo_db demo_result RcSucceeded None =
    (Inl ErrWorkerLeaseLost, snd (completeResult (quiet_env 95) demo_db demo_result RcSucceeded None))" by code_simp
  from failed_result_is_atomic [OF this] show ?thesis by simp
qed

lemma completeResult_fault_free:
  assumes "db_inv db" "fault_free E" and i: "newUUID (rand_read E 0) = Inr i"
    and "i \<notin> a_id ` set (delivery_attempts db)"
    "ar_StartedAt result \<le> ar_FinishedAt result" "r \<in> set (deliveries db)" "fenced (clock_timestamp E) result cls next r"
  shows "\<exists>db'. completeResult E db result cls next = (Inr (), db')"
proof -
  let ?p = "fenced (clock_timestamp E) result cls next"
  let ?db1 = "db\<lparr>deliveries := update_where ?p (complete_row (clock_timestamp E) cls next) (deliveries db)\<rparr>"
  have "count_where ?p (deliveries db) = (if \<exists>r\<in>set (deliveries db). ?p r then 1 else 0)"
    by (rule count_where_distinct [where key = d_id and k = "ar_DeliveryID result"])
      (use assms(1) in \<open>auto simp: db_inv_def schema_ok_def deliveries_ok_def fenced_def\<close>)
  with assms(6,7) have one: "count_where ?p (deliveries db) = 1" by auto
  have "has_delivery ?db1 (ar_DeliveryID result)"
    unfolding has_delivery_legal_update [OF complete_row_legal [OF assms(1)]]
    using assms(6,7) unfolding has_delivery_def fenced_def by (metis imageI)
  moreover have "0 \<le> ar_Generation result"
    using delivery_checkD [OF assms(1,6)] assms(7) by (simp add: delivery_check_def fenced_def)
  ultimately have "\<exists>db2. insert_attempt ?db1 (attempt_of_result i result cls) = Some db2"
    using assms(4,5) by (simp add: insert_attempt_def attempt_check_def attempt_of_result_def timestamptz_mono)
  then show ?thesis using i one assms(2) by (auto simp: completeResult_def Let_def)
qed

lemma completeResult_lost:
  assumes "fault_free E" "newUUID (rand_read E 0) = Inr i" "\<And>r. r \<in> set (deliveries db) \<Longrightarrow> \<not> fenced (clock_timestamp E) result cls next r"
  shows "completeResult E db result cls next = (Inl ErrWorkerLeaseLost, db)"
proof -
  have "count_where (fenced (clock_timestamp E) result cls next) (deliveries db) = 0"
    using assms(3) by (auto simp: count_where_0)
  then show ?thesis using assms(1,2) by (simp add: completeResult_def Let_def)
qed

text \<open>The result a Worker builds from a claimed delivery carries the claim's fencing fields.\<close>

definition result_for :: "Delivery \<Rightarrow> AttemptResult \<Rightarrow> bool" where
  "result_for d result \<longleftrightarrow> ar_DeliveryID result = dl_ID d \<and> ar_Generation result = dl_Generation d \<and>
     Some (ar_LeaseOwner result) = dl_LeaseOwner d \<and> Some (ar_LeaseToken result) = dl_LeaseToken d"

text \<open>The claim's row is still as the claim left it; nobody else writes the claim's random token.\<close>

definition still_claimed :: "Delivery \<Rightarrow> db \<Rightarrow> bool" where
  "still_claimed d db \<longleftrightarrow> (\<exists>r\<in>set (deliveries db). claimed_of_row r = d)"

definition token_unforged :: "Delivery \<Rightarrow> db \<Rightarrow> bool" where
  "token_unforged d db \<longleftrightarrow> (\<forall>r\<in>set (deliveries db). d_lease_token r = dl_LeaseToken d \<longrightarrow> claimed_of_row r = d)"

lemma fenced_claim:
  assumes "token_unforged d db" "result_for d result" "dl_Status d = StatusDelivering" "dl_LeaseUntil d = Some u"
  shows "(\<exists>r\<in>set (deliveries db). fenced now result cls next r) \<longleftrightarrow>
    still_claimed d db \<and> now < u \<and>
    (cls = RcRetryableFailure \<longrightarrow> (\<exists>t. next = Some t \<and> timestamptz t < dl_RetryDeadline d))"
proof -
  have "fenced now result cls next r \<longleftrightarrow> claimed_of_row r = d \<and> now < u \<and>
      (cls = RcRetryableFailure \<longrightarrow> (\<exists>t. next = Some t \<and> timestamptz t < dl_RetryDeadline d))"
    if r: "r \<in> set (deliveries db)" for r
  proof (cases "claimed_of_row r = d")
    case True
    then have row: "dl_ID d = d_id r" "dl_Generation d = d_generation r" "dl_LeaseOwner d = d_lease_owner r"
      "dl_LeaseToken d = d_lease_token r" "dl_LeaseUntil d = d_lease_until r" "dl_Status d = d_status r"
      "dl_RetryDeadline d = d_retry_deadline r" by auto
    with assms(2-4) have "d_id r = ar_DeliveryID result" "d_generation r = ar_Generation result" "d_status r = StatusDelivering"
      "d_lease_owner r = Some (ar_LeaseOwner result)" "d_lease_token r = Some (ar_LeaseToken result)" "d_lease_until r = Some u"
      by (simp_all add: result_for_def)
    with True row(7) show ?thesis by (cases "next") (simp_all add: fenced_def)
  next
    case False
    with assms(1) r have "d_lease_token r \<noteq> dl_LeaseToken d" by (auto simp: token_unforged_def)
    with assms(2) have "\<not> fenced now result cls next r" by (auto simp: fenced_def result_for_def)
    with False show ?thesis by blast
  qed
  then show ?thesis unfolding still_claimed_def by blast
qed

text \<open>C11. A Worker can record a result of whatever class for the delivery it claimed exactly as long as its claim
  stands: whatever other processes have done to the database since (only the claim's random token being
  nobody else's), a fault-free call records the result if the row is still as the claim left it, the lease
  has not run out on the server's clock and, for a retry, the next attempt lies before the retry deadline.
  In every other case it is refused as a lost lease with nothing changed, even if no one has taken the
  delivery over yet.\<close>

theorem claimed_result_fenced:
  assumes "db_inv db" "ClaimDelivery E db i g owner lease = (Inr (d, v), db1)" "result_for d result"
    and "db_inv db2" "token_unforged d db2"
    and "fault_free E1" "newUUID (rand_read E1 0) = Inr j" "j \<notin> a_id ` set (delivery_attempts db2)"
    and "ar_StartedAt result \<le> ar_FinishedAt result"
  shows "if still_claimed d db2 \<and> clock_timestamp E1 < clock_timestamp E + interval lease \<and>
      (cls = RcRetryableFailure \<longrightarrow> (\<exists>t. next = Some t \<and> timestamptz t < dl_RetryDeadline d))
    then \<exists>db3. completeResult E1 db2 result cls next = (Inr (), db3)
    else completeResult E1 db2 result cls next = (Inl ErrWorkerLeaseLost, db2)"
proof -
  from assms(1,2) obtain r token where "d = claimed_of_row (claim_row (clock_timestamp E) owner token lease r)"
    by (rule claimed_row_present)
  then have "dl_Status d = StatusDelivering" "dl_LeaseUntil d = Some (clock_timestamp E + interval lease)" by simp_all
  note iff = fenced_claim [OF assms(5,3) this, of "clock_timestamp E1" cls "next"]
  show ?thesis
  proof (cases "\<exists>r\<in>set (deliveries db2). fenced (clock_timestamp E1) result cls next r")
    case True
    then show ?thesis using iff completeResult_fault_free [OF assms(4,6-9)] by auto
  next
    case False
    then show ?thesis using iff completeResult_lost [OF assms(6,7)] by auto
  qed
qed

text \<open>The claim of the example, and its result as a retry: due before the deadline it is recorded, due at the
  deadline it is refused within the lease.\<close>

definition demo_claimed :: db where
  "demo_claimed = snd (ClaimDelivery (quiet_env 10) demo_db ''p'' 0 ''w'' Second)"

definition claimed_result :: AttemptResult where
  "claimed_result = demo_result\<lparr>ar_DeliveryID := ''p'', ar_LeaseToken := ''00000000-0000-4000-8000-000000000000''\<rparr>"

theorem claimed_result_fenced_witness:
  "(\<exists>db3. completeResult (quiet_env 20) demo_claimed claimed_result RcRetryableFailure (Some 30) = (Inr (), db3)) \<and>
    completeResult (quiet_env 20) demo_claimed claimed_result RcRetryableFailure
      (Some (d_retry_deadline (demo_delivery ''p'' ''kp'' StatusPending 0))) = (Inl ErrWorkerLeaseLost, demo_claimed)"
proof -
  let ?r = "claim_row 10 ''w'' ''00000000-0000-4000-8000-000000000000'' Second (demo_delivery ''p'' ''kp'' StatusPending 0)"
  have run: "ClaimDelivery (quiet_env 10) demo_db ''p'' 0 ''w'' Second =
    (Inr (claimed_of_row ?r, destination_of_row demo_version), demo_claimed)" unfolding demo_claimed_def by code_simp
  have inv: "db_inv demo_claimed" using ClaimDelivery_good [OF demo_db_inv, of "quiet_env 10"] by (simp add: demo_claimed_def good_step_def)
  have "newUUID (rand_read (quiet_env 20) 0) = Inr ''00000000-0000-4000-8000-000000000000''" by code_simp
  moreover have "''00000000-0000-4000-8000-000000000000'' \<notin> a_id ` set (delivery_attempts demo_claimed)" unfolding demo_claimed_def by code_simp
  moreover have "token_unforged (claimed_of_row ?r) demo_claimed" "still_claimed (claimed_of_row ?r) demo_claimed"
    unfolding demo_claimed_def by code_simp+
  moreover have "result_for (claimed_of_row ?r) claimed_result"
    by (simp add: result_for_def claimed_result_def demo_result_def demo_delivery_def)
  moreover have "fault_free (quiet_env 20)" "ar_StartedAt claimed_result \<le> ar_FinishedAt claimed_result"
    by (simp_all add: fault_free_def quiet_env_def claimed_result_def demo_result_def)
  moreover have "clock_timestamp (quiet_env 20) < clock_timestamp (quiet_env 10) + interval Second" by code_simp
  moreover have "timestamptz 30 < dl_RetryDeadline (claimed_of_row ?r)"
    "\<not> timestamptz (d_retry_deadline (demo_delivery ''p'' ''kp'' StatusPending 0)) < dl_RetryDeadline (claimed_of_row ?r)" by code_simp+
  ultimately show ?thesis
    using claimed_result_fenced [OF demo_db_inv run _ inv, of claimed_result "quiet_env 20" _ RcRetryableFailure "Some _"] by auto
qed

end
