(* ===== verification/Limiter.thy ===== *)
theory Limiter
  imports Delivery_Model
begin

text \<open>
  The per-destination rate and concurrency limiter of the Worker (\<open>internal/worker/limiter.go\<close>).
  Every operation holds the limiter's mutex, so each is one atomic step on its state; the clock
  reading is an argument. States are never removed from the map, so a permit refers to its state
  by the destination identifier. The \<open>changed\<close> channel is the number of times it was closed
  and replaced. The float64 division that gives the interval is exact.
\<close>

section \<open>Operations\<close>

record destinationLimitState =
  ls_active :: int
  ls_maxConcurrent :: int
  ls_minInterval :: duration
  ls_nextAllowed :: instant
  ls_lastSequence :: "64 word"
  ls_changed :: nat

type_synonym destinationLimiter = "string \<rightharpoonup> destinationLimitState"

record destinationPermit =
  dp_state :: string
  dp_sequence :: "64 word"
  dp_previousNext :: instant
  dp_reservedNext :: instant
  dp_released :: bool

definition newDestinationLimiter :: destinationLimiter where
  "newDestinationLimiter = Map.empty"

text \<open>The zero \<open>time.Time\<close>, the first of January of year 1.\<close>

definition zero_time :: instant where
  "zero_time = - 62135596800 * Second"

definition limit_max :: "DestinationVersion \<Rightarrow> int" where
  "limit_max destination = (if dv_MaxConcurrency destination \<le> 0 then 1 else dv_MaxConcurrency destination)"

text \<open>The interval is exact and unbounded here; in Go it is a \<open>float64\<close> converted to \<open>time.Duration\<close>, which
  overflows for rates below about one request in three centuries.\<close>

definition limit_interval :: "DestinationVersion \<Rightarrow> duration" where
  "limit_interval destination =
     (let rate = (if dv_RatePerSecond destination \<le> 0 then 1 else dv_RatePerSecond destination)
      in \<lfloor>of_int Second / rate\<rfloor>)"

definition limiter_state :: "DestinationVersion \<Rightarrow> destinationLimiter \<Rightarrow> destinationLimitState \<times> destinationLimiter" where
  "limiter_state destination limiter =
     (case limiter (dv_DestinationID destination) of
        None \<Rightarrow>
          let state = \<lparr>ls_active = 0, ls_maxConcurrent = limit_max destination, ls_minInterval = limit_interval destination,
                ls_nextAllowed = zero_time, ls_lastSequence = 0, ls_changed = 0\<rparr>
          in (state, limiter(dv_DestinationID destination \<mapsto> state))
      | Some old \<Rightarrow>
          let state = old\<lparr>ls_maxConcurrent := min (limit_max destination) (ls_maxConcurrent old),
                ls_minInterval := max (limit_interval destination) (ls_minInterval old)\<rparr>
          in (state, limiter(dv_DestinationID destination \<mapsto> state)))"

definition tryAcquire ::
  "instant \<Rightarrow> DestinationVersion \<Rightarrow> destinationLimiter \<Rightarrow> destinationPermit option \<times> destinationLimiter" where
  "tryAcquire now destination limiter =
     (let (state, limiter1) = limiter_state destination limiter in
      if ls_active state \<ge> ls_maxConcurrent state \<or> now < ls_nextAllowed state then (None, limiter1)
      else let permit = \<lparr>dp_state = dv_DestinationID destination, dp_sequence = ls_lastSequence state + 1,
                 dp_previousNext = ls_nextAllowed state, dp_reservedNext = now + ls_minInterval state, dp_released = False\<rparr>;
               state1 = state\<lparr>ls_active := ls_active state + 1, ls_lastSequence := ls_lastSequence state + 1,
                 ls_nextAllowed := dp_reservedNext permit\<rparr>
           in (Some permit, limiter1(dv_DestinationID destination \<mapsto> state1)))"

definition permit_release ::
  "bool \<Rightarrow> destinationPermit \<Rightarrow> destinationLimiter \<Rightarrow> destinationPermit \<times> destinationLimiter" where
  "permit_release claimed permit limiter =
     (if dp_released permit then (permit, limiter)
      else case limiter (dp_state permit) of
        None \<Rightarrow> (permit, limiter)
      | Some state \<Rightarrow>
          let rollback = \<not> claimed \<and> ls_lastSequence state = dp_sequence permit \<and>
                ls_nextAllowed state = dp_reservedNext permit;
              state1 = state\<lparr>ls_active := ls_active state - 1,
                ls_nextAllowed := (if rollback then dp_previousNext permit else ls_nextAllowed state),
                ls_changed := Suc (ls_changed state)\<rparr>
          in (permit\<lparr>dp_released := True\<rparr>, limiter(dp_state permit \<mapsto> state1)))"

text \<open>One pass of the waiting loop of \<open>acquire\<close> that did not get a permit: how long it waits, and
  what ended the wait. Other goroutines may have changed the limiter meanwhile.\<close>

definition acquire_wait :: "instant \<Rightarrow> destinationLimitState \<Rightarrow> duration" where
  "acquire_wait now state =
     (let wait = ls_nextAllowed state - now in
      if wait \<le> 0 \<or> ls_active state \<ge> ls_maxConcurrent state then 10 * Millisecond else wait)"

datatype wake = CtxDone | WokenWith destinationLimiter

datatype acquire_result = Acquired destinationPermit | AcquireCanceled | StillWaiting

fun acquire ::
  "DestinationVersion \<Rightarrow> (instant \<times> wake) list \<Rightarrow> destinationLimiter \<Rightarrow> acquire_result \<times> destinationLimiter" where
  "acquire destination [] limiter = (StillWaiting, limiter)"
| "acquire destination ((now, wake) # wakes) limiter =
     (case tryAcquire now destination limiter of
        (Some permit, limiter1) \<Rightarrow> (Acquired permit, limiter1)
      | (None, limiter1) \<Rightarrow>
          (case wake of
             CtxDone \<Rightarrow> (AcquireCanceled, limiter1)
           | WokenWith limiter2 \<Rightarrow> acquire destination wakes limiter2))"

section \<open>One destination's state\<close>

lemma limit_max_pos: "limit_max d > 0"
  by (simp add: limit_max_def)

lemma limiter_state_at:
  assumes "limiter_state d L = (st, L')"
  shows "L' = L(dv_DestinationID d \<mapsto> st)" "ls_maxConcurrent st \<le> limit_max d" "limit_interval d \<le> ls_minInterval st"
    "L (dv_DestinationID d) = Some old \<Longrightarrow> ls_active st = ls_active old \<and> ls_nextAllowed st = ls_nextAllowed old \<and>
       ls_lastSequence st = ls_lastSequence old \<and> ls_maxConcurrent st \<le> ls_maxConcurrent old \<and> ls_minInterval old \<le> ls_minInterval st"
    "L (dv_DestinationID d) = None \<Longrightarrow> ls_active st = 0 \<and> ls_nextAllowed st = zero_time"
  using assms by (auto simp: limiter_state_def Let_def split: option.splits)

lemma tryAcquire_Some:
  assumes "tryAcquire now d L = (Some permit, L')"
  obtains st where "limiter_state d L = (st, L(dv_DestinationID d \<mapsto> st))" "ls_active st < ls_maxConcurrent st"
    "ls_nextAllowed st \<le> now" "dp_state permit = dv_DestinationID d" "dp_sequence permit = ls_lastSequence st + 1"
    "dp_previousNext permit = ls_nextAllowed st" "dp_reservedNext permit = now + ls_minInterval st" "\<not> dp_released permit"
    "L' = L(dv_DestinationID d \<mapsto> st\<lparr>ls_active := ls_active st + 1, ls_lastSequence := ls_lastSequence st + 1,
       ls_nextAllowed := now + ls_minInterval st\<rparr>)"
proof -
  obtain st L1 where st: "limiter_state d L = (st, L1)" by fastforce
  then have "L1 = L(dv_DestinationID d \<mapsto> st)" by (rule limiter_state_at(1))
  with st assms show thesis by (intro that [of st]) (auto simp: tryAcquire_def Let_def split: if_splits)
qed

lemma tryAcquire_None:
  assumes "tryAcquire now d L = (None, L')"
  obtains st where "limiter_state d L = (st, L')" "L' = L(dv_DestinationID d \<mapsto> st)"
    "ls_maxConcurrent st \<le> ls_active st \<or> now < ls_nextAllowed st"
proof -
  obtain st L1 where st: "limiter_state d L = (st, L1)" by fastforce
  then have "L1 = L(dv_DestinationID d \<mapsto> st)" by (rule limiter_state_at(1))
  with st assms show thesis by (intro that [of st]) (auto simp: tryAcquire_def Let_def split: if_splits)
qed

section \<open>Histories of the limiter\<close>

text \<open>Any interleaving of acquisitions and releases by the Worker's goroutines, with the permits that
  are out. Every destination version the Worker acquires for has at most \<open>cap\<close> of its destination
  as effective concurrency.\<close>

inductive limiter_run :: "(string \<Rightarrow> int) \<Rightarrow> destinationLimiter \<Rightarrow> destinationPermit list \<Rightarrow> bool" for cap where
  run_start: "limiter_run cap newDestinationLimiter []"
| run_acquire: "limiter_run cap L out \<Longrightarrow> limit_max d \<le> cap (dv_DestinationID d) \<Longrightarrow>
    tryAcquire now d L = (Some permit, L') \<Longrightarrow> limiter_run cap L' (permit # out)"
| run_busy: "limiter_run cap L out \<Longrightarrow> limit_max d \<le> cap (dv_DestinationID d) \<Longrightarrow>
    tryAcquire now d L = (None, L') \<Longrightarrow> limiter_run cap L' out"
| run_release: "limiter_run cap L (before @ permit # after) \<Longrightarrow>
    permit_release claimed permit L = (permit', L') \<Longrightarrow> limiter_run cap L' (before @ after)"
| run_release_again: "limiter_run cap L out \<Longrightarrow> dp_released permit \<Longrightarrow>
    permit_release claimed permit L = (permit', L') \<Longrightarrow> limiter_run cap L' out"

definition outstanding :: "string \<Rightarrow> destinationPermit list \<Rightarrow> int" where
  "outstanding i out = int (length (filter (\<lambda>p. dp_state p = i) out))"

definition limiter_inv :: "(string \<Rightarrow> int) \<Rightarrow> destinationLimiter \<Rightarrow> destinationPermit list \<Rightarrow> bool" where
  "limiter_inv cap L out \<longleftrightarrow> (\<forall>p\<in>set out. \<not> dp_released p) \<and>
     (\<forall>i. case L i of None \<Rightarrow> outstanding i out = 0
      | Some st \<Rightarrow> ls_active st = outstanding i out \<and> ls_maxConcurrent st \<le> cap i \<and> outstanding i out \<le> cap i)"

lemma outstanding_simps [simp]:
  "outstanding i [] = 0" "outstanding i (p # out) = (if dp_state p = i then 1 else 0) + outstanding i out"
  "outstanding i (xs @ ys) = outstanding i xs + outstanding i ys"
  by (simp_all add: outstanding_def)

lemma outstanding_nonneg [simp]: "0 \<le> outstanding i out"
  by (simp add: outstanding_def)

lemma limiter_state_inv:
  assumes "limiter_inv cap L out" "limit_max d \<le> cap (dv_DestinationID d)" "limiter_state d L = (st, L')"
  shows "ls_active st = outstanding (dv_DestinationID d) out" "ls_maxConcurrent st \<le> cap (dv_DestinationID d)" "limiter_inv cap L' out"
proof -
  let ?i = "dv_DestinationID d"
  have at: "case L ?i of None \<Rightarrow> outstanding ?i out = 0
      | Some st \<Rightarrow> ls_active st = outstanding ?i out \<and> ls_maxConcurrent st \<le> cap ?i \<and> outstanding ?i out \<le> cap ?i"
    using assms(1) by (simp add: limiter_inv_def)
  show a: "ls_active st = outstanding ?i out"
    using at limiter_state_at(4,5) [OF assms(3)] by (cases "L ?i") auto
  show m: "ls_maxConcurrent st \<le> cap ?i" using limiter_state_at(2) [OF assms(3)] assms(2) by simp
  have "outstanding ?i out \<le> cap ?i" using at limit_max_pos [of d] assms(2) by (cases "L ?i") auto
  with a m assms(1) limiter_state_at(1) [OF assms(3)] show "limiter_inv cap L' out"
    by (auto simp: limiter_inv_def)
qed

lemma limiter_inv_update:
  assumes inv: "limiter_inv cap L out" and fresh: "\<forall>p\<in>set out'. \<not> dp_released p"
    and others: "\<And>i. i \<noteq> j \<Longrightarrow> outstanding i out' = outstanding i out"
    and here: "ls_active st = outstanding j out'" "ls_maxConcurrent st \<le> cap j" "outstanding j out' \<le> cap j"
  shows "limiter_inv cap (L(j \<mapsto> st)) out'"
proof -
  have "case (L(j \<mapsto> st)) i of None \<Rightarrow> outstanding i out' = 0
      | Some st \<Rightarrow> ls_active st = outstanding i out' \<and> ls_maxConcurrent st \<le> cap i \<and> outstanding i out' \<le> cap i" for i
  proof (cases "i = j")
    case False
    have "case L i of None \<Rightarrow> outstanding i out = 0
      | Some st \<Rightarrow> ls_active st = outstanding i out \<and> ls_maxConcurrent st \<le> cap i \<and> outstanding i out \<le> cap i"
      using inv by (simp add: limiter_inv_def)
    with False others [OF False] show ?thesis by (simp split: option.splits)
  qed (simp add: here)
  with fresh show ?thesis unfolding limiter_inv_def by blast
qed

lemma acquire_limiter_inv:
  assumes "limiter_inv cap L out" "limit_max d \<le> cap (dv_DestinationID d)" "tryAcquire now d L = (Some permit, L')"
  shows "limiter_inv cap L' (permit # out)"
proof -
  let ?i = "dv_DestinationID d"
  from assms(3) obtain st where st: "limiter_state d L = (st, L(?i \<mapsto> st))" "ls_active st < ls_maxConcurrent st"
    "dp_state permit = ?i" "\<not> dp_released permit"
    and L': "L' = L(?i \<mapsto> st\<lparr>ls_active := ls_active st + 1, ls_lastSequence := ls_lastSequence st + 1,
       ls_nextAllowed := now + ls_minInterval st\<rparr>)" by (rule tryAcquire_Some)
  note s = limiter_state_inv [OF assms(1,2) st(1)]
  show ?thesis unfolding L'
    by (rule limiter_inv_update [OF assms(1)]) (use assms(1) s(1,2) st in \<open>auto simp: limiter_inv_def\<close>)
qed

lemma release_limiter_inv:
  assumes inv: "limiter_inv cap L (before @ permit # after)" and run: "permit_release claimed permit L = (permit', L')"
  shows "limiter_inv cap L' (before @ after)"
proof -
  let ?i = "dp_state permit"
  have at: "case L ?i of None \<Rightarrow> outstanding ?i (before @ permit # after) = 0
      | Some st \<Rightarrow> ls_active st = outstanding ?i (before @ permit # after) \<and> ls_maxConcurrent st \<le> cap ?i \<and>
          outstanding ?i (before @ permit # after) \<le> cap ?i"
    and un: "\<not> dp_released permit"
    using inv by (simp_all add: limiter_inv_def)
  moreover have "0 < outstanding ?i (before @ permit # after)" by (simp add: outstanding_def)
  ultimately obtain st where st: "L ?i = Some st" "ls_active st = outstanding ?i (before @ permit # after)"
    "ls_maxConcurrent st \<le> cap ?i" "outstanding ?i (before @ permit # after) \<le> cap ?i" by (cases "L ?i") auto
  with run un obtain n c where L': "L' = L(?i \<mapsto> st\<lparr>ls_active := ls_active st - 1, ls_nextAllowed := n, ls_changed := c\<rparr>)"
    by (auto simp: permit_release_def Let_def)
  show ?thesis unfolding L'
    by (rule limiter_inv_update [OF inv]) (use inv st(2-4) in \<open>auto simp: limiter_inv_def\<close>)
qed

lemma limiter_run_inv: "limiter_run cap L out \<Longrightarrow> limiter_inv cap L out"
proof (induction rule: limiter_run.induct)
  case run_start
  then show ?case by (simp add: limiter_inv_def newDestinationLimiter_def)
next
  case (run_busy L out d now L')
  then show ?case using limiter_state_inv(3) by (metis tryAcquire_None)
qed (auto intro: acquire_limiter_inv release_limiter_inv simp: permit_release_def)

section \<open>Properties\<close>

lemma demo_limits [simp]: "limit_max demo_destination = 1" "limit_interval demo_destination = Second"
  "dv_DestinationID demo_destination = ''s''"
  by (simp_all add: demo_destination_def limit_max_def limit_interval_def)

text \<open>C22. The limiter bounds the concurrent requests of a destination: in every interleaving of
  acquisitions, failed acquisitions, releases and repeated releases, the number of permits of a
  destination that are out is what its state counts, and is at most the largest concurrency any of
  its versions allows.\<close>

theorem limiter_bounds_concurrency:
  assumes "limiter_run cap L out" "L i = Some st"
  shows "ls_active st = outstanding i out \<and> outstanding i out \<le> cap i \<and> 0 \<le> ls_active st"
  using limiter_run_inv [OF assms(1)] assms(2) by (auto simp: limiter_inv_def dest!: spec [of _ i])

definition demo_permit :: destinationPermit where
  "demo_permit = \<lparr>dp_state = ''s'', dp_sequence = 1, dp_previousNext = zero_time, dp_reservedNext = Second, dp_released = False\<rparr>"

definition demo_busy :: destinationLimitState where
  "demo_busy = \<lparr>ls_active = 1, ls_maxConcurrent = 1, ls_minInterval = Second, ls_nextAllowed = Second, ls_lastSequence = 1, ls_changed = 0\<rparr>"

lemma demo_acquire: "tryAcquire 0 demo_destination newDestinationLimiter = (Some demo_permit, [''s'' \<mapsto> demo_busy])"
  by (simp add: tryAcquire_def limiter_state_def newDestinationLimiter_def Let_def demo_permit_def demo_busy_def zero_time_def)

theorem limiter_bounds_concurrency_witness:
  "limiter_run (\<lambda>_. 1) [''s'' \<mapsto> demo_busy] [demo_permit] \<and> outstanding ''s'' [demo_permit] \<le> 1"
proof
  show run: "limiter_run (\<lambda>_. 1) [''s'' \<mapsto> demo_busy] [demo_permit]"
    by (rule run_acquire [OF run_start _ demo_acquire]) simp
  show "outstanding ''s'' [demo_permit] \<le> 1"
    using limiter_bounds_concurrency [OF run, of "''s''" demo_busy] by simp
qed

section \<open>Spacing\<close>

text \<open>The same interleavings with a memory: how many permits were granted in all, and the grants that
  are out or were used, each with the time and the version it was granted for. A permit released
  unclaimed leaves the memory, because no request was sent under it.\<close>

type_synonym grant = "destinationPermit \<times> instant \<times> DestinationVersion"

inductive limiter_history :: "nat \<Rightarrow> destinationLimiter \<Rightarrow> grant list \<Rightarrow> grant list \<Rightarrow> bool" where
  history_start: "limiter_history 0 newDestinationLimiter [] []"
| history_acquire: "limiter_history n L out used \<Longrightarrow> tryAcquire now d L = (Some permit, L') \<Longrightarrow>
    limiter_history (Suc n) L' ((permit, now, d) # out) used"
| history_busy: "limiter_history n L out used \<Longrightarrow> tryAcquire now d L = (None, L') \<Longrightarrow> limiter_history n L' out used"
| history_release: "limiter_history n L (before @ g # after) used \<Longrightarrow>
    permit_release claimed (fst g) L = (permit', L') \<Longrightarrow>
    limiter_history n L' (before @ after) (if claimed then g # used else used)"
| history_release_again: "limiter_history n L out used \<Longrightarrow> dp_released permit \<Longrightarrow>
    permit_release claimed permit L = (permit', L') \<Longrightarrow> limiter_history n L' out used"

definition grant_of :: "grant \<Rightarrow> bool" where
  "grant_of = (\<lambda>(p, t, d). dp_state p = dv_DestinationID d \<and> t + limit_interval d \<le> dp_reservedNext p \<and> \<not> dp_released p)"

text \<open>Per destination: sequence numbers do not repeat and are below the last one, every remembered
  reservation is respected by the next allowed time, and giving a permit back cannot undo the
  reservation of an earlier grant.\<close>

definition spaced :: "destinationLimitState \<Rightarrow> destinationPermit list \<Rightarrow> destinationPermit list \<Rightarrow> bool" where
  "spaced st out used \<longleftrightarrow>
     distinct (map dp_sequence (out @ used)) \<and>
     (\<forall>q\<in>set (out @ used). dp_sequence q \<le> ls_lastSequence st \<and> dp_reservedNext q \<le> ls_nextAllowed st) \<and>
     (\<forall>p\<in>set out. \<forall>q\<in>set (out @ used). dp_sequence q < dp_sequence p \<longrightarrow> dp_reservedNext q \<le> dp_previousNext p)"

abbreviation at_dest :: "string \<Rightarrow> grant list \<Rightarrow> destinationPermit list" where
  "at_dest i gs \<equiv> filter (\<lambda>p. dp_state p = i) (map fst gs)"

definition history_inv :: "nat \<Rightarrow> destinationLimiter \<Rightarrow> grant list \<Rightarrow> grant list \<Rightarrow> bool" where
  "history_inv n L out used \<longleftrightarrow> list_all grant_of (out @ used) \<and>
     (\<forall>i. case L i of None \<Rightarrow> at_dest i (out @ used) = []
      | Some st \<Rightarrow> unat (ls_lastSequence st) \<le> n \<and> spaced st (at_dest i out) (at_dest i used))"

lemma spacedI:
  assumes "distinct (map dp_sequence (out @ used))"
    and "\<And>q. q \<in> set (out @ used) \<Longrightarrow> dp_sequence q \<le> ls_lastSequence st"
    and "\<And>q. q \<in> set (out @ used) \<Longrightarrow> dp_reservedNext q \<le> ls_nextAllowed st"
    and "\<And>p q. p \<in> set out \<Longrightarrow> q \<in> set (out @ used) \<Longrightarrow> dp_sequence q < dp_sequence p \<Longrightarrow> dp_reservedNext q \<le> dp_previousNext p"
  shows "spaced st out used"
  unfolding spaced_def using assms by blast

lemma spacedD:
  assumes "spaced st out used"
  shows "distinct (map dp_sequence (out @ used))"
    and "q \<in> set (out @ used) \<Longrightarrow> dp_sequence q \<le> ls_lastSequence st"
    and "q \<in> set (out @ used) \<Longrightarrow> dp_reservedNext q \<le> ls_nextAllowed st"
    and "p \<in> set out \<Longrightarrow> q \<in> set (out @ used) \<Longrightarrow> dp_sequence q < dp_sequence p \<Longrightarrow> dp_reservedNext q \<le> dp_previousNext p"
  using assms unfolding spaced_def by blast+

lemma spaced_acquire:
  assumes s: "spaced st out used" and now: "ls_nextAllowed st \<le> now" and pos: "0 \<le> ls_minInterval st"
    and room: "ls_lastSequence st < ls_lastSequence st + 1"
    and p: "dp_sequence p = ls_lastSequence st + 1" "dp_previousNext p = ls_nextAllowed st" "dp_reservedNext p = now + ls_minInterval st"
  shows "spaced (st\<lparr>ls_active := a, ls_lastSequence := ls_lastSequence st + 1, ls_nextAllowed := now + ls_minInterval st\<rparr>)
    (p # out) used"
proof (rule spacedI)
  have old: "dp_sequence q < ls_lastSequence st + 1" if "q \<in> set (out @ used)" for q
    using spacedD(2) [OF s that] room by (rule le_less_trans)
  then have fresh: "dp_sequence p \<noteq> dp_sequence q" if "q \<in> set (out @ used)" for q
    using that unfolding p(1) by (metis less_irrefl)
  then show "distinct (map dp_sequence ((p # out) @ used))" using spacedD(1) [OF s] by auto
  show "dp_reservedNext q \<le> dp_previousNext r"
    if "r \<in> set (p # out)" "q \<in> set ((p # out) @ used)" "dp_sequence q < dp_sequence r" for r q
  proof (cases "q = p")
    case True
    with that(1,3) old [of r] p(1) show ?thesis by auto
  next
    case False
    with that s p(2) show ?thesis using spacedD(3,4) [OF s] by auto
  qed
  fix q assume q: "q \<in> set ((p # out) @ used)"
  with old p(1) show "dp_sequence q \<le> ls_lastSequence (st\<lparr>ls_active := a, ls_lastSequence := ls_lastSequence st + 1,
      ls_nextAllowed := now + ls_minInterval st\<rparr>)" by (auto simp: less_imp_le)
  from q show "dp_reservedNext q \<le> ls_nextAllowed (st\<lparr>ls_active := a, ls_lastSequence := ls_lastSequence st + 1,
      ls_nextAllowed := now + ls_minInterval st\<rparr>)"
    using spacedD(3) [OF s, of q] now pos p(3) by auto
qed

lemma spaced_release:
  assumes s: "spaced st (before @ g # after) used" and used': "used' = (if claimed then g # used else used)"
  shows "spaced (st\<lparr>ls_active := a,
      ls_nextAllowed := (if \<not> claimed \<and> ls_lastSequence st = dp_sequence g \<and> ls_nextAllowed st = dp_reservedNext g
        then dp_previousNext g else ls_nextAllowed st), ls_changed := c\<rparr>) (before @ after) used'"
proof (rule spacedI)
  note d = spacedD [OF s]
  show "distinct (map dp_sequence ((before @ after) @ used'))" using d(1) by (auto simp: used')
  have in_old: "q \<in> set ((before @ g # after) @ used)" if "q \<in> set ((before @ after) @ used')" for q
    using that by (auto simp: used' split: if_splits)
  show "dp_reservedNext q \<le> dp_previousNext p"
    if "p \<in> set (before @ after)" "q \<in> set ((before @ after) @ used')" "dp_sequence q < dp_sequence p" for p q
    by (rule d(4) [OF _ in_old [OF that(2)] that(3)]) (use that(1) in auto)
  fix q assume q: "q \<in> set ((before @ after) @ used')"
  show "dp_sequence q \<le> ls_lastSequence (st\<lparr>ls_active := a,
      ls_nextAllowed := (if \<not> claimed \<and> ls_lastSequence st = dp_sequence g \<and> ls_nextAllowed st = dp_reservedNext g
        then dp_previousNext g else ls_nextAllowed st), ls_changed := c\<rparr>)"
    using d(2) [OF in_old [OF q]] by simp
  have "dp_reservedNext q \<le> dp_previousNext g" if last: "\<not> claimed" "ls_lastSequence st = dp_sequence g"
  proof -
    have "dp_sequence q \<in> dp_sequence ` set ((before @ after) @ used)" using q last(1) by (simp add: used')
    then have "dp_sequence q \<noteq> dp_sequence g" using d(1) by (auto simp del: image_eqI)
    with d(2) [OF in_old [OF q]] last(2) have "dp_sequence q < dp_sequence g" by (simp add: order.strict_iff_order)
    then show ?thesis using d(4) [OF _ in_old [OF q], of g] by simp
  qed
  with d(3) [OF in_old [OF q]] show "dp_reservedNext q \<le> ls_nextAllowed (st\<lparr>ls_active := a,
      ls_nextAllowed := (if \<not> claimed \<and> ls_lastSequence st = dp_sequence g \<and> ls_nextAllowed st = dp_reservedNext g
        then dp_previousNext g else ls_nextAllowed st), ls_changed := c\<rparr>)" by simp
qed

lemma limit_interval_nonneg: "0 \<le> limit_interval d"
  by (simp add: limit_interval_def Let_def)

lemma spaced_cong:
  "ls_lastSequence st' = ls_lastSequence st \<Longrightarrow> ls_nextAllowed st' = ls_nextAllowed st \<Longrightarrow> spaced st' out used = spaced st out used"
  by (simp add: spaced_def)

lemma history_inv_state:
  assumes "history_inv n L out used" "limiter_state d L = (st, L')"
  shows "unat (ls_lastSequence st) \<le> n" "spaced st (at_dest (dv_DestinationID d) out) (at_dest (dv_DestinationID d) used)"
    "history_inv n L' out used"
proof -
  let ?i = "dv_DestinationID d"
  have at: "case L ?i of None \<Rightarrow> at_dest ?i (out @ used) = []
      | Some st \<Rightarrow> unat (ls_lastSequence st) \<le> n \<and> spaced st (at_dest ?i out) (at_dest ?i used)"
    using assms(1) unfolding history_inv_def by blast
  have both: "unat (ls_lastSequence st) \<le> n \<and> spaced st (at_dest ?i out) (at_dest ?i used)"
  proof (cases "L ?i")
    case None
    with at assms(2) show ?thesis by (auto simp: limiter_state_def Let_def spaced_def)
  next
    case (Some old)
    with at spaced_cong [of st old] limiter_state_at(4) [OF assms(2) Some] show ?thesis by simp
  qed
  then show "unat (ls_lastSequence st) \<le> n" "spaced st (at_dest ?i out) (at_dest ?i used)" by auto
  show "history_inv n L' out used"
    using assms(1) both limiter_state_at(1) [OF assms(2)] unfolding history_inv_def by simp
qed

lemma history_inv_update:
  assumes inv: "history_inv n L out used" and le: "n \<le> n'" and grants: "list_all grant_of (out' @ used')"
    and others: "\<And>i. i \<noteq> j \<Longrightarrow> at_dest i out' = at_dest i out \<and> at_dest i used' = at_dest i used"
    and here: "unat (ls_lastSequence st) \<le> n'" "spaced st (at_dest j out') (at_dest j used')"
  shows "history_inv n' (L(j \<mapsto> st)) out' used'"
proof -
  have "case (L(j \<mapsto> st)) i of None \<Rightarrow> at_dest i (out' @ used') = []
      | Some st \<Rightarrow> unat (ls_lastSequence st) \<le> n' \<and> spaced st (at_dest i out') (at_dest i used')" for i
  proof (cases "i = j")
    case False
    have "case L i of None \<Rightarrow> at_dest i (out @ used) = []
      | Some st \<Rightarrow> unat (ls_lastSequence st) \<le> n \<and> spaced st (at_dest i out) (at_dest i used)"
      using inv unfolding history_inv_def by blast
    with False others [OF False] le show ?thesis by (simp split: option.splits)
  qed (simp add: here)
  with grants show ?thesis unfolding history_inv_def by blast
qed

lemma acquire_history_inv:
  assumes inv: "history_inv n L out used" and n: "Suc n < 2 ^ 64" and run: "tryAcquire now d L = (Some permit, L')"
  shows "history_inv (Suc n) L' ((permit, now, d) # out) used"
proof -
  let ?i = "dv_DestinationID d"
  from run obtain st where st: "limiter_state d L = (st, L(?i \<mapsto> st))" "ls_nextAllowed st \<le> now"
    and p: "dp_state permit = ?i" "dp_sequence permit = ls_lastSequence st + 1" "dp_previousNext permit = ls_nextAllowed st"
    "dp_reservedNext permit = now + ls_minInterval st" "\<not> dp_released permit"
    and L': "L' = L(?i \<mapsto> st\<lparr>ls_active := ls_active st + 1, ls_lastSequence := ls_lastSequence st + 1,
       ls_nextAllowed := now + ls_minInterval st\<rparr>)" by (rule tryAcquire_Some)
  note s = history_inv_state [OF inv st(1)]
  have le: "limit_interval d \<le> ls_minInterval st" by (rule limiter_state_at(3) [OF st(1)])
  have u: "unat (ls_lastSequence st + 1) = unat (ls_lastSequence st) + 1"
    using s(1) n by (simp add: unat_word_ariths)
  then have room: "ls_lastSequence st < ls_lastSequence st + 1" by (simp add: word_less_nat_alt)
  show ?thesis unfolding L'
  proof (rule history_inv_update [OF inv])
    show "list_all grant_of (((permit, now, d) # out) @ used)"
      using inv p le by (simp add: history_inv_def grant_of_def)
    show "spaced (st\<lparr>ls_active := ls_active st + 1, ls_lastSequence := ls_lastSequence st + 1,
        ls_nextAllowed := now + ls_minInterval st\<rparr>) (at_dest ?i ((permit, now, d) # out)) (at_dest ?i used)"
      using spaced_acquire [OF s(2) st(2) _ room p(2-4)] p(1) le limit_interval_nonneg [of d] by simp
  qed (use u s(1) p(1) in auto)
qed

lemma release_history_inv:
  assumes inv: "history_inv n L (before @ g # after) used" and run: "permit_release claimed (fst g) L = (permit', L')"
  shows "history_inv n L' (before @ after) (if claimed then g # used else used)"
proof -
  let ?i = "dp_state (fst g)"
  let ?next = "\<lambda>st. if \<not> claimed \<and> ls_lastSequence st = dp_sequence (fst g) \<and> ls_nextAllowed st = dp_reservedNext (fst g)
      then dp_previousNext (fst g) else ls_nextAllowed st"
  have un: "\<not> dp_released (fst g)" using inv by (auto simp: history_inv_def grant_of_def)
  have "case L ?i of None \<Rightarrow> at_dest ?i ((before @ g # after) @ used) = []
      | Some st \<Rightarrow> unat (ls_lastSequence st) \<le> n \<and> spaced st (at_dest ?i (before @ g # after)) (at_dest ?i used)"
    using inv unfolding history_inv_def by blast
  then obtain st where st: "L ?i = Some st" "unat (ls_lastSequence st) \<le> n"
    "spaced st (at_dest ?i before @ fst g # at_dest ?i after) (at_dest ?i used)"
    by (cases "L ?i") auto
  have L': "L' = L(?i \<mapsto> st\<lparr>ls_active := ls_active st - 1, ls_nextAllowed := ?next st, ls_changed := Suc (ls_changed st)\<rparr>)"
    using run un st(1) by (simp add: permit_release_def Let_def)
  show ?thesis unfolding L'
  proof (rule history_inv_update [OF inv order_refl])
    show "list_all grant_of ((before @ after) @ (if claimed then g # used else used))"
      using inv by (auto simp: history_inv_def)
    show "spaced (st\<lparr>ls_active := ls_active st - 1, ls_nextAllowed := ?next st, ls_changed := Suc (ls_changed st)\<rparr>)
      (at_dest ?i (before @ after)) (at_dest ?i (if claimed then g # used else used))"
      using spaced_release [OF st(3) refl, where claimed = claimed and a = "ls_active st - 1" and c = "Suc (ls_changed st)"]
      by (simp only: if_distrib [where f = "at_dest ?i"] map_append filter_append list.map filter.simps if_True refl)
  qed (use st(2) in auto)
qed

lemma limiter_history_inv: "limiter_history n L out used \<Longrightarrow> n < 2 ^ 64 \<Longrightarrow> history_inv n L out used"
proof (induction rule: limiter_history.induct)
  case history_start
  then show ?case by (simp add: history_inv_def newDestinationLimiter_def)
next
  case (history_acquire n L out used now d permit L')
  then show ?case by (intro acquire_history_inv) auto
next
  case (history_busy n L out used now d L')
  then show ?case using history_inv_state(3) by (metis tryAcquire_None)
next
  case (history_release n L before g after used claimed permit' L')
  then show ?case by (intro release_history_inv) auto
next
  case (history_release_again n L out used permit claimed permit' L')
  then show ?case by (simp add: permit_release_def)
qed

text \<open>C23. The limiter spaces the requests of a destination: in every interleaving of acquisitions and
  releases, a permit is granted no earlier than the minimum interval after every earlier grant to the same
  destination, whatever version either was for, unless the earlier permit was given back unused. This
  holds for the first 2^64 grants, after which the sequence numbers repeat.\<close>

theorem limiter_spaces_requests:
  assumes "limiter_history n L out used" "n < 2 ^ 64" "tryAcquire now d L = (Some permit, L')"
    and "(earlier, t, d') \<in> set out \<union> set used" "dv_DestinationID d' = dv_DestinationID d"
  shows "t + limit_interval d' \<le> now"
proof -
  have inv: "history_inv n L out used" by (rule limiter_history_inv [OF assms(1,2)])
  from assms(3) obtain st where st: "limiter_state d L = (st, L(dv_DestinationID d \<mapsto> st))" "ls_nextAllowed st \<le> now"
    by (rule tryAcquire_Some)
  have g: "grant_of (earlier, t, d')" using inv assms(4) by (auto simp: history_inv_def list_all_iff)
  then have "earlier \<in> set (at_dest (dv_DestinationID d) out @ at_dest (dv_DestinationID d) used)"
    using assms(4,5) by (force simp: grant_of_def)
  from spacedD(3) [OF history_inv_state(2) [OF inv st(1)] this] st(2) g show ?thesis by (simp add: grant_of_def)
qed

definition demo_idle :: destinationLimitState where
  "demo_idle = demo_busy\<lparr>ls_active := 0, ls_changed := 1\<rparr>"

definition demo_second :: destinationPermit where
  "demo_second = \<lparr>dp_state = ''s'', dp_sequence = 2, dp_previousNext = Second, dp_reservedNext = 3 * Second, dp_released = False\<rparr>"

theorem limiter_spaces_requests_witness:
  "tryAcquire (2 * Second) demo_destination [''s'' \<mapsto> demo_idle] =
     (Some demo_second, [''s'' \<mapsto> demo_idle\<lparr>ls_active := 1, ls_lastSequence := 2, ls_nextAllowed := 3 * Second\<rparr>]) \<and>
   0 + limit_interval demo_destination \<le> 2 * Second"
proof
  have "limiter_history 1 [''s'' \<mapsto> demo_busy] [(demo_permit, 0, demo_destination)] []"
    using history_acquire [OF history_start demo_acquire] by simp
  then have history: "limiter_history 1 [''s'' \<mapsto> demo_idle] [] [(demo_permit, 0, demo_destination)]"
    using history_release [of 1 "[''s'' \<mapsto> demo_busy]" "[]" "(demo_permit, 0, demo_destination)" "[]" "[]" True
        "demo_permit\<lparr>dp_released := True\<rparr>" "[''s'' \<mapsto> demo_idle]"]
    by (simp add: permit_release_def demo_permit_def demo_busy_def demo_idle_def Let_def)
  show again: "tryAcquire (2 * Second) demo_destination [''s'' \<mapsto> demo_idle] =
     (Some demo_second, [''s'' \<mapsto> demo_idle\<lparr>ls_active := 1, ls_lastSequence := 2, ls_nextAllowed := 3 * Second\<rparr>])"
    by (simp add: tryAcquire_def limiter_state_def Let_def demo_second_def demo_idle_def demo_busy_def)
  show "0 + limit_interval demo_destination \<le> 2 * Second"
    using limiter_spaces_requests [OF history _ again, of demo_permit 0 demo_destination] by simp
qed

text \<open>Giving a permit back unused restores the count and the next allowed time, and a second release
  changes nothing.\<close>

lemma release_unclaimed_restores:
  assumes "tryAcquire now d L = (Some permit, L1)" "limiter_state d L = (st, L')"
  shows "\<exists>st'. snd (permit_release False permit L1) = L(dv_DestinationID d \<mapsto> st') \<and>
    ls_active st' = ls_active st \<and> ls_nextAllowed st' = ls_nextAllowed st"
proof -
  note L' = limiter_state_at(1) [OF assms(2)]
  show ?thesis using assms unfolding L'
    by (intro exI [of _ "st\<lparr>ls_lastSequence := ls_lastSequence st + 1, ls_changed := Suc (ls_changed st)\<rparr>"])
      (auto simp: tryAcquire_def permit_release_def Let_def split: if_splits)
qed

lemma release_twice: "permit_release b permit L = (p', L2) \<Longrightarrow> L (dp_state permit) \<noteq> None \<Longrightarrow> permit_release b' p' L2 = (p', L2)"
  by (auto simp: permit_release_def Let_def split: if_splits option.splits)

end
