(* ===== verification/Header_Hash.thy ===== *)
theory Header_Hash
  imports Delivery_Model "HOL-Library.Multiset"
begin

text \<open>
  \<open>internal/delivery/hash.go\<close>: canonical caller headers and the request hash that decides
  whether a repeated idempotency key carries the same request. SHA-256 is the parameter
  \<open>sha256\<close>; the digest object is the list of bytes written to it so far. The main results
  are that canonicalisation does not depend on the iteration order of the Go map, and that
  the hashed byte string determines the request (its fields are length-delimited).
\<close>

unbundle bit_operations_syntax

datatype header_error = ErrDuplicateHeader | ErrInvalidHeader

record HashInput =
  hi_DestinationID :: string
  hi_DestinationVersion :: int
  hi_Method :: string
  hi_CallerHeaders :: "(string, string) go_map"
  hi_Body :: "byte list"

definition separators :: string where
  "separators = ''()<>@,;:'' @ [CHR 0x5C, CHR 0x22] @ ''/[]?={} '' @ [CHR 0x09]"

definition validHeaderName :: "string \<Rightarrow> bool" where
  "validHeaderName name \<longleftrightarrow> name \<noteq> [] \<and>
     list_all (\<lambda>c. \<not> ((of_char c :: nat) < 33 \<or> (of_char c :: nat) > 126 \<or> c \<in> set separators)) name"

definition validHeaderValue :: "string \<Rightarrow> bool" where
  "validHeaderValue value \<longleftrightarrow>
     list_all (\<lambda>c. let n = (of_char c :: nat) in
       \<not> (n = 13 \<or> n = 10 \<or> n = 127 \<or> (n < 32 \<and> n \<noteq> 9))) value"

definition trimOptionalWhitespace :: "string \<Rightarrow> string" where
  "trimOptionalWhitespace = trim_by (\<lambda>c. let n = (of_char c :: nat) in n = 32 \<or> n = 9)"

fun canonical_loop ::
  "(string, string) go_map \<Rightarrow> (string, string) go_map \<Rightarrow> header_error + (string, string) go_map" where
  "canonical_loop headers [] = Inr headers"
| "canonical_loop headers ((rawName, rawValue) # input) =
     (let name = ToLower (TrimSpace rawName) in
      if \<not> validHeaderName name \<or> \<not> validHeaderValue rawValue then Inl ErrInvalidHeader
      else if map_of headers name \<noteq> None then Inl ErrDuplicateHeader
      else canonical_loop (headers @ [(name, trimOptionalWhitespace rawValue)]) input)"

definition CanonicalCallerHeaders ::
  "(string, string) go_map \<Rightarrow> header_error + (string, string) go_map" where
  "CanonicalCallerHeaders input = canonical_loop [] input"

text \<open>\<open>strconv.FormatInt\<close> in base 10.\<close>

fun dec_digits :: "nat \<Rightarrow> string" where
  "dec_digits n = (if n < 10 then [char_of (48 + n)] else dec_digits (n div 10) @ [char_of (48 + n mod 10)])"

declare dec_digits.simps [simp del]

definition FormatInt :: "int \<Rightarrow> string" where
  "FormatInt v = (if v < 0 then CHR ''-'' # dec_digits (nat (- v)) else dec_digits (nat v))"

text \<open>\<open>binary.BigEndian.PutUint64\<close>.\<close>

definition PutUint64 :: "64 word \<Rightarrow> byte list" where
  "PutUint64 v = map (\<lambda>i. ucast (drop_bit (56 - 8 * i) v)) [0..<8]"

definition writeHashField :: "byte list \<Rightarrow> byte list \<Rightarrow> byte list" where
  "writeHashField digest value = digest @ PutUint64 (of_nat (length value)) @ value"

text \<open>The loop over the sorted header names: \<open>headers[name]\<close> always exists there.\<close>

fun write_headers :: "(string, string) go_map \<Rightarrow> byte list \<Rightarrow> string list \<Rightarrow> byte list" where
  "write_headers headers digest [] = digest"
| "write_headers headers digest (name # names) =
     write_headers headers
       (writeHashField (writeHashField digest (bytes_of name))
          (bytes_of (case map_of headers name of Some v \<Rightarrow> v | None \<Rightarrow> []))) names"

definition hashed_bytes :: "HashInput \<Rightarrow> (string, string) go_map \<Rightarrow> byte list" where
  "hashed_bytes input headers =
     (let names = sort (map fst headers);
          d1 = writeHashField [] (bytes_of (hi_DestinationID input));
          d2 = writeHashField d1 (bytes_of (FormatInt (hi_DestinationVersion input)));
          d3 = writeHashField d2 (bytes_of (ToUpper (hi_Method input)));
          d4 = write_headers headers d3 names
      in writeHashField d4 (hi_Body input))"

definition RequestHash :: "(byte list \<Rightarrow> byte list) \<Rightarrow> HashInput \<Rightarrow> header_error + byte list" where
  "RequestHash sha256 input =
     (case CanonicalCallerHeaders (hi_CallerHeaders input) of
        Inl e \<Rightarrow> Inl e
      | Inr headers \<Rightarrow> Inr (sha256 (hashed_bytes input headers)))"

section \<open>Canonical headers\<close>

definition canonical_name :: "string \<Rightarrow> string" where
  "canonical_name n = ToLower (TrimSpace n)"

abbreviation canonical_entry :: "string \<times> string \<Rightarrow> string \<times> string" where
  "canonical_entry \<equiv> \<lambda>(n, v). (canonical_name n, trimOptionalWhitespace v)"

definition header_entry_ok :: "string \<times> string \<Rightarrow> bool" where
  "header_entry_ok = (\<lambda>(n, v). validHeaderName (canonical_name n) \<and> validHeaderValue v)"

lemma canonical_loop_Inr:
  assumes "distinct (map fst acc)"
  shows "canonical_loop acc input = Inr h \<longleftrightarrow>
     list_all header_entry_ok input \<and>
     distinct (map fst acc @ map (canonical_name \<circ> fst) input) \<and>
     h = acc @ map canonical_entry input"
  using assms
proof (induction acc input rule: canonical_loop.induct)
  case (1 headers)
  then show ?case by auto
next
  case (2 headers rawName rawValue input)
  let ?n = "canonical_name rawName"
  show ?case
  proof (cases "header_entry_ok (rawName, rawValue) \<and> map_of headers ?n = None")
    case True
    then have fresh: "?n \<notin> set (map fst headers)"
      by (simp add: map_of_eq_None_iff)
    then have "distinct (map fst (headers @ [(?n, trimOptionalWhitespace rawValue)]))"
      using "2.prems" by simp
    with "2.IH" [of ?n] True show ?thesis
      by (auto simp: header_entry_ok_def canonical_name_def Let_def)
  next
    case False
    then show ?thesis
      by (auto simp: header_entry_ok_def canonical_name_def Let_def map_of_eq_None_iff)
  qed
qed

lemma CanonicalCallerHeaders_Inr_iff:
  "CanonicalCallerHeaders m = Inr h \<longleftrightarrow>
     list_all header_entry_ok m \<and> distinct (map (canonical_name \<circ> fst) m) \<and>
     h = map canonical_entry m"
  using canonical_loop_Inr [of "[]" m h] by (simp add: CanonicalCallerHeaders_def)

lemma validHeaderName_no_space: "validHeaderName n \<Longrightarrow> \<forall>c\<in>set n. \<not> is_space c"
  by (auto simp: validHeaderName_def list_all_iff is_space_def Let_def)

lemma canonical_name_valid_fix: "validHeaderName (canonical_name n) \<Longrightarrow>
   canonical_name (canonical_name n) = canonical_name n"
  by (simp add: canonical_name_def TrimSpace_ToLower)

lemma validHeaderValue_trim: "validHeaderValue v \<Longrightarrow> validHeaderValue (trimOptionalWhitespace v)"
  using set_trim_by [of "\<lambda>c. let n = (of_char c :: nat) in n = 32 \<or> n = 9" v]
  by (auto simp: validHeaderValue_def trimOptionalWhitespace_def list_all_iff)

lemma canonical_name_canonical_name [simp]: "canonical_name (canonical_name n) = canonical_name n"
  by (simp add: canonical_name_def TrimSpace_ToLower)

lemma trimOptionalWhitespace_idem [simp]:
  "trimOptionalWhitespace (trimOptionalWhitespace v) = trimOptionalWhitespace v"
  by (simp add: trimOptionalWhitespace_def)

lemma CanonicalCallerHeaders_fix:
  assumes "CanonicalCallerHeaders m = Inr h"
  shows "CanonicalCallerHeaders h = Inr h"
proof -
  from assms have m: "list_all header_entry_ok m" "distinct (map (canonical_name \<circ> fst) m)"
    and h: "h = map canonical_entry m"
    by (simp_all add: CanonicalCallerHeaders_Inr_iff)
  have "map canonical_entry h = h"
    by (auto simp: h)
  moreover have "list_all header_entry_ok h"
    using m(1) by (auto simp: h list_all_iff header_entry_ok_def validHeaderValue_trim)
  moreover have "map (canonical_name \<circ> fst) h = map (canonical_name \<circ> fst) m"
    by (auto simp: h)
  ultimately show ?thesis using m(2) by (simp add: CanonicalCallerHeaders_Inr_iff)
qed

lemma CanonicalCallerHeaders_keys:
  assumes "CanonicalCallerHeaders m = Inr h"
  shows "distinct (map fst h)" "n \<in> set (map fst h) \<Longrightarrow> validHeaderName n"
    "n \<in> set (map fst h) \<Longrightarrow> ToLower n = n" "n \<in> set (map fst h) \<Longrightarrow> TrimSpace n = n"
proof -
  from assms have h: "h = map canonical_entry m" and m: "list_all header_entry_ok m"
    "distinct (map (canonical_name \<circ> fst) m)"
    by (simp_all add: CanonicalCallerHeaders_Inr_iff)
  have fsts: "map fst h = map (canonical_name \<circ> fst) m" by (auto simp: h)
  show "distinct (map fst h)" using m(2) fsts by simp
  show "validHeaderName n" if "n \<in> set (map fst h)"
    using that m(1) unfolding fsts by (auto simp: list_all_iff header_entry_ok_def)
  show "ToLower n = n" "TrimSpace n = n" if "n \<in> set (map fst h)"
    using that unfolding fsts by (auto simp: canonical_name_def TrimSpace_ToLower)
qed

section \<open>The hashed bytes determine the request\<close>

lemma bit_PutUint64: "i < 8 \<Longrightarrow> k < 8 \<Longrightarrow> bit (PutUint64 v ! i) k = bit v (56 - 8 * i + k)"
  by (simp add: PutUint64_def bit_simps)

lemma length_PutUint64 [simp]: "length (PutUint64 v) = 8"
  by (simp add: PutUint64_def)

lemma PutUint64_inject: "PutUint64 v = PutUint64 w \<Longrightarrow> v = w"
proof (rule bit_word_eqI)
  fix n :: nat
  assume eq: "PutUint64 v = PutUint64 w" and n: "n < LENGTH(64)"
  let ?i = "7 - n div 8"
  have i: "?i < 8" "n mod 8 < 8" "56 - 8 * ?i + n mod 8 = n"
    using n by (auto simp: algebra_simps) 
  show "bit v n = bit w n"
    using bit_PutUint64 [OF i(1,2), of v] bit_PutUint64 [OF i(1,2), of w] eq i(3) by simp
qed

lemma unat_of_nat_64: "m < 2 ^ 64 \<Longrightarrow> unat (of_nat m :: 64 word) = m"
  by (simp add: unat_of_nat)

lemma of_nat_64_inject: "m < 2 ^ 64 \<Longrightarrow> n < 2 ^ 64 \<Longrightarrow> (of_nat m :: 64 word) = of_nat n \<Longrightarrow> m = n"
  by (metis unat_of_nat_64)

text \<open>A field: its big-endian length and its bytes.\<close>

definition enc_field :: "byte list \<Rightarrow> byte list" where
  "enc_field value = PutUint64 (of_nat (length value)) @ value"

lemma writeHashField_enc: "writeHashField d v = d @ enc_field v"
  by (simp add: writeHashField_def enc_field_def)

lemma enc_fields_inject:
  assumes "concat (map enc_field xs) = concat (map enc_field ys)"
    and "\<forall>x\<in>set xs. length x < 2 ^ 64" and "\<forall>y\<in>set ys. length y < 2 ^ 64"
  shows "xs = ys"
  using assms
proof (induction xs arbitrary: ys)
  case Nil
  then show ?case by (cases ys) (auto simp: enc_field_def PutUint64_def)
next
  case (Cons x xs)
  from Cons.prems(1) obtain y ys' where ys: "ys = y # ys'"
    by (cases ys) (auto simp: enc_field_def PutUint64_def)
  from Cons.prems(1) ys have "enc_field x @ concat (map enc_field xs) = enc_field y @ concat (map enc_field ys')"
    by simp
  then have eq: "PutUint64 (of_nat (length x)) @ x @ concat (map enc_field xs) =
         PutUint64 (of_nat (length y)) @ y @ concat (map enc_field ys')"
    unfolding enc_field_def [of x] enc_field_def [of y] by simp
  then have "PutUint64 (of_nat (length x)) = PutUint64 (of_nat (length y))"
    by (metis append_eq_append_conv length_PutUint64)
  then have "length x = length y"
    using Cons.prems(2,3) ys by (auto intro: of_nat_64_inject dest: PutUint64_inject)
  with eq have "x = y" "concat (map enc_field xs) = concat (map enc_field ys')"
    by simp_all
  with Cons.IH [of ys'] Cons.prems(2,3) ys show ?case by simp
qed

lemma foldl_dec_digits: "foldl (\<lambda>a c. 10 * a + (of_char c - 48)) 0 (dec_digits n) = n"
proof (induction n rule: dec_digits.induct)
  case (1 n)
  then show ?case by (subst dec_digits.simps) (auto simp: algebra_simps)
qed

lemma dec_digits_range: "c \<in> set (dec_digits n) \<Longrightarrow> 48 \<le> (of_char c :: nat) \<and> (of_char c :: nat) \<le> 57"
proof (induction n rule: dec_digits.induct)
  case (1 n)
  then show ?case by (subst (asm) (2) dec_digits.simps) (auto split: if_splits)
qed

lemma dec_digits_inject: "dec_digits m = dec_digits n \<Longrightarrow> m = n"
  by (metis foldl_dec_digits)

lemma dec_digits_not_minus: "dec_digits m \<noteq> CHR ''-'' # s"
  using dec_digits_range [of "CHR ''-''" m] by auto

lemma FormatInt_inject: "FormatInt v = FormatInt w \<Longrightarrow> v = w"
  by (auto simp: FormatInt_def dec_digits_not_minus dec_digits_not_minus [symmetric]
      dest!: dec_digits_inject split: if_splits)

definition header_fields :: "(string, string) go_map \<Rightarrow> string list \<Rightarrow> byte list list" where
  "header_fields headers names =
     concat (map (\<lambda>n. [bytes_of n, bytes_of (case map_of headers n of Some v \<Rightarrow> v | None \<Rightarrow> [])]) names)"

definition request_fields :: "HashInput \<Rightarrow> (string, string) go_map \<Rightarrow> byte list list" where
  "request_fields input headers =
     [bytes_of (hi_DestinationID input), bytes_of (FormatInt (hi_DestinationVersion input)),
      bytes_of (ToUpper (hi_Method input))] @
     header_fields headers (sort (map fst headers)) @ [hi_Body input]"

lemma write_headers_enc:
  "write_headers headers d names = d @ concat (map enc_field (header_fields headers names))"
  by (induction headers d names rule: write_headers.induct)
    (simp_all add: header_fields_def writeHashField_enc)

lemma hashed_bytes_enc: "hashed_bytes input headers = concat (map enc_field (request_fields input headers))"
  by (simp add: hashed_bytes_def request_fields_def writeHashField_enc write_headers_enc Let_def)

lemma header_fields_inject:
  "header_fields h1 ns = header_fields h2 ms \<Longrightarrow>
   ns = ms \<and> (\<forall>n\<in>set ns. (case map_of h1 n of Some v \<Rightarrow> v | None \<Rightarrow> []) = (case map_of h2 n of Some v \<Rightarrow> v | None \<Rightarrow> []))"
proof (induction ns arbitrary: ms)
  case Nil
  then show ?case by (cases ms) (auto simp: header_fields_def)
next
  case (Cons n ns)
  then obtain m ms' where ms: "ms = m # ms'" by (cases ms) (auto simp: header_fields_def)
  with Cons.prems have "n = m" "header_fields h1 ns = header_fields h2 ms'"
    "(case map_of h1 n of Some v \<Rightarrow> v | None \<Rightarrow> []) = (case map_of h2 m of Some v \<Rightarrow> v | None \<Rightarrow> [])"
    by (auto simp: header_fields_def)
  with Cons.IH [of ms'] ms show ?case by auto
qed

text \<open>Two requests are the same when the fields the documents name agree, the headers as maps.\<close>

definition same_request ::
  "HashInput \<Rightarrow> (string, string) go_map \<Rightarrow> HashInput \<Rightarrow> (string, string) go_map \<Rightarrow> bool" where
  "same_request a ha b hb \<longleftrightarrow>
     hi_DestinationID a = hi_DestinationID b \<and>
     hi_DestinationVersion a = hi_DestinationVersion b \<and>
     ToUpper (hi_Method a) = ToUpper (hi_Method b) \<and>
     map_of ha = map_of hb \<and> hi_Body a = hi_Body b"

lemma map_of_eq_from_values:
  assumes "set (map fst ha) = set (map fst hb)"
    and "\<forall>n\<in>set (map fst ha). (case map_of ha n of Some v \<Rightarrow> v | None \<Rightarrow> []) = (case map_of hb n of Some v \<Rightarrow> v | None \<Rightarrow> [])"
  shows "map_of ha = map_of hb"
proof
  fix n
  show "map_of ha n = map_of hb n"
  proof (cases "n \<in> set (map fst ha)")
    case True
    with assms(1) obtain v w where "map_of ha n = Some v" "map_of hb n = Some w"
      by (metis map_of_eq_None_iff list.set_map not_None_eq)
    with True assms(2) show ?thesis by fastforce
  next
    case False
    with assms(1) show ?thesis by (metis map_of_eq_None_iff list.set_map)
  qed
qed

lemma sorted_keys_eq:
  assumes "distinct (map fst ha)" "distinct (map fst hb)" "map_of ha = map_of hb"
  shows "sort (map fst ha) = sort (map fst hb)"
proof -
  have "set (map fst ha) = set (map fst hb)"
    using assms(3) by (metis dom_map_of_conv_image_fst list.set_map)
  then show ?thesis
    using assms(1,2) by (intro sorted_distinct_set_unique) simp_all
qed

lemma request_fields_eq_iff:
  assumes "distinct (map fst ha)" "distinct (map fst hb)"
  shows "request_fields a ha = request_fields b hb \<longleftrightarrow> same_request a ha b hb"
proof
  assume eq: "request_fields a ha = request_fields b hb"
  then have "header_fields ha (sort (map fst ha)) = header_fields hb (sort (map fst hb))"
    by (simp add: request_fields_def)
  from header_fields_inject [OF this]
  have "map_of ha = map_of hb"
    by (intro map_of_eq_from_values) (metis set_sort, simp)
  with eq show "same_request a ha b hb"
    by (auto simp: same_request_def request_fields_def dest!: FormatInt_inject)
next
  assume same: "same_request a ha b hb"
  then have "sort (map fst ha) = sort (map fst hb)"
    using assms by (intro sorted_keys_eq) (simp_all add: same_request_def)
  with same show "request_fields a ha = request_fields b hb"
    by (simp add: same_request_def request_fields_def header_fields_def)
qed

lemma hashed_bytes_eq_iff:
  assumes "distinct (map fst ha)" "distinct (map fst hb)"
    and "\<forall>f\<in>set (request_fields a ha). length f < 2 ^ 64" "\<forall>f\<in>set (request_fields b hb). length f < 2 ^ 64"
  shows "hashed_bytes a ha = hashed_bytes b hb \<longleftrightarrow> same_request a ha b hb"
  using enc_fields_inject [OF _ assms(3,4)] request_fields_eq_iff [OF assms(1,2)]
  by (metis hashed_bytes_enc)

section \<open>Properties\<close>

text \<open>Canonicalisation does not depend on the order in which Go iterates the header map: if
  one iteration order yields the canonical headers \<open>h\<close>, every other order succeeds too and
  yields the same map (so the request hash and the stored headers are well defined).\<close>

theorem canonical_headers_order_independent:
  assumes "mset m = mset m'" and "CanonicalCallerHeaders m = Inr h"
  shows "\<exists>h'. CanonicalCallerHeaders m' = Inr h' \<and> map_of h' = map_of h"
proof -
  from assms(2) have m: "list_all header_entry_ok m" "distinct (map (canonical_name \<circ> fst) m)"
    and h: "h = map canonical_entry m" by (simp_all add: CanonicalCallerHeaders_Inr_iff)
  let ?h' = "map canonical_entry m'"
  have "list_all header_entry_ok m'" "distinct (map (canonical_name \<circ> fst) m')"
    using m assms(1) by (metis list_all_iff set_mset_mset, metis mset_eq_imp_distinct_iff mset_map)
  then have ok: "CanonicalCallerHeaders m' = Inr ?h'" by (simp add: CanonicalCallerHeaders_Inr_iff)
  have "mset h = mset ?h'" using assms(1) by (simp add: h)
  then have "map_of h = map_of ?h'"
    using CanonicalCallerHeaders_keys(1) [OF assms(2)] CanonicalCallerHeaders_keys(1) [OF ok]
    by (metis map_of_inject_set set_mset_mset)
  with ok show ?thesis by auto
qed

theorem canonical_headers_order_independent_witness:
  "\<exists>h'. CanonicalCallerHeaders [(''X-Event'', ''b''), ('' Content-Type '', '' text '')] = Inr h' \<and>
     map_of h' = map_of [(''content-type'', ''text''), (''x-event'', ''b'')]"
proof (rule canonical_headers_order_independent)
  show "mset [('' Content-Type '', '' text ''), (''X-Event'', ''b'')] =
    mset [(''X-Event'', ''b''), ('' Content-Type '', '' text '')]" by simp
  show "CanonicalCallerHeaders [('' Content-Type '', '' text ''), (''X-Event'', ''b'')] =
    Inr [(''content-type'', ''text''), (''x-event'', ''b'')]" by code_simp
qed

text \<open>Canonical headers are a fixed point of canonicalisation: canonicalising what was
  stored (as \<open>RequestHash\<close> does on the headers \<open>submit\<close> already canonicalised) changes nothing,
  their names are pairwise distinct, lower case, trimmed HTTP tokens.\<close>

theorem canonical_headers_normal_form:
  assumes "CanonicalCallerHeaders m = Inr h"
  shows "CanonicalCallerHeaders h = Inr h \<and> distinct (map fst h) \<and>
     list_all (\<lambda>n. validHeaderName n \<and> ToLower n = n \<and> TrimSpace n = n) (map fst h)"
  using CanonicalCallerHeaders_fix [OF assms] CanonicalCallerHeaders_keys [OF assms]
  by (simp add: list_all_iff)

theorem canonical_headers_normal_form_witness:
  "CanonicalCallerHeaders [(''content-type'', ''text'')] = Inr [(''content-type'', ''text'')]"
proof -
  have "CanonicalCallerHeaders [('' Content-Type '', '' text '')] = Inr [(''content-type'', ''text'')]"
    by code_simp
  from canonical_headers_normal_form [OF this] show ?thesis by blast
qed

text \<open>C19. The request hash identifies the request: unless SHA-256 collides on the two encoded
  requests, two submissions hash alike exactly when destination, version, upper-cased method,
  canonical headers (as a map) and body agree. The encoding is therefore unambiguous although
  it records neither the number of headers nor their order.\<close>

theorem request_hash_identifies_request:
  assumes "CanonicalCallerHeaders (hi_CallerHeaders a) = Inr ha"
    and "CanonicalCallerHeaders (hi_CallerHeaders b) = Inr hb"
    and "\<forall>f\<in>set (request_fields a ha). length f < 2 ^ 64" "\<forall>f\<in>set (request_fields b hb). length f < 2 ^ 64"
    and no_collision: "sha256 (hashed_bytes a ha) = sha256 (hashed_bytes b hb) \<Longrightarrow>
      hashed_bytes a ha = hashed_bytes b hb"
  shows "RequestHash sha256 a = RequestHash sha256 b \<longleftrightarrow> same_request a ha b hb"
proof -
  have "hashed_bytes a ha = hashed_bytes b hb \<longleftrightarrow> same_request a ha b hb"
    using assms(1-4) by (intro hashed_bytes_eq_iff CanonicalCallerHeaders_keys(1))
  with no_collision show ?thesis
    by (auto simp: RequestHash_def assms(1,2))
qed

theorem request_hash_identifies_request_witness:
  "RequestHash (\<lambda>x. x) \<lparr>hi_DestinationID = ''a'', hi_DestinationVersion = 1, hi_Method = ''post'',
      hi_CallerHeaders = [('' X-A'', ''v '')], hi_Body = [1]\<rparr> =
   RequestHash (\<lambda>x. x) \<lparr>hi_DestinationID = ''a'', hi_DestinationVersion = 1, hi_Method = ''POST'',
      hi_CallerHeaders = [(''x-a'', ''v'')], hi_Body = [1]\<rparr>"
proof (rule iffD2 [OF request_hash_identifies_request])
  have up: "ToUpper ''post'' = ''POST''" "ToUpper ''POST'' = ''POST''" by code_simp+
  show "CanonicalCallerHeaders (hi_CallerHeaders \<lparr>hi_DestinationID = ''a'', hi_DestinationVersion = 1,
      hi_Method = ''post'', hi_CallerHeaders = [('' X-A'', ''v '')], hi_Body = [1]\<rparr>) = Inr [(''x-a'', ''v'')]"
    by code_simp
  show "CanonicalCallerHeaders (hi_CallerHeaders \<lparr>hi_DestinationID = ''a'', hi_DestinationVersion = 1,
      hi_Method = ''POST'', hi_CallerHeaders = [(''x-a'', ''v'')], hi_Body = [1]\<rparr>) = Inr [(''x-a'', ''v'')]"
    by code_simp
  show "same_request \<lparr>hi_DestinationID = ''a'', hi_DestinationVersion = 1, hi_Method = ''post'',
        hi_CallerHeaders = [('' X-A'', ''v '')], hi_Body = [1]\<rparr> [(''x-a'', ''v'')]
      \<lparr>hi_DestinationID = ''a'', hi_DestinationVersion = 1, hi_Method = ''POST'',
        hi_CallerHeaders = [(''x-a'', ''v'')], hi_Body = [1]\<rparr> [(''x-a'', ''v'')]"
    by (simp add: same_request_def up)
qed (auto simp: request_fields_def header_fields_def FormatInt_def dec_digits.simps ToUpper_def)

end
