(* ===== verification/Ip_Policy.thy ===== *)
theory Ip_Policy
  imports Notifier_Prelude
begin

text \<open>
  The address policy of outbound requests (\<open>forbidden\<close> and \<open>forbiddenPrefixes\<close> of
  \<open>internal/outbound/client.go\<close>) with the parts of \<open>net/netip\<close> it uses. A \<open>net.IP\<close> is its byte
  slice; a \<open>netip.Addr\<close> without zone is a 32 or 128 bit word. The main results: an IPv4 address
  is forbidden exactly when its octets are in one of the special-purpose blocks, and an
  IPv4-mapped IPv6 address is treated as the IPv4 address it carries.
\<close>

unbundle bit_operations_syntax

section \<open>Addresses and prefixes\<close>

datatype netip_addr = Addr4 "32 word" | Addr6 "128 word"

definition be_nat :: "byte list \<Rightarrow> nat" where
  "be_nat bytes = foldl (\<lambda>a b. a * 256 + unat b) 0 bytes"

definition AddrFromSlice :: "byte list \<Rightarrow> netip_addr option" where
  "AddrFromSlice bytes =
     (if length bytes = 4 then Some (Addr4 (of_nat (be_nat bytes)))
      else if length bytes = 16 then Some (Addr6 (of_nat (be_nat bytes)))
      else None)"

fun Unmap :: "netip_addr \<Rightarrow> netip_addr" where
  "Unmap (Addr4 w) = Addr4 w"
| "Unmap (Addr6 w) = (if drop_bit 32 w = 0xffff then Addr4 (ucast w) else Addr6 w)"

text \<open>A prefix: an address of the family and the number of leading bits that count.\<close>

datatype netip_prefix = Prefix4 "32 word" nat | Prefix6 "128 word" nat

fun prefix_contains :: "netip_prefix \<Rightarrow> netip_addr \<Rightarrow> bool" where
  "prefix_contains (Prefix4 p n) (Addr4 w) = (drop_bit (32 - n) w = drop_bit (32 - n) p)"
| "prefix_contains (Prefix6 p n) (Addr6 w) = (drop_bit (128 - n) w = drop_bit (128 - n) p)"
| "prefix_contains _ _ = False"

text \<open>Dotted and hextet notation.\<close>

definition v4 :: "nat \<Rightarrow> nat \<Rightarrow> nat \<Rightarrow> nat \<Rightarrow> 32 word" where
  "v4 a b c d = of_nat (((a * 256 + b) * 256 + c) * 256 + d)"

definition v6 :: "nat \<Rightarrow> nat \<Rightarrow> nat \<Rightarrow> 128 word" where
  "v6 a b c = of_nat (((a * 65536 + b) * 65536 + c) * 2 ^ 80)"

definition IsLoopback :: "netip_addr \<Rightarrow> bool" where
  "IsLoopback a = (case a of Addr4 w \<Rightarrow> prefix_contains (Prefix4 (v4 127 0 0 0) 8) a | Addr6 w \<Rightarrow> w = 1)"

definition IsMulticast :: "netip_addr \<Rightarrow> bool" where
  "IsMulticast a = (case a of Addr4 w \<Rightarrow> prefix_contains (Prefix4 (v4 224 0 0 0) 4) a
     | Addr6 w \<Rightarrow> prefix_contains (Prefix6 (v6 0xff00 0 0) 8) a)"

definition IsLinkLocalUnicast :: "netip_addr \<Rightarrow> bool" where
  "IsLinkLocalUnicast a = (case a of Addr4 w \<Rightarrow> prefix_contains (Prefix4 (v4 169 254 0 0) 16) a
     | Addr6 w \<Rightarrow> prefix_contains (Prefix6 (v6 0xfe80 0 0) 10) a)"

definition IsPrivate :: "netip_addr \<Rightarrow> bool" where
  "IsPrivate a = (case a of
       Addr4 w \<Rightarrow> prefix_contains (Prefix4 (v4 10 0 0 0) 8) a \<or> prefix_contains (Prefix4 (v4 172 16 0 0) 12) a \<or>
         prefix_contains (Prefix4 (v4 192 168 0 0) 16) a
     | Addr6 w \<Rightarrow> prefix_contains (Prefix6 (v6 0xfc00 0 0) 7) a)"

definition IsUnspecified :: "netip_addr \<Rightarrow> bool" where
  "IsUnspecified a = (case a of Addr4 w \<Rightarrow> w = 0 | Addr6 w \<Rightarrow> w = 0)"

definition IsGlobalUnicast :: "netip_addr \<Rightarrow> bool" where
  "IsGlobalUnicast a \<longleftrightarrow>
     (case a of Addr4 w \<Rightarrow> w \<noteq> 0 \<and> w \<noteq> v4 255 255 255 255 | Addr6 w \<Rightarrow> w \<noteq> 0) \<and>
     \<not> IsLoopback a \<and> \<not> IsMulticast a \<and> \<not> IsLinkLocalUnicast a"

section \<open>The policy\<close>

definition forbiddenPrefixes :: "netip_prefix list" where
  "forbiddenPrefixes =
     [Prefix4 (v4 0 0 0 0) 8,
      Prefix4 (v4 100 64 0 0) 10,
      Prefix4 (v4 192 0 0 0) 24,
      Prefix4 (v4 192 0 2 0) 24,
      Prefix4 (v4 192 88 99 0) 24,
      Prefix4 (v4 192 31 196 0) 24,
      Prefix4 (v4 192 175 48 0) 24,
      Prefix4 (v4 198 18 0 0) 15,
      Prefix4 (v4 198 51 100 0) 24,
      Prefix4 (v4 203 0 113 0) 24,
      Prefix4 (v4 240 0 0 0) 4,
      Prefix6 (v6 0x64 0xff9b 0) 96,
      Prefix6 (v6 0x64 0xff9b 1) 48,
      Prefix6 (v6 0x100 0 0) 64,
      Prefix6 (v6 0x2001 0 0) 23,
      Prefix6 (v6 0x2001 0xdb8 0) 32,
      Prefix6 (v6 0x2002 0 0) 16,
      Prefix6 (v6 0x2620 0x4f 0x8000) 48,
      Prefix6 (v6 0x3fff 0 0) 20,
      Prefix6 (v6 0x5f00 0 0) 16]"

definition forbidden :: "byte list \<Rightarrow> bool" where
  "forbidden address =
     (case AddrFromSlice address of
        None \<Rightarrow> True
      | Some parsed0 \<Rightarrow>
          let parsed = Unmap parsed0 in
          if \<not> IsGlobalUnicast parsed \<or> IsPrivate parsed \<or> IsLoopback parsed \<or> IsLinkLocalUnicast parsed \<or>
             IsMulticast parsed \<or> IsUnspecified parsed
          then True
          else list_ex (\<lambda>prefix. prefix_contains prefix parsed) forbiddenPrefixes)"

section \<open>Words as octets\<close>

lemma be_nat_simps [simp]: "be_nat [] = 0" "be_nat (xs @ [b]) = be_nat xs * 256 + unat b"
  by (simp_all add: be_nat_def)

lemma be_nat_4: "be_nat [a, b, c, d] = ((unat a * 256 + unat b) * 256 + unat c) * 256 + unat d"
  by (simp add: be_nat_def)

lemma unat_byte [simp]: "unat (b :: byte) < 256"
  using unsigned_less [of b] by simp

lemma be_nat_less: "be_nat bytes < 256 ^ length bytes"
proof (induction bytes rule: rev_induct)
  case (snoc b bytes)
  have "be_nat bytes * 256 + unat b < be_nat bytes * 256 + 256" using unat_byte by simp
  also have "\<dots> = (be_nat bytes + 1) * 256" by simp
  also have "\<dots> \<le> 256 ^ length bytes * 256" using snoc by (intro mult_right_mono) simp_all
  finally show ?case by (simp add: mult.commute)
qed simp

text \<open>Octets as naturals below 256, so that membership in a prefix is integer division.\<close>

abbreviation octets :: "nat \<Rightarrow> nat \<Rightarrow> nat \<Rightarrow> nat \<Rightarrow> bool" where
  "octets a b c d \<equiv> a < 256 \<and> b < 256 \<and> c < 256 \<and> d < 256"

abbreviation dotted :: "nat \<Rightarrow> nat \<Rightarrow> nat \<Rightarrow> nat \<Rightarrow> nat" where
  "dotted a b c d \<equiv> ((a * 256 + b) * 256 + c) * 256 + d"

lemma dotted_less: "octets a b c d \<Longrightarrow> dotted a b c d < 4294967296"
  by auto

lemma digit_step:
  assumes "x < k" "y < k"
  shows "a * k + x = p * k + y \<longleftrightarrow> a = p \<and> x = (y :: nat)"
proof
  assume e: "a * k + x = p * k + y"
  have "(a * k + x) div k = a" "(p * k + y) div k = p" using assms by simp_all
  with e show "a = p \<and> x = y" by simp
qed simp

lemmas octet_step = digit_step [where k = 256]

lemma unat_v4: "octets a b c d \<Longrightarrow> unat (v4 a b c d) = dotted a b c d"
  unfolding v4_def unat_of_nat using dotted_less [of a b c d] by (simp add: mod_less)

lemma v4_eq_iff:
  assumes "octets a b c d" "octets p q r s"
  shows "v4 a b c d = v4 p q r s \<longleftrightarrow> a = p \<and> b = q \<and> c = r \<and> d = s"
proof
  assume "v4 a b c d = v4 p q r s"
  then have "dotted a b c d = dotted p q r s" using unat_v4 assms by metis
  with assms show "a = p \<and> b = q \<and> c = r \<and> d = s" by (simp only: octet_step)
qed simp

lemma v4_zero_iff: "octets a b c d \<Longrightarrow> v4 a b c d = 0 \<longleftrightarrow> a = 0 \<and> b = 0 \<and> c = 0 \<and> d = 0"
  using v4_eq_iff [of a b c d 0 0 0 0] by (simp add: v4_def)

lemma prefix4_contains_iff:
  assumes "octets a b c d" "octets p q r s"
  shows "prefix_contains (Prefix4 (v4 p q r s) n) (Addr4 (v4 a b c d)) \<longleftrightarrow>
    dotted a b c d div 2 ^ (32 - n) = dotted p q r s div 2 ^ (32 - n)"
proof -
  have "unat (drop_bit (32 - n) w) = unat w div 2 ^ (32 - n)" for w :: "32 word"
    unfolding unat_drop_bit_eq by (rule drop_bit_eq_div)
  then show ?thesis
    using assms by (simp add: word_unat_eq_iff unat_v4)
qed

lemma octet_div: "b < 256 \<Longrightarrow> (a * 256 + b) div 256 = (a :: nat)"
  by simp

lemma div_eq_range: "0 < k \<Longrightarrow> x div k = q \<longleftrightarrow> k * q \<le> x \<and> x < k * q + (k :: nat)"
  using times_div_less_eq_dividend [of k x] dividend_less_times_div [of k x] div_nat_eqI [of k q x] by auto

lemma div_div_nat: "k * l = m \<Longrightarrow> x div m = x div k div (l :: nat)"
  by (simp add: div_mult2_eq [symmetric])

text \<open>Membership of the prefix lengths the policy uses, in octets.\<close>

lemma prefix4_octets:
  assumes o: "octets a b c d"
  shows prefix4_4: "p < 16 \<Longrightarrow> prefix_contains (Prefix4 (v4 (16 * p) 0 0 0) 4) (Addr4 (v4 a b c d)) \<longleftrightarrow> a div 16 = p"
    and prefix4_8: "p < 256 \<Longrightarrow> prefix_contains (Prefix4 (v4 p 0 0 0) 8) (Addr4 (v4 a b c d)) \<longleftrightarrow> a = p"
    and prefix4_10: "p < 256 \<Longrightarrow> q < 4 \<Longrightarrow>
      prefix_contains (Prefix4 (v4 p (64 * q) 0 0) 10) (Addr4 (v4 a b c d)) \<longleftrightarrow> a = p \<and> b div 64 = q"
    and prefix4_12: "p < 256 \<Longrightarrow> q < 16 \<Longrightarrow>
      prefix_contains (Prefix4 (v4 p (16 * q) 0 0) 12) (Addr4 (v4 a b c d)) \<longleftrightarrow> a = p \<and> b div 16 = q"
    and prefix4_15: "p < 256 \<Longrightarrow> q < 128 \<Longrightarrow>
      prefix_contains (Prefix4 (v4 p (2 * q) 0 0) 15) (Addr4 (v4 a b c d)) \<longleftrightarrow> a = p \<and> b div 2 = q"
    and prefix4_16: "p < 256 \<Longrightarrow> q < 256 \<Longrightarrow>
      prefix_contains (Prefix4 (v4 p q 0 0) 16) (Addr4 (v4 a b c d)) \<longleftrightarrow> a = p \<and> b = q"
    and prefix4_24: "p < 256 \<Longrightarrow> q < 256 \<Longrightarrow> r < 256 \<Longrightarrow>
      prefix_contains (Prefix4 (v4 p q r 0) 24) (Addr4 (v4 a b c d)) \<longleftrightarrow> a = p \<and> b = q \<and> c = r"
proof -
  have d8: "dotted a b c d div 256 = (a * 256 + b) * 256 + c" using o by (simp only: octet_div)
  have d16: "dotted a b c d div 65536 = a * 256 + b"
    using o d8 div_div_nat [of 256 256 65536 "dotted a b c d"] octet_div [of c "a * 256 + b"] by simp
  have d24: "dotted a b c d div 16777216 = a"
    using o d16 div_div_nat [of 65536 256 16777216 "dotted a b c d"] octet_div [of b a] by simp
  have d17: "dotted a b c d div 131072 = a * 128 + b div 2"
    using d16 div_div_nat [of 65536 2 131072 "dotted a b c d"] by simp
  have d20: "dotted a b c d div 1048576 = a * 16 + b div 16"
    using d16 div_div_nat [of 65536 16 1048576 "dotted a b c d"] by simp
  have d22: "dotted a b c d div 4194304 = a * 4 + b div 64"
    using d16 div_div_nat [of 65536 64 4194304 "dotted a b c d"] by simp
  have d28: "dotted a b c d div 268435456 = a div 16"
    using d24 div_div_nat [of 16777216 16 268435456 "dotted a b c d"] by simp
  have bb: "b div 64 < 4" "b div 16 < 16" "b div 2 < 128" using o by linarith+
  note prefix = prefix4_contains_iff [OF o]
  show "p < 16 \<Longrightarrow> prefix_contains (Prefix4 (v4 (16 * p) 0 0 0) 4) (Addr4 (v4 a b c d)) \<longleftrightarrow> a div 16 = p"
    using d28 by (subst prefix) simp_all
  show "p < 256 \<Longrightarrow> prefix_contains (Prefix4 (v4 p 0 0 0) 8) (Addr4 (v4 a b c d)) \<longleftrightarrow> a = p"
    using d24 by (subst prefix) simp_all
  show "prefix_contains (Prefix4 (v4 p (64 * q) 0 0) 10) (Addr4 (v4 a b c d)) \<longleftrightarrow> a = p \<and> b div 64 = q"
    if "p < 256" "q < 4"
    using that o d22 bb digit_step [of "b div 64" 4 q a p] by (subst prefix) (simp_all add: mult.commute)
  show "prefix_contains (Prefix4 (v4 p (16 * q) 0 0) 12) (Addr4 (v4 a b c d)) \<longleftrightarrow> a = p \<and> b div 16 = q"
    if "p < 256" "q < 16"
    using that o d20 bb digit_step [of "b div 16" 16 q a p] by (subst prefix) (simp_all add: mult.commute)
  show "prefix_contains (Prefix4 (v4 p (2 * q) 0 0) 15) (Addr4 (v4 a b c d)) \<longleftrightarrow> a = p \<and> b div 2 = q"
    if "p < 256" "q < 128"
    using that o d17 bb digit_step [of "b div 2" 128 q a p] by (subst prefix) (simp_all add: mult.commute)
  show "prefix_contains (Prefix4 (v4 p q 0 0) 16) (Addr4 (v4 a b c d)) \<longleftrightarrow> a = p \<and> b = q"
    if "p < 256" "q < 256"
    using that o d16 octet_step [of b q a p] by (subst prefix) (simp_all add: mult.commute)
  show "prefix_contains (Prefix4 (v4 p q r 0) 24) (Addr4 (v4 a b c d)) \<longleftrightarrow> a = p \<and> b = q \<and> c = r"
    if "p < 256" "q < 256" "r < 256"
    using that o d8 octet_step [of b q a p] octet_step [of c r "a * 256 + b" "p * 256 + q"]
    by (subst prefix) (simp_all add: mult.commute)
qed

section \<open>What the policy refuses\<close>

text \<open>The IPv4 blocks that are not part of the public internet, in octets.\<close>

definition special_purpose_v4 :: "nat \<Rightarrow> nat \<Rightarrow> nat \<Rightarrow> bool" where
  "special_purpose_v4 a b c \<longleftrightarrow>
     a = 0 \<or> a = 10 \<or> a = 127 \<or> 224 \<le> a \<or>
     a = 100 \<and> 64 \<le> b \<and> b \<le> 127 \<or> a = 169 \<and> b = 254 \<or> a = 172 \<and> 16 \<le> b \<and> b \<le> 31 \<or>
     a = 192 \<and> (b = 168 \<or> b = 0 \<and> (c = 0 \<or> c = 2) \<or> b = 88 \<and> c = 99 \<or> b = 31 \<and> c = 196 \<or> b = 175 \<and> c = 48) \<or>
     a = 198 \<and> (b = 18 \<or> b = 19 \<or> b = 51 \<and> c = 100) \<or> a = 203 \<and> b = 0 \<and> c = 113"

definition forbidden_addr :: "netip_addr \<Rightarrow> bool" where
  "forbidden_addr parsed \<longleftrightarrow>
     \<not> IsGlobalUnicast parsed \<or> IsPrivate parsed \<or> IsLoopback parsed \<or> IsLinkLocalUnicast parsed \<or>
     IsMulticast parsed \<or> IsUnspecified parsed \<or>
     list_ex (\<lambda>prefix. prefix_contains prefix parsed) forbiddenPrefixes"

lemma forbidden_alt:
  "forbidden address = (case AddrFromSlice address of None \<Rightarrow> True | Some a \<Rightarrow> forbidden_addr (Unmap a))"
  by (auto simp: forbidden_def forbidden_addr_def Let_def split: option.split)

lemma forbidden_addr_v4:
  assumes o: "octets a b c d"
  shows "forbidden_addr (Addr4 (v4 a b c d)) = special_purpose_v4 a b c"
proof -
  note p8 = prefix4_8 [OF o] and p16 = prefix4_16 [OF o] and p24 = prefix4_24 [OF o]
  note p4 = prefix4_4 [OF o, of 14] prefix4_4 [OF o, of 15] and p10 = prefix4_10 [OF o, of 100 1]
    and p12 = prefix4_12 [OF o, of 172 1] and p15 = prefix4_15 [OF o, of 198 9]
  have a16: "a div 16 = 14 \<or> a div 16 = 15 \<longleftrightarrow> 224 \<le> a"
    using o unfolding div_eq_range [of 16 a, simplified] by linarith
  have b64: "b div 64 = 1 \<longleftrightarrow> 64 \<le> b \<and> b \<le> 127" unfolding div_eq_range [of 64 b, simplified] by linarith
  have b16: "b div 16 = 1 \<longleftrightarrow> 16 \<le> b \<and> b \<le> 31" unfolding div_eq_range [of 16 b, simplified] by linarith
  have b2: "b div 2 = 9 \<longleftrightarrow> b = 18 \<or> b = 19" unfolding div_eq_range [of 2 b, simplified] by linarith
  have "forbidden_addr (Addr4 (v4 a b c d)) \<longleftrightarrow>
     (a = 0 \<and> b = 0 \<and> c = 0 \<and> d = 0) \<or> (a = 255 \<and> b = 255 \<and> c = 255 \<and> d = 255) \<or>
     a = 127 \<or> (a div 16 = 14 \<or> a div 16 = 15) \<or> (a = 169 \<and> b = 254) \<or>
     a = 10 \<or> (a = 172 \<and> b div 16 = 1) \<or> (a = 192 \<and> b = 168) \<or> a = 0 \<or> (a = 100 \<and> b div 64 = 1) \<or>
     (a = 192 \<and> b = 0 \<and> c = 0) \<or> (a = 192 \<and> b = 0 \<and> c = 2) \<or> (a = 192 \<and> b = 88 \<and> c = 99) \<or>
     (a = 192 \<and> b = 31 \<and> c = 196) \<or> (a = 192 \<and> b = 175 \<and> c = 48) \<or> (a = 198 \<and> b div 2 = 9) \<or>
     (a = 198 \<and> b = 51 \<and> c = 100) \<or> (a = 203 \<and> b = 0 \<and> c = 113)"
    unfolding forbidden_addr_def IsGlobalUnicast_def IsPrivate_def IsLoopback_def IsLinkLocalUnicast_def
      IsMulticast_def IsUnspecified_def forbiddenPrefixes_def
    using p4 p10 p12 p15 v4_zero_iff [OF o] v4_eq_iff [OF o, of 255 255 255 255] 
    by (simp add: p8 p16 p24 del: prefix_contains.simps(1,2)) (rule iffI; elim disjE conjE; simp)
  then show ?thesis unfolding a16 b64 b16 b2 special_purpose_v4_def
    by (rule ssubst) (rule iffI; elim disjE conjE; simp)
qed

lemma forbidden_v4:
  "forbidden [a, b, c, d] = special_purpose_v4 (unat a) (unat b) (unat c)"
proof -
  have "of_nat (be_nat [a, b, c, d]) = v4 (unat a) (unat b) (unat c) (unat d)"
    by (simp add: be_nat_4 v4_def)
  then show ?thesis
    using forbidden_addr_v4 [of "unat a" "unat b" "unat c" "unat d"]
    by (simp add: forbidden_alt AddrFromSlice_def)
qed

text \<open>C24. The address policy on IPv4 is exactly the reference table: whatever the order and
  overlap of the tests in the code, an IPv4 address is refused if and only if its octets lie in
  one of the special-purpose blocks (this network, private, shared, loopback, link local,
  documentation, benchmarking, relay, multicast, reserved, broadcast).\<close>

theorem forbidden_ipv4_exact:
  "forbidden [a, b, c, d] = special_purpose_v4 (unat a) (unat b) (unat c)"
  by (rule forbidden_v4)

lemma be_nat_append: "be_nat (xs @ ys) = be_nat xs * 256 ^ length ys + be_nat ys"
proof (induction ys rule: rev_induct)
  case (snoc y ys)
  have "be_nat ((xs @ ys) @ [y]) = be_nat (xs @ ys) * 256 + unat y" by (rule be_nat_simps)
  with snoc show ?case by (simp add: distrib_right mult.assoc mult.commute)
qed simp

lemma be_nat_zeros: "be_nat (replicate n 0 @ xs) = be_nat xs"
  by (induction n) (simp_all add: be_nat_def)

lemma mapped_word:
  assumes "length a = 4"
  shows "Unmap (Addr6 (of_nat (be_nat (replicate 10 0 @ [0xff, 0xff] @ a)))) = Addr4 (of_nat (be_nat a))"
proof -
  let ?x = "be_nat (replicate 10 0 @ [0xff, 0xff] @ a)"
  have small: "be_nat a < 2 ^ 32" using be_nat_less [of a] unfolding assms by simp
  have "be_nat (replicate 10 0 @ [0xff, 0xff]) = 0xffff"
    unfolding be_nat_zeros by (simp add: be_nat_def)
  then have x: "?x = 0xffff * 2 ^ 32 + be_nat a"
    using be_nat_append [of "replicate 10 0 @ [0xff, 0xff]" a] assms by simp
  then have u: "unat (of_nat ?x :: 128 word) = ?x" unfolding unat_of_nat x using small by (simp add: mod_less)
  have "unat (drop_bit 32 (of_nat ?x :: 128 word)) = 0xffff"
    unfolding unat_drop_bit_eq u using x small by (simp add: drop_bit_eq_div)
  then have d: "drop_bit 32 (of_nat ?x :: 128 word) = 0xffff" by (simp add: word_unat_eq_iff)
  have "unat (ucast (of_nat ?x :: 128 word) :: 32 word) = be_nat a"
    unfolding unsigned_ucast_eq u using mod_mult_self3 [of 65535 "2 ^ 32" "be_nat a"] x small
    by (simp add: take_bit_eq_mod)
  then have "ucast (of_nat ?x :: 128 word) = (of_nat (be_nat a) :: 32 word)"
    using small by (simp add: word_unat_eq_iff unat_of_nat)
  with d show ?thesis by simp
qed

text \<open>An IPv4-mapped IPv6 address (::ffff:a.b.c.d) is judged as the IPv4 address it
  carries, so the policy cannot be passed by writing a private address in sixteen bytes.\<close>

theorem forbidden_mapped_equivalent:
  assumes "length a = 4"
  shows "forbidden (replicate 10 0 @ [0xff, 0xff] @ a) = forbidden a"
  using assms mapped_word [OF assms] by (simp add: forbidden_alt AddrFromSlice_def)

theorem forbidden_mapped_equivalent_witness:
  "forbidden (replicate 10 0 @ [0xff, 0xff] @ [169, 254, 169, 254]) \<and>
   \<not> forbidden (replicate 10 0 @ [0xff, 0xff] @ [93, 184, 216, 34])"
  using forbidden_mapped_equivalent [of "[169, 254, 169, 254]"] forbidden_mapped_equivalent [of "[93, 184, 216, 34]"]
  by (simp add: forbidden_def AddrFromSlice_def be_nat_def Let_def IsGlobalUnicast_def IsPrivate_def IsLoopback_def
      IsLinkLocalUnicast_def IsMulticast_def IsUnspecified_def forbiddenPrefixes_def v4_def)

end
