(* ===== verification/Go_Net.thy ===== *)
theory Go_Net
  imports Notifier_Prelude
begin

text \<open>
  The parts of the Go standard library that the outbound client, the Worker and the API call on
  text: \<open>strconv.ParseInt\<close> and \<open>Atoi\<close> in base 10, \<open>url.ParseRequestURI\<close> with \<open>Hostname\<close> and
  \<open>Port\<close>, \<open>net.SplitHostPort\<close>, and header maps with canonical keys. IP literals in brackets are
  the parameter \<open>ip_literal\<close>: \<open>netip.ParseAddr\<close> decides which of them are addresses.
\<close>

section \<open>Numbers\<close>

definition is_digit :: "char \<Rightarrow> bool" where
  "is_digit c \<longleftrightarrow> (let n = (of_char c :: nat) in 48 \<le> n \<and> n \<le> 57)"

definition digits_value :: "string \<Rightarrow> int" where
  "digits_value s = foldl (\<lambda>v c. v * 10 + int (of_char c - 48)) 0 s"

text \<open>\<open>strconv.ParseInt(s, 10, 64)\<close> and \<open>strconv.Atoi\<close>: an optional sign, at least one digit, and the value
  within 64 bits.\<close>

definition ParseInt :: "string \<Rightarrow> int option" where
  "ParseInt s =
     (let signed = (s \<noteq> [] \<and> (hd s = CHR ''-'' \<or> hd s = CHR ''+''));
          ds = (if signed then tl s else s);
          v = (if signed \<and> hd s = CHR ''-'' then - digits_value ds else digits_value ds)
      in if ds = [] \<or> \<not> list_all is_digit ds \<or> v < - (2 ^ 63) \<or> 2 ^ 63 \<le> v then None else Some v)"

lemma digits_value_nonneg: "list_all is_digit s \<Longrightarrow> 0 \<le> digits_value s"
proof (induction s rule: rev_induct)
  case (snoc c s)
  then show ?case by (auto simp: digits_value_def is_digit_def Let_def)
qed (simp add: digits_value_def)

section \<open>Splitting strings\<close>

definition contains_char :: "char \<Rightarrow> string \<Rightarrow> bool" where
  "contains_char c s \<longleftrightarrow> c \<in> set s"

text \<open>\<open>strings.Cut\<close> at the first, and the split at the last, occurrence of a byte: the parts before and
  after it, or none when it does not occur.\<close>

definition cut_first :: "char \<Rightarrow> string \<Rightarrow> (string \<times> string) option" where
  "cut_first c s = (if c \<in> set s then Some (takeWhile (\<lambda>x. x \<noteq> c) s, tl (dropWhile (\<lambda>x. x \<noteq> c) s)) else None)"

definition cut_last :: "char \<Rightarrow> string \<Rightarrow> (string \<times> string) option" where
  "cut_last c s =
     (case cut_first c (rev s) of None \<Rightarrow> None | Some (back, front) \<Rightarrow> Some (rev front, rev back))"

lemma cut_first_Some: "cut_first c s = Some (a, b) \<Longrightarrow> s = a @ c # b \<and> c \<notin> set a"
proof -
  assume "cut_first c s = Some (a, b)"
  then have c: "c \<in> set s" and a: "a = takeWhile (\<lambda>x. x \<noteq> c) s" and b: "b = tl (dropWhile (\<lambda>x. x \<noteq> c) s)"
    by (auto simp: cut_first_def split: if_splits)
  from c have ne: "dropWhile (\<lambda>x. x \<noteq> c) s \<noteq> []" by (auto simp: dropWhile_eq_Nil_conv)
  from hd_dropWhile [OF ne] have "hd (dropWhile (\<lambda>x. x \<noteq> c) s) = c" by simp
  with ne b have "dropWhile (\<lambda>x. x \<noteq> c) s = c # b" by (metis list.collapse)
  with a show ?thesis by (metis takeWhile_dropWhile_id set_takeWhileD)
qed

lemma cut_last_Some: "cut_last c s = Some (a, b) \<Longrightarrow> s = a @ c # b \<and> c \<notin> set b"
  by (auto simp: cut_last_def split: option.splits dest!: cut_first_Some) (metis append.assoc append_Cons append_Nil rev.simps(2) rev_append rev_rev_ident)

section \<open>URLs\<close>

record url =
  u_Scheme :: string
  u_Opaque :: string
  u_User :: bool
  u_Host :: string
  u_Path :: string
  u_RawQuery :: string
  u_Fragment :: string

definition is_alpha :: "char \<Rightarrow> bool" where
  "is_alpha c \<longleftrightarrow> (let n = (of_char c :: nat) in 65 \<le> n \<and> n \<le> 90 \<or> 97 \<le> n \<and> n \<le> 122)"

definition ishex :: "char \<Rightarrow> bool" where
  "ishex c \<longleftrightarrow> is_digit c \<or> (let n = (of_char c :: nat) in 65 \<le> n \<and> n \<le> 70 \<or> 97 \<le> n \<and> n \<le> 102)"

definition unhex :: "char \<Rightarrow> nat" where
  "unhex c = (let n = (of_char c :: nat) in if is_digit c then n - 48 else if 97 \<le> n then n - 87 else n - 55)"

definition stringContainsCTLByte :: "string \<Rightarrow> bool" where
  "stringContainsCTLByte s \<longleftrightarrow> list_ex (\<lambda>c. (of_char c :: nat) < 32 \<or> (of_char c :: nat) = 127) s"

text \<open>The scheme: \<open>None\<close> for a missing one before a colon, otherwise the scheme and the rest.\<close>

definition getScheme :: "string \<Rightarrow> (string \<times> string) option" where
  "getScheme rawURL =
     (let scheme = takeWhile (\<lambda>c. is_alpha c \<or> is_digit c \<or> c \<in> set ''+-.'') rawURL;
          rest = drop (length scheme) rawURL
      in if scheme \<noteq> [] \<and> \<not> is_alpha (hd scheme) then Some ([], rawURL)
         else if rest = [] \<or> hd rest \<noteq> CHR '':'' then Some ([], rawURL)
         else if scheme = [] then None
         else Some (scheme, tl rest))"

definition validOptionalPort :: "string \<Rightarrow> bool" where
  "validOptionalPort port \<longleftrightarrow> port = [] \<or> (hd port = CHR '':'' \<and> list_all is_digit (tl port))"

text \<open>Characters of a host that need no escape (ASCII).\<close>

definition host_char :: "char \<Rightarrow> bool" where
  "host_char c \<longleftrightarrow> is_alpha c \<or> is_digit c \<or> c \<in> set ''!$&()*+,;=:[]<>-_.~'' \<or> c = CHR 0x27 \<or> c = CHR 0x22"

text \<open>\<open>unescape\<close> for a host, where only bytes outside ASCII and the percent sign may be escaped, and for a
  path, where every byte may.\<close>

fun unescape_host :: "string \<Rightarrow> string option" where
  "unescape_host [] = Some []"
| "unescape_host (c # s) =
     (if c = CHR ''%'' then
        (case s of
           a # b # rest \<Rightarrow>
             if ishex a \<and> ishex b \<and> (8 \<le> unhex a \<or> a = CHR ''2'' \<and> b = CHR ''5'')
             then map_option (\<lambda>t. char_of (16 * unhex a + unhex b) # t) (unescape_host rest) else None
         | _ \<Rightarrow> None)
      else if (of_char c :: nat) < 128 \<and> \<not> host_char c then None
      else map_option ((#) c) (unescape_host s))"

fun unescape_path :: "string \<Rightarrow> string option" where
  "unescape_path [] = Some []"
| "unescape_path (c # s) =
     (if c = CHR ''%'' then
        (case s of
           a # b # rest \<Rightarrow>
             if ishex a \<and> ishex b
             then map_option (\<lambda>t. char_of (16 * unhex a + unhex b) # t) (unescape_path rest) else None
         | _ \<Rightarrow> None)
      else map_option ((#) c) (unescape_path s))"

definition parseHost :: "(string \<Rightarrow> string option) \<Rightarrow> string \<Rightarrow> string option" where
  "parseHost ip_literal host =
     (if contains_char (CHR ''['') host then ip_literal host
      else case cut_last (CHR '':'') host of
        Some (_, port) \<Rightarrow> if validOptionalPort (CHR '':'' # port) then unescape_host host else None
      | None \<Rightarrow> unescape_host host)"

text \<open>The user information is parsed only as far as its presence; \<open>validUserinfo\<close> may refuse it.\<close>

definition validUserinfo :: "string \<Rightarrow> bool" where
  "validUserinfo s \<longleftrightarrow> list_all (\<lambda>c. is_alpha c \<or> is_digit c \<or> c \<in> set ''-._:~!$&()*+,;=%@'' \<or> c = CHR 0x27) s \<and>
     unescape_path s \<noteq> None"

definition parseAuthority :: "(string \<Rightarrow> string option) \<Rightarrow> string \<Rightarrow> (bool \<times> string) option" where
  "parseAuthority ip_literal authority =
     (case cut_last (CHR ''@'') authority of
        None \<Rightarrow> map_option (\<lambda>h. (False, h)) (parseHost ip_literal authority)
      | Some (userinfo, rest) \<Rightarrow>
          (case parseHost ip_literal rest of
             None \<Rightarrow> None
           | Some h \<Rightarrow> if validUserinfo userinfo then Some (True, h) else None))"

text \<open>\<open>url.ParseRequestURI\<close>: unlike \<open>url.Parse\<close> it does not split off a fragment.\<close>

definition ParseRequestURI :: "(string \<Rightarrow> string option) \<Rightarrow> string \<Rightarrow> url option" where
  "ParseRequestURI ip_literal rawURL =
     (let empty = \<lparr>u_Scheme = [], u_Opaque = [], u_User = False, u_Host = [], u_Path = [], u_RawQuery = [], u_Fragment = []\<rparr> in
      if stringContainsCTLByte rawURL \<or> rawURL = [] then None
      else if rawURL = ''*'' then Some (empty\<lparr>u_Path := ''*''\<rparr>)
      else case getScheme rawURL of
        None \<Rightarrow> None
      | Some (scheme, rest0) \<Rightarrow>
          let (rest, query) = (case cut_first (CHR ''?'') rest0 of Some rq \<Rightarrow> rq | None \<Rightarrow> (rest0, []));
              parsed = empty\<lparr>u_Scheme := ToLower scheme, u_RawQuery := query\<rparr>
          in if \<not> HasPrefix rest ''/'' then
               (if scheme \<noteq> [] then Some (parsed\<lparr>u_Opaque := rest\<rparr>) else None)
             else if scheme \<noteq> [] \<and> HasPrefix rest ''//'' then
               let authority = takeWhile (\<lambda>c. c \<noteq> CHR ''/'') (drop 2 rest);
                   path = drop (length authority) (drop 2 rest)
               in (case parseAuthority ip_literal authority of
                     None \<Rightarrow> None
                   | Some (user, host) \<Rightarrow>
                       map_option (\<lambda>p. parsed\<lparr>u_User := user, u_Host := host, u_Path := p\<rparr>) (unescape_path path))
             else map_option (\<lambda>p. parsed\<lparr>u_Path := p\<rparr>) (unescape_path rest))"

definition splitHostPort :: "string \<Rightarrow> string \<times> string" where
  "splitHostPort hostPort =
     (let (host, port) = (case cut_last (CHR '':'') hostPort of
            Some (h, p) \<Rightarrow> if validOptionalPort (CHR '':'' # p) then (h, p) else (hostPort, [])
          | None \<Rightarrow> (hostPort, []))
      in (if HasPrefix host ''['' \<and> last host = CHR '']'' then (tl (butlast host), port) else (host, port)))"

definition u_Hostname :: "url \<Rightarrow> string" where
  "u_Hostname u = fst (splitHostPort (u_Host u))"

definition u_Port :: "url \<Rightarrow> string" where
  "u_Port u = snd (splitHostPort (u_Host u))"

lemma ParseRequestURI_no_fragment: "ParseRequestURI ip_literal rawURL = Some u \<Longrightarrow> u_Fragment u = []"
  by (auto simp: ParseRequestURI_def Let_def split: if_splits option.splits prod.splits)

text \<open>\<open>net.SplitHostPort\<close>; \<open>None\<close> stands for its address errors.\<close>

definition SplitHostPort :: "string \<Rightarrow> (string \<times> string) option" where
  "SplitHostPort hostport =
     (case cut_last (CHR '':'') hostport of
        None \<Rightarrow> None
      | Some (front, port) \<Rightarrow>
          if HasPrefix hostport ''['' then
            (case cut_first (CHR '']'') (tl hostport) of
               None \<Rightarrow> None
             | Some (host, rest) \<Rightarrow>
                 if rest = CHR '':'' # port \<and> CHR ''['' \<notin> set host \<and> CHR ''['' \<notin> set rest \<and> CHR '']'' \<notin> set rest
                 then Some (host, port) else None)
          else if CHR '':'' \<in> set front \<or> CHR ''['' \<in> set hostport \<or> CHR '']'' \<in> set hostport then None
          else Some (front, port))"

section \<open>Header maps\<close>

text \<open>\<open>http.Header\<close> with single values: a map from canonical keys.\<close>

definition header_field_byte :: "char \<Rightarrow> bool" where
  "header_field_byte c \<longleftrightarrow> is_alpha c \<or> is_digit c \<or> c \<in> set ''!#$%&*+-.^_|~'' \<or> c = CHR 0x27 \<or> c = CHR 0x60"

fun canonical_key_from :: "bool \<Rightarrow> string \<Rightarrow> string" where
  "canonical_key_from upper [] = []"
| "canonical_key_from upper (c # s) =
     (let c' = (if upper then char_upper c else char_lower c) in c' # canonical_key_from (c' = CHR ''-'') s)"

definition CanonicalMIMEHeaderKey :: "string \<Rightarrow> string" where
  "CanonicalMIMEHeaderKey s = (if list_all header_field_byte s then canonical_key_from True s else s)"

type_synonym http_header = "string \<rightharpoonup> string"

definition header_set :: "string \<Rightarrow> string \<Rightarrow> http_header \<Rightarrow> http_header" where
  "header_set name value h = h(CanonicalMIMEHeaderKey name \<mapsto> value)"

definition header_get :: "string \<Rightarrow> http_header \<Rightarrow> string" where
  "header_get name h = (case h (CanonicalMIMEHeaderKey name) of Some v \<Rightarrow> v | None \<Rightarrow> [])"

lemma ToLower_canonical_key_from [simp]: "ToLower (canonical_key_from b s) = ToLower s"
  by (induction b s rule: canonical_key_from.induct) (simp_all add: ToLower_def Let_def)

lemma ToLower_canonical_key [simp]: "ToLower (CanonicalMIMEHeaderKey s) = ToLower s"
  by (simp add: CanonicalMIMEHeaderKey_def)

lemma canonical_key_eq_fold: "CanonicalMIMEHeaderKey a = CanonicalMIMEHeaderKey b \<Longrightarrow> EqualFold a b"
  unfolding EqualFold_def by (metis ToLower_canonical_key)

lemma char_upper_lower [simp]: "char_upper (char_lower c) = char_upper c"
  by (auto simp: char_lower_def char_upper_def Let_def)

lemma canonical_key_from_ToLower: "canonical_key_from b (ToLower s) = canonical_key_from b s"
  by (induction b s rule: canonical_key_from.induct) (auto simp: ToLower_def Let_def)

end
