(* ===== verification/Outbound.thy ===== *)
theory Outbound
  imports Header_Hash Ip_Policy Go_Net
begin

text \<open>
  The outbound HTTPS client (\<open>internal/outbound/client.go\<close>): configuration of the sender, the URL,
  network and header policies, and \<open>Send\<close>. The resolver, the secret provider and the HTTP exchange are
  arguments: their answers during one call. \<open>Send\<close> also returns the trace of what it did to the
  outside, so that what is contacted, and with which credential, is a property of the trace.
\<close>

section \<open>Data\<close>

definition testNetworkPolicy :: string where
  "testNetworkPolicy = ''test-only-supplier''"

text \<open>An error of a called library: its text, and whether it is or wraps \<open>context.DeadlineExceeded\<close>.\<close>

type_synonym call_error = "string \<times> bool"

datatype send_error = Permanent string | Transient string call_error

fun IsPermanent :: "send_error \<Rightarrow> bool" where
  "IsPermanent (Permanent _) = True"
| "IsPermanent (Transient _ _) = False"

fun is_deadline :: "send_error \<Rightarrow> bool" where
  "is_deadline (Permanent _) = False"
| "is_deadline (Transient _ cause) = snd cause"

type_synonym Resolver = "string \<Rightarrow> call_error + byte list list"
type_synonym SecretProvider = "string \<Rightarrow> call_error + string"

definition EnvironmentSecrets_Resolve :: "(string \<Rightarrow> string option) \<Rightarrow> SecretProvider" where
  "EnvironmentSecrets_Resolve LookupEnv reference =
     (if \<not> HasPrefix reference ''env:'' then Inl (''unsupported secret reference'', False)
      else let name = drop (length ''env:'') reference in
        if name = [] then Inl (''empty secret environment reference'', False)
        else case LookupEnv name of
          None \<Rightarrow> Inl (''referenced secret is unavailable'', False)
        | Some value \<Rightarrow> if value = [] then Inl (''referenced secret is unavailable'', False) else Inr value)"

text \<open>A certificate pool is the PEM text it was filled from; no pool means the system's roots. The field \<open>dial\<close>, which
  \<open>NewSender\<close> leaves nil, is not needed.\<close>

record Sender =
  sn_resolver :: Resolver
  sn_secrets :: SecretProvider
  sn_testPolicy :: bool
  sn_testRoots :: "string option"
  sn_testHostname :: string

record Result =
  res_StatusCode :: int
  res_RetryAfter :: string

definition NewSender ::
  "Resolver \<Rightarrow> (string \<Rightarrow> string option) \<Rightarrow> (string \<Rightarrow> bool) \<Rightarrow>
   Resolver option \<Rightarrow> SecretProvider option \<Rightarrow> bool \<Rightarrow> string \<Rightarrow> string + Sender" where
  "NewSender DefaultResolver ReadFile AppendCertsFromPEM resolver secrets testPolicy testCAFile =
     (let resolver1 = (case resolver of None \<Rightarrow> DefaultResolver | Some r \<Rightarrow> r) in
      case secrets of
        None \<Rightarrow> Inl ''outbound sender requires a secret provider''
      | Some provider \<Rightarrow>
          (let built = (\<lambda>roots. Inr \<lparr>sn_resolver = resolver1, sn_secrets = provider, sn_testPolicy = testPolicy,
                 sn_testRoots = roots, sn_testHostname = ''fake-supplier.test''\<rparr>) in
           if testPolicy then
             (if testCAFile = [] then Inl ''test-only TLS trust is unavailable''
              else case ReadFile testCAFile of
                None \<Rightarrow> Inl ''read test-only CA''
              | Some certificate \<Rightarrow>
                  if \<not> AppendCertsFromPEM certificate then Inl ''parse test-only CA'' else built (Some certificate))
           else built None))"

section \<open>Policies\<close>

definition url_error :: string where
  "url_error = ''destination must be an absolute HTTPS URL without userinfo or fragment''"

definition validateURL :: "(string \<Rightarrow> string option) \<Rightarrow> string \<Rightarrow> string + url" where
  "validateURL ip_literal rawURL =
     (case ParseRequestURI ip_literal rawURL of
        None \<Rightarrow> Inl url_error
      | Some target \<Rightarrow>
          if u_Scheme target \<noteq> ''https'' \<or> u_Host target = [] \<or> u_Hostname target = [] \<or> u_User target \<or> u_Fragment target \<noteq> []
          then Inl url_error
          else if u_Port target \<noteq> [] then
            (case ParseInt (u_Port target) of
               None \<Rightarrow> Inl ''destination port is invalid''
             | Some port \<Rightarrow> if port < 1 \<or> port > 65535 then Inl ''destination port is invalid'' else Inr target)
          else Inr target)"

definition validatePolicy :: "Sender \<Rightarrow> string \<Rightarrow> string \<Rightarrow> string option" where
  "validatePolicy sender hostname policy =
     (if policy = ''public-internet'' then None
      else if policy = testNetworkPolicy then
        (if \<not> sn_testPolicy sender \<or> hostname \<noteq> sn_testHostname sender
         then Some ''test-only destination policy is unavailable'' else None)
      else Some ''destination network policy is not supported'')"

definition validateAddresses :: "string \<Rightarrow> byte list list \<Rightarrow> string + byte list" where
  "validateAddresses policy addresses =
     (if addresses = [] then Inl ''destination DNS returned no addresses''
      else if policy = testNetworkPolicy then Inr (hd addresses)
      else if list_ex forbidden addresses then Inl ''destination resolved to a forbidden address''
      else Inr (hd addresses))"

definition sender_roots :: "Sender \<Rightarrow> string \<Rightarrow> string option" where
  "sender_roots sender policy = (if policy \<noteq> testNetworkPolicy then None else sn_testRoots sender)"

definition contains_any :: "string \<Rightarrow> string \<Rightarrow> bool" where
  "contains_any s chars \<longleftrightarrow> list_ex (\<lambda>c. c \<in> set chars) s"

definition name_breakers :: string where
  "name_breakers = [CHR '' '', CHR 0x09, CHR 0x0D, CHR 0x0A, CHR '':'']"

definition line_breakers :: string where
  "line_breakers = [CHR 0x0D, CHR 0x0A]"

definition hop_headers :: "string list" where
  "hop_headers = [''host'', ''connection'', ''keep-alive'', ''proxy-authenticate'', ''te'', ''trailer'',
     ''transfer-encoding'', ''upgrade'', ''cookie'', ''set-cookie'', ''content-length'']"

definition validInjectedHeader :: "string \<Rightarrow> bool" where
  "validInjectedHeader name =
     (let canonical = ToLower (TrimSpace name) in
      if canonical = [] \<or> contains_any canonical name_breakers then False
      else canonical \<notin> set hop_headers)"

definition protected_headers :: "DestinationVersion \<Rightarrow> string list" where
  "protected_headers destination =
     [''authorization'', ''proxy-authorization''] @ hop_headers @
     [ToLower (dv_IdempotencyHeader destination), ToLower (dv_CredentialHeader destination)]"

fun stored_headers_loop ::
  "string list \<Rightarrow> string list \<Rightarrow> string list \<Rightarrow> (string, string) go_map \<Rightarrow> string option" where
  "stored_headers_loop allowed protected seen [] = None"
| "stored_headers_loop allowed protected seen ((name, value) # headers) =
     (let canonical = ToLower (TrimSpace name) in
      if canonical = [] \<or> contains_any canonical name_breakers \<or> contains_any value line_breakers
      then Some ''stored delivery contains an invalid Header''
      else if canonical \<in> set seen then Some ''stored delivery contains a case-insensitive duplicate Header''
      else if canonical \<in> set protected then Some ''stored delivery contains a protected Header''
      else if canonical \<notin> set allowed then Some ''stored delivery contains a non-allowlisted Header''
      else stored_headers_loop allowed protected (canonical # seen) headers)"

definition validateStoredHeaders :: "(string, string) go_map \<Rightarrow> DestinationVersion \<Rightarrow> string option" where
  "validateStoredHeaders headers destination =
     (if \<not> validInjectedHeader (dv_CredentialHeader destination) \<or>
         \<not> validInjectedHeader (dv_IdempotencyHeader destination) \<or>
         EqualFold (dv_CredentialHeader destination) (dv_IdempotencyHeader destination)
      then Some ''destination injection Header configuration is invalid''
      else stored_headers_loop (map (\<lambda>name. ToLower (TrimSpace name)) (dv_AllowedHeaders destination))
             (protected_headers destination) [] headers)"

definition containsFold :: "string list \<Rightarrow> string \<Rightarrow> bool" where
  "containsFold values candidate \<longleftrightarrow> list_ex (\<lambda>value. EqualFold (TrimSpace value) (TrimSpace candidate)) values"

section \<open>Sending\<close>

record Request =
  rq_Method :: string
  rq_URL :: url
  rq_Header :: http_header
  rq_Body :: "byte list"

record Transport =
  tr_RootCAs :: "string option"
  tr_ServerName :: string
  tr_DialContext :: "string \<Rightarrow> call_error + byte list \<times> string"

record Response =
  rsp_StatusCode :: int
  rsp_Header :: http_header

text \<open>\<open>http.NewRequestWithContext\<close> refuses a method that is not a token and parses the text of the target again,
  now with \<open>url.Parse\<close>. \<open>URL.String\<close> escapes scheme, host and path so that they parse to what they were, but
  writes the raw query as it is: a number sign in it now ends the query, and what follows becomes the
  fragment, which must be well escaped. An empty port is dropped from the host.\<close>

definition removeEmptyPort :: "string \<Rightarrow> string" where
  "removeEmptyPort host = (if host \<noteq> [] \<and> last host = CHR '':'' then butlast host else host)"

definition request_URL :: "url \<Rightarrow> url option" where
  "request_URL target =
     (let u = target\<lparr>u_Host := removeEmptyPort (u_Host target)\<rparr> in
      case cut_first (CHR ''#'') (u_RawQuery target) of
        None \<Rightarrow> Some u
      | Some (query, fragment) \<Rightarrow>
          map_option (\<lambda>f. u\<lparr>u_RawQuery := query, u_Fragment := f\<rparr>) (unescape_path fragment))"

definition NewRequest :: "string \<Rightarrow> url \<Rightarrow> byte list \<Rightarrow> string + Request" where
  "NewRequest method target body =
     (if method = [] \<or> \<not> list_all header_field_byte method then Inl ''invalid method''
      else case request_URL target of
        None \<Rightarrow> Inl ''invalid URL escape''
      | Some u \<Rightarrow> Inr \<lparr>rq_Method = method, rq_URL = u, rq_Header = Map.empty, rq_Body = body\<rparr>)"

fun set_headers :: "(string, string) go_map \<Rightarrow> http_header \<Rightarrow> http_header" where
  "set_headers [] h = h"
| "set_headers ((name, value) # headers) h = set_headers headers (header_set name value h)"

definition DialContext :: "url \<Rightarrow> string \<Rightarrow> byte list \<Rightarrow> string \<Rightarrow> call_error + byte list \<times> string" where
  "DialContext target port validatedIP address =
     (case SplitHostPort address of
        None \<Rightarrow> Inl (''address error'', False)
      | Some (host, dialPort) \<Rightarrow>
          if \<not> EqualFold host (u_Hostname target) \<or> dialPort \<noteq> port
          then Inl (''outbound transport refused an unvalidated endpoint'', False)
          else Inr (validatedIP, port))"

text \<open>One exchange of the HTTP library: the addresses it asks the transport to dial, and how the exchange
  ends. Without an established connection there is no response.\<close>

record Exchange =
  ex_asked :: "string list"
  ex_outcome :: "call_error + Response"

datatype net_event =
    LookedUp string
  | ResolvedSecret string
  | DialedTo "byte list" string
  | Exchanged Request string "string option"

fun dialed :: "(call_error + byte list \<times> string) list \<Rightarrow> net_event list" where
  "dialed [] = []"
| "dialed (Inr (ip, port) # rs) = DialedTo ip port # dialed rs"
| "dialed (Inl _ # rs) = dialed rs"

definition client_Do :: "(Request \<Rightarrow> Exchange) \<Rightarrow> Transport \<Rightarrow> Request \<Rightarrow> (call_error + Response) \<times> net_event list" where
  "client_Do http transport request =
     (let ex = http request;
          dials = dialed (map (tr_DialContext transport) (ex_asked ex))
      in if dials = [] then (case ex_outcome ex of Inl e \<Rightarrow> Inl e | Inr _ \<Rightarrow> Inl (''no connection'', False), [])
         else (ex_outcome ex, dials @ [Exchanged request (tr_ServerName transport) (tr_RootCAs transport)]))"

definition zero_result :: Result where
  "zero_result = \<lparr>res_StatusCode = 0, res_RetryAfter = []\<rparr>"

definition Send ::
  "(string \<Rightarrow> string option) \<Rightarrow> (Request \<Rightarrow> Exchange) \<Rightarrow> Sender \<Rightarrow> Delivery \<Rightarrow> DestinationVersion
   \<Rightarrow> (Result \<times> send_error option) \<times> net_event list" where
  "Send ip_literal http sender task destination =
     (let fails = (\<lambda>e trace. ((zero_result, Some e), trace)) in
      if dv_RequestTimeout destination \<le> 0 then fails (Permanent ''destination request timeout is invalid'') []
      else case validateURL ip_literal (dv_URL destination) of
        Inl e \<Rightarrow> fails (Permanent e) []
      | Inr target \<Rightarrow>
      if \<not> IsSupportedOutboundMethod (dl_Method task)
      then fails (Permanent ''delivery method is not safe for configured outbound use'') []
      else if \<not> containsFold (dv_AllowedMethods destination) (dl_Method task)
      then fails (Permanent ''delivery method is not allowed by bound destination version'') []
      else case validateStoredHeaders (dl_CallerHeaders task) destination of
        Some e \<Rightarrow> fails (Permanent e) []
      | None \<Rightarrow>
      case validatePolicy sender (u_Hostname target) (dv_NetworkPolicy destination) of
        Some e \<Rightarrow> fails (Permanent e) []
      | None \<Rightarrow>
      let looked = [LookedUp (u_Hostname target)] in
      case sn_resolver sender (u_Hostname target) of
        Inl e \<Rightarrow> fails (Transient ''resolve registered destination'' e) looked
      | Inr addresses \<Rightarrow>
      case validateAddresses (dv_NetworkPolicy destination) addresses of
        Inl e \<Rightarrow> fails (Permanent e) looked
      | Inr validatedIP \<Rightarrow>
      case sn_secrets sender (dv_SecretRef destination) of
        Inl e \<Rightarrow> fails (Transient ''resolve destination credential'' e) (looked @ [ResolvedSecret (dv_SecretRef destination)])
      | Inr secret \<Rightarrow>
      let resolved = looked @ [ResolvedSecret (dv_SecretRef destination)] in
      case NewRequest (dl_Method task) target (dl_Body task) of
        Inl e \<Rightarrow> fails (Permanent ''build outbound request'') resolved
      | Inr request0 \<Rightarrow>
      let request = request0\<lparr>rq_Header :=
            header_set (dv_CredentialHeader destination) secret
              (header_set (dv_IdempotencyHeader destination) (dl_SupplierIdempotencyValue task)
                (set_headers (dl_CallerHeaders task) (rq_Header request0)))\<rparr>;
          port = (if u_Port target = [] then ''443'' else u_Port target);
          transport = \<lparr>tr_RootCAs = sender_roots sender (dv_NetworkPolicy destination), tr_ServerName = u_Hostname target,
            tr_DialContext = DialContext target port validatedIP\<rparr>
      in case client_Do http transport request of
           (Inl e, trace) \<Rightarrow> fails (Transient ''perform outbound HTTPS request'' e) (resolved @ trace)
         | (Inr response, trace) \<Rightarrow>
             ((\<lparr>res_StatusCode = rsp_StatusCode response, res_RetryAfter = header_get ''Retry-After'' (rsp_Header response)\<rparr>, None),
              resolved @ trace))"

section \<open>What a call does\<close>

lemma is_alpha_char_lower: "is_alpha (char_lower c) = is_alpha c"
  by (auto simp: is_alpha_def char_lower_def Let_def)

lemma list_all_alpha_ToLower: "list_all is_alpha (ToLower s) = list_all is_alpha s"
  by (simp add: ToLower_def list_all_iff is_alpha_char_lower)

lemma supported_method_token:
  assumes "IsSupportedOutboundMethod m"
  shows "m \<noteq> []" "list_all header_field_byte m"
proof -
  have "\<exists>w\<in>set [''POST'', ''PUT'', ''PATCH'', ''DELETE'']. ToLower m = ToLower w"
    using assms by (auto simp: IsSupportedOutboundMethod_def EqualFold_def)
  then obtain w where w: "w \<in> set [''POST'', ''PUT'', ''PATCH'', ''DELETE'']" "ToLower m = ToLower w" by blast
  then show "m \<noteq> []" by (auto simp: ToLower_def)
  from w(1) have "list_all is_alpha w" by (auto simp: is_alpha_def)
  then have "list_all is_alpha (ToLower m)" unfolding w(2) list_all_alpha_ToLower .
  then show "list_all header_field_byte m"
    unfolding list_all_alpha_ToLower by (auto simp: list_all_iff header_field_byte_def)
qed

text \<open>All the checks before a credential is read.\<close>

definition cleared :: "(string \<Rightarrow> string option) \<Rightarrow> Sender \<Rightarrow> Delivery \<Rightarrow> DestinationVersion \<Rightarrow> url \<Rightarrow> byte list list \<Rightarrow> bool" where
  "cleared ip_literal sender task destination target addresses \<longleftrightarrow>
     0 < dv_RequestTimeout destination \<and> validateURL ip_literal (dv_URL destination) = Inr target \<and>
     IsSupportedOutboundMethod (dl_Method task) \<and> containsFold (dv_AllowedMethods destination) (dl_Method task) \<and>
     validateStoredHeaders (dl_CallerHeaders task) destination = None \<and>
     validatePolicy sender (u_Hostname target) (dv_NetworkPolicy destination) = None \<and>
     sn_resolver sender (u_Hostname target) = Inr addresses \<and>
     (\<exists>ip. validateAddresses (dv_NetworkPolicy destination) addresses = Inr ip)"

definition outbound_request :: "Delivery \<Rightarrow> DestinationVersion \<Rightarrow> url \<Rightarrow> string \<Rightarrow> Request" where
  "outbound_request task destination u secret =
     \<lparr>rq_Method = dl_Method task, rq_URL = u,
      rq_Header = header_set (dv_CredentialHeader destination) secret
        (header_set (dv_IdempotencyHeader destination) (dl_SupplierIdempotencyValue task)
          (set_headers (dl_CallerHeaders task) Map.empty)),
      rq_Body = dl_Body task\<rparr>"

definition target_port :: "url \<Rightarrow> string" where
  "target_port target = (if u_Port target = [] then ''443'' else u_Port target)"

definition outbound_transport :: "Sender \<Rightarrow> DestinationVersion \<Rightarrow> url \<Rightarrow> byte list list \<Rightarrow> Transport" where
  "outbound_transport sender destination target addresses =
     \<lparr>tr_RootCAs = sender_roots sender (dv_NetworkPolicy destination), tr_ServerName = u_Hostname target,
      tr_DialContext = DialContext target (target_port target) (hd addresses)\<rparr>"

lemma validateAddresses_hd: "validateAddresses policy addresses = Inr ip \<Longrightarrow> addresses \<noteq> [] \<and> ip = hd addresses"
  by (auto simp: validateAddresses_def split: if_splits)

lemma Send_cleared:
  assumes c: "cleared ip_literal sender task destination target addresses"
    and secret: "sn_secrets sender (dv_SecretRef destination) = Inr secret"
    and u: "request_URL target = Some u"
    and ex: "client_Do http (outbound_transport sender destination target addresses)
         (outbound_request task destination u secret) = (outcome, net)"
  shows "Send ip_literal http sender task destination =
    (case outcome of
       Inl e \<Rightarrow> (zero_result, Some (Transient ''perform outbound HTTPS request'' e))
     | Inr response \<Rightarrow> (\<lparr>res_StatusCode = rsp_StatusCode response,
         res_RetryAfter = header_get ''Retry-After'' (rsp_Header response)\<rparr>, None),
     [LookedUp (u_Hostname target), ResolvedSecret (dv_SecretRef destination)] @ net)"
proof -
  from c obtain ip where ip: "validateAddresses (dv_NetworkPolicy destination) addresses = Inr ip" "ip = hd addresses"
    unfolding cleared_def using validateAddresses_hd by blast
  have req: "NewRequest (dl_Method task) target (dl_Body task) =
      Inr \<lparr>rq_Method = dl_Method task, rq_URL = u, rq_Header = Map.empty, rq_Body = dl_Body task\<rparr>"
    using c u supported_method_token [of "dl_Method task"] by (simp add: NewRequest_def cleared_def)
  show ?thesis
    using c ip secret req ex
    unfolding Send_def cleared_def outbound_request_def outbound_transport_def target_port_def Let_def
    by (auto split: sum.splits)
qed

text \<open>The four shapes of a call: refused by a check or by DNS, no credential, a URL that does not parse again, or
  one exchange.\<close>

lemma Send_cases:
  assumes "Send ip_literal http sender task destination = ((res, err), trace)"
  obtains (refused) e where "res = zero_result" "err = Some e" "trace = [] \<or> (\<exists>h. trace = [LookedUp h])"
      "\<And>target addresses. \<not> cleared ip_literal sender task destination target addresses"
  | (no_secret) target addresses e where "cleared ip_literal sender task destination target addresses"
      "sn_secrets sender (dv_SecretRef destination) = Inl e" "res = zero_result"
      "err = Some (Transient ''resolve destination credential'' e)"
      "trace = [LookedUp (u_Hostname target), ResolvedSecret (dv_SecretRef destination)]"
  | (no_request) target addresses secret where "cleared ip_literal sender task destination target addresses"
      "sn_secrets sender (dv_SecretRef destination) = Inr secret" "request_URL target = None" "res = zero_result"
      "err = Some (Permanent ''build outbound request'')"
      "trace = [LookedUp (u_Hostname target), ResolvedSecret (dv_SecretRef destination)]"
  | (exchange) target addresses secret u outcome net where "cleared ip_literal sender task destination target addresses"
      "sn_secrets sender (dv_SecretRef destination) = Inr secret"
      "client_Do http (outbound_transport sender destination target addresses)
         (outbound_request task destination u secret) = (outcome, net)"
      "trace = [LookedUp (u_Hostname target), ResolvedSecret (dv_SecretRef destination)] @ net"
      "(res, err) = (case outcome of
           Inl e \<Rightarrow> (zero_result, Some (Transient ''perform outbound HTTPS request'' e))
         | Inr response \<Rightarrow> (\<lparr>res_StatusCode = rsp_StatusCode response,
             res_RetryAfter = header_get ''Retry-After'' (rsp_Header response)\<rparr>, None))"
      "request_URL target = Some u"
proof (cases "\<exists>target addresses. cleared ip_literal sender task destination target addresses")
  case False
  then have "res = zero_result \<and> (\<exists>e. err = Some e) \<and> (trace = [] \<or> (\<exists>h. trace = [LookedUp h]))"
    using assms unfolding Send_def cleared_def Let_def
    by (auto split: if_splits sum.splits option.splits)
  with refused False show thesis by blast
next
  case True
  then obtain target addresses where c: "cleared ip_literal sender task destination target addresses" by blast
  then obtain ip where ip: "validateAddresses (dv_NetworkPolicy destination) addresses = Inr ip" "ip = hd addresses"
    unfolding cleared_def using validateAddresses_hd by blast
  show thesis
  proof (cases "sn_secrets sender (dv_SecretRef destination)")
    case (Inl e)
    with assms c ip have "res = zero_result" "err = Some (Transient ''resolve destination credential'' e)"
      "trace = [LookedUp (u_Hostname target), ResolvedSecret (dv_SecretRef destination)]"
      unfolding Send_def cleared_def Let_def by auto
    with no_secret c Inl show thesis by blast
  next
    case (Inr secret)
    show thesis
    proof (cases "request_URL target")
      case None
      with c have "NewRequest (dl_Method task) target (dl_Body task) = Inl ''invalid URL escape''"
        using supported_method_token [of "dl_Method task"] by (simp add: NewRequest_def cleared_def)
      with assms c ip Inr have "res = zero_result" "err = Some (Permanent ''build outbound request'')"
        "trace = [LookedUp (u_Hostname target), ResolvedSecret (dv_SecretRef destination)]"
        unfolding Send_def cleared_def Let_def by auto
      with no_request c Inr None show thesis by blast
    next
      case (Some u)
      obtain outcome net where ex: "client_Do http (outbound_transport sender destination target addresses)
           (outbound_request task destination u secret) = (outcome, net)" by fastforce
      show thesis
        by (rule exchange [OF c Inr ex]) (use assms Send_cleared [OF c Inr Some ex] Some in simp_all)
    qed
  qed
qed

lemma dialed_transport:
  assumes "DialedTo ip port \<in> set (dialed (map (DialContext target p a) asked))"
  shows "ip = a \<and> port = p"
  using assms
  by (induction asked) (auto simp: DialContext_def split: option.splits if_splits)

lemma client_Do_events:
  assumes "client_Do http transport request = (outcome, net)" "event \<in> set net"
  shows "(\<exists>ip port. event = DialedTo ip port \<and> event \<in> set (dialed (map (tr_DialContext transport) (ex_asked (http request))))) \<or>
    event = Exchanged request (tr_ServerName transport) (tr_RootCAs transport)"
proof -
  have "\<exists>ip port. e = DialedTo ip port" if "e \<in> set (dialed rs)" for e rs
    using that by (induction rs rule: dialed.induct) auto
  with assms show ?thesis by (auto simp: client_Do_def Let_def split: if_splits)
qed

lemma validateURL_Inr:
  assumes "validateURL ip_literal rawURL = Inr target"
  shows "u_Scheme target = ''https'' \<and> u_Hostname target \<noteq> [] \<and> \<not> u_User target \<and>
    (u_Port target = [] \<or> (\<exists>n. ParseInt (u_Port target) = Some n \<and> 1 \<le> n \<and> n \<le> 65535))"
  using assms by (auto simp: validateURL_def split: option.splits if_splits)

lemma request_URL_Some:
  assumes "request_URL target = Some u"
  shows "u_Scheme u = u_Scheme target \<and> u_User u = u_User target \<and> u_Path u = u_Path target \<and>
    u_Host u = removeEmptyPort (u_Host target) \<and> u_RawQuery u = takeWhile (\<lambda>c. c \<noteq> CHR ''#'') (u_RawQuery target)"
proof (cases "CHR ''#'' \<in> set (u_RawQuery target)")
  case True
  with assms show ?thesis by (auto simp: request_URL_def cut_first_def Let_def)
next
  case False
  with assms have u: "u = target\<lparr>u_Host := removeEmptyPort (u_Host target)\<rparr>" by (simp add: request_URL_def cut_first_def)
  have "takeWhile (\<lambda>c. c \<noteq> CHR ''#'') (u_RawQuery target) = u_RawQuery target"
    unfolding takeWhile_eq_all_conv using False by metis
  then show ?thesis unfolding u by (metis url.select_convs(1-6) url.surjective url.update_convs(4))
qed

text \<open>C25. Only a validated endpoint is contacted. Whatever the HTTP library asks the transport to dial,
  every connection goes to the first address of the one DNS answer, at the port of the registered
  https URL without user information; and under the public policy no address of that answer is a
  forbidden one, while the test policy is usable only by a sender built for it and for its one host
  name. The TLS server name is the registered host, and the URL of a request that goes out is the registered one
  with the same scheme, host, path and query, up to an empty port and to a query that ends at a number sign.\<close>

theorem send_contacts_validated_endpoint:
  assumes "Send ip_literal http sender task destination = (result, trace)"
    and "DialedTo ip port \<in> set trace \<or> Exchanged request server roots \<in> set trace"
  shows "\<exists>target addresses. validateURL ip_literal (dv_URL destination) = Inr target \<and>
    u_Scheme target = ''https'' \<and> \<not> u_User target \<and>
    sn_resolver sender (u_Hostname target) = Inr addresses \<and> addresses \<noteq> [] \<and>
    (DialedTo ip port \<in> set trace \<longrightarrow> ip = hd addresses \<and> port = target_port target) \<and>
    (Exchanged request server roots \<in> set trace \<longrightarrow> server = u_Hostname target \<and> request_URL target = Some (rq_URL request) \<and>
       u_Scheme (rq_URL request) = ''https'' \<and> \<not> u_User (rq_URL request) \<and> u_Path (rq_URL request) = u_Path target \<and>
       u_Host (rq_URL request) = removeEmptyPort (u_Host target) \<and>
       u_RawQuery (rq_URL request) = takeWhile (\<lambda>c. c \<noteq> CHR ''#'') (u_RawQuery target)) \<and>
    (dv_NetworkPolicy destination = ''public-internet'' \<and> (\<forall>a\<in>set addresses. \<not> forbidden a) \<or>
     dv_NetworkPolicy destination = testNetworkPolicy \<and> sn_testPolicy sender \<and> u_Hostname target = sn_testHostname sender)"
proof -
  obtain res err where r: "result = (res, err)" by fastforce
  from assms(1) [unfolded r] show ?thesis
  proof (cases rule: Send_cases)
    case (exchange target addresses secret u outcome net)
    note c = exchange(1) [unfolded cleared_def]
    have url: "u_Scheme target = ''https''" "\<not> u_User target" using c validateURL_Inr by blast+
    from c obtain a where a: "validateAddresses (dv_NetworkPolicy destination) addresses = Inr a" by blast
    have pol: "dv_NetworkPolicy destination = ''public-internet'' \<and> (\<forall>a\<in>set addresses. \<not> forbidden a) \<or>
       dv_NetworkPolicy destination = testNetworkPolicy \<and> sn_testPolicy sender \<and> u_Hostname target = sn_testHostname sender"
      using c a
      by (auto simp: validatePolicy_def validateAddresses_def testNetworkPolicy_def list_ex_iff split: if_splits)
    have dial: "ip = hd addresses \<and> port = target_port target" if "DialedTo ip port \<in> set trace"
      using that exchange(4) client_Do_events [OF exchange(3), of "DialedTo ip port"]
        dialed_transport [of ip port target "target_port target" "hd addresses"]
      by (auto simp: outbound_transport_def)
    have sent: "server = u_Hostname target" "rq_URL request = u" if "Exchanged request server roots \<in> set trace"
      using that exchange(4) client_Do_events [OF exchange(3), of "Exchanged request server roots"]
      by (auto simp: outbound_transport_def outbound_request_def)
    have u: "u_Scheme u = ''https''" "\<not> u_User u" "u_Path u = u_Path target" "u_Host u = removeEmptyPort (u_Host target)"
      "u_RawQuery u = takeWhile (\<lambda>c. c \<noteq> CHR ''#'') (u_RawQuery target)"
      using request_URL_Some [OF exchange(6)] url by simp_all
    show ?thesis
      by (intro exI [of _ target] exI [of _ addresses] conjI impI)
        (use c url validateAddresses_hd [OF a] pol dial sent exchange(6) u in \<open>simp_all\<close>)
  qed (use assms(2) in auto)
qed

text \<open>A delivery and a sender on which the properties are evaluated.\<close>

definition demo_task :: Delivery where
  "demo_task = \<lparr>dl_ID = ''d'', dl_CallerID = ''c'', dl_DestinationID = ''s'', dl_DestinationVersion = 1, dl_Method = ''POST'',
     dl_CallerHeaders = [(''x-a'', ''1'')], dl_Body = [123, 125], dl_SupplierIdempotencyValue = ''k'', dl_Status = StatusDelivering,
     dl_Generation = 0, dl_AcceptedAt = 0, dl_RetryDeadline = 24 * Hour, dl_NextAttemptAt = 0,
     dl_LeaseOwner = Some ''w'', dl_LeaseToken = Some ''t'', dl_LeaseUntil = Some Minute\<rparr>"

definition demo_sender :: Sender where
  "demo_sender = \<lparr>sn_resolver = (\<lambda>host. if host = ''s'' then Inr [[93, 184, 216, 34]] else Inl (''no such host'', False)),
     sn_secrets = EnvironmentSecrets_Resolve (\<lambda>name. if name = ''S'' then Some ''top'' else None),
     sn_testPolicy = False, sn_testRoots = None, sn_testHostname = ''fake-supplier.test''\<rparr>"

definition demo_http :: "Request \<Rightarrow> Exchange" where
  "demo_http request = \<lparr>ex_asked = [''s:443'', ''other:443''],
     ex_outcome = Inr \<lparr>rsp_StatusCode = 204, rsp_Header = Map.empty\<rparr>\<rparr>"

definition no_ip_literal :: "string \<Rightarrow> string option" where
  "no_ip_literal host = None"

definition demo_target :: url where
  "demo_target = \<lparr>u_Scheme = ''https'', u_Opaque = [], u_User = False, u_Host = ''s'', u_Path = ''/n'', u_RawQuery = [], u_Fragment = []\<rparr>"

lemma demo_validated: "validateURL no_ip_literal ''https://s/n'' = Inr demo_target"
  by code_simp

lemma demo_headers: "validateStoredHeaders (dl_CallerHeaders demo_task) demo_destination = None"
  by code_simp

lemma demo_hostport: "u_Hostname demo_target = ''s''" "u_Port demo_target = []"
  by code_simp+

lemma demo_method: "IsSupportedOutboundMethod (dl_Method demo_task)" "containsFold (dv_AllowedMethods demo_destination) (dl_Method demo_task)"
  by code_simp+

lemma demo_addresses: "validateAddresses ''public-internet'' [[93, 184, 216, 34]] = Inr [93, 184, 216, 34]"
  by (simp add: validateAddresses_def testNetworkPolicy_def forbidden_v4 special_purpose_v4_def)

lemma demo_secret: "sn_secrets demo_sender ''env:S'' = Inr ''top''"
  by code_simp

lemma demo_cleared: "cleared no_ip_literal demo_sender demo_task demo_destination demo_target [[93, 184, 216, 34]]"
  unfolding cleared_def
  using demo_validated demo_headers demo_method demo_hostport demo_addresses
  by (simp add: demo_destination_def demo_sender_def validatePolicy_def)

lemma demo_dial: "DialContext demo_target ''443'' [93, 184, 216, 34] ''s:443'' = Inr ([93, 184, 216, 34], ''443'')"
  "DialContext demo_target ''443'' [93, 184, 216, 34] ''other:443'' =
     Inl (''outbound transport refused an unvalidated endpoint'', False)"
  by code_simp+

lemma demo_send:
  "Send no_ip_literal demo_http demo_sender demo_task demo_destination =
    ((\<lparr>res_StatusCode = 204, res_RetryAfter = []\<rparr>, None),
     [LookedUp ''s'', ResolvedSecret ''env:S'', DialedTo [93, 184, 216, 34] ''443'',
      Exchanged (outbound_request demo_task demo_destination demo_target ''top'') ''s'' None])"
proof -
  have ref: "dv_SecretRef demo_destination = ''env:S''" by (simp add: demo_destination_def)
  have "client_Do demo_http (outbound_transport demo_sender demo_destination demo_target [[93, 184, 216, 34]])
      (outbound_request demo_task demo_destination demo_target ''top'') =
    (Inr \<lparr>rsp_StatusCode = 204, rsp_Header = Map.empty\<rparr>, [DialedTo [93, 184, 216, 34] ''443'',
      Exchanged (outbound_request demo_task demo_destination demo_target ''top'') ''s'' None])"
    by (simp add: client_Do_def demo_http_def outbound_transport_def target_port_def demo_dial demo_hostport
        sender_roots_def demo_destination_def testNetworkPolicy_def)
  moreover have "request_URL demo_target = Some demo_target" by code_simp
  ultimately show ?thesis
    using Send_cleared [OF demo_cleared, of "''top''" demo_target] demo_secret by (simp add: ref demo_hostport header_get_def)
qed

theorem send_contacts_validated_endpoint_witness:
  "\<exists>target addresses. sn_resolver demo_sender (u_Hostname target) = Inr addresses \<and> [93, 184, 216, 34] = hd addresses \<and>
     ''443'' = target_port target"
  using send_contacts_validated_endpoint [OF demo_send, of "[93, 184, 216, 34]" "''443''" undefined "[]" None]
  by (simp del: fun_upd_apply) blast

text \<open>A permanent refusal is harmless: when \<open>Send\<close> reports a permanent error it has opened no
  connection and sent no request; at most it asked DNS and, for a URL that does not parse again, read the
  credential. A permanent error therefore means that the supplier has not seen this attempt.\<close>

theorem permanent_refusal_sends_nothing:
  assumes "Send ip_literal http sender task destination = ((res, Some e), trace)" "IsPermanent e"
  shows "res = zero_result \<and> (trace = [] \<or> (\<exists>host. trace = [LookedUp host]) \<or>
    e = Permanent ''build outbound request'' \<and> (\<exists>host ref. trace = [LookedUp host, ResolvedSecret ref]))"
  using assms(1)
proof (cases rule: Send_cases)
  case (refused e')
  then show ?thesis by auto
next
  case (no_secret target addresses e')
  with assms(2) show ?thesis by simp
next
  case (no_request target addresses secret)
  then show ?thesis by simp
next
  case (exchange target addresses secret u outcome net)
  with assms(2) show ?thesis by (cases outcome) auto
qed

theorem permanent_refusal_sends_nothing_witness:
  "\<exists>e trace. Send no_ip_literal demo_http demo_sender (demo_task\<lparr>dl_Method := ''GET''\<rparr>) demo_destination = ((zero_result, Some e), trace) \<and>
     (trace = [] \<or> (\<exists>host. trace = [LookedUp host]))"
proof -
  have get: "\<not> IsSupportedOutboundMethod ''GET''" by code_simp
  have "Send no_ip_literal demo_http demo_sender (demo_task\<lparr>dl_Method := ''GET''\<rparr>) demo_destination =
      ((zero_result, Some (Permanent ''delivery method is not safe for configured outbound use'')), [])"
    using demo_validated get by (simp add: Send_def Let_def demo_destination_def)
  with permanent_refusal_sends_nothing [OF this] show ?thesis by simp
qed

section \<open>Headers\<close>

definition stored_entry_ok :: "string list \<Rightarrow> string list \<Rightarrow> string \<times> string \<Rightarrow> bool" where
  "stored_entry_ok allowed protected = (\<lambda>(n, v). canonical_name n \<noteq> [] \<and> \<not> contains_any (canonical_name n) name_breakers \<and>
     \<not> contains_any v line_breakers \<and> canonical_name n \<notin> set protected \<and> canonical_name n \<in> set allowed)"

lemma stored_headers_loop_None:
  "stored_headers_loop allowed protected seen headers = None \<longleftrightarrow>
     list_all (stored_entry_ok allowed protected) headers \<and>
     distinct (map (canonical_name \<circ> fst) headers) \<and> set (map (canonical_name \<circ> fst) headers) \<inter> set seen = {}"
proof (induction allowed protected seen headers rule: stored_headers_loop.induct)
  case (2 allowed protected seen name val headers)
  let ?c = "ToLower (TrimSpace name)"
  have step: "stored_headers_loop allowed protected seen ((name, val) # headers) = None \<longleftrightarrow>
      stored_entry_ok allowed protected (name, val) \<and> ?c \<notin> set seen \<and>
      stored_headers_loop allowed protected (?c # seen) headers = None"
    by (auto simp: Let_def stored_entry_ok_def canonical_name_def)
  show ?case
  proof (cases "stored_entry_ok allowed protected (name, val) \<and> ?c \<notin> set seen")
    case True
    then have ih: "stored_headers_loop allowed protected (?c # seen) headers = None \<longleftrightarrow>
        list_all (stored_entry_ok allowed protected) headers \<and>
        distinct (map (canonical_name \<circ> fst) headers) \<and> set (map (canonical_name \<circ> fst) headers) \<inter> set (?c # seen) = {}"
      by (intro 2) (auto simp: stored_entry_ok_def canonical_name_def)
    have cn: "(canonical_name \<circ> fst) (name, val) = ?c" by (simp add: canonical_name_def)
    show ?thesis unfolding step ih list.map cn using True by (simp only: list.pred_inject distinct.simps list.set) blast
  next
    case False
    then show ?thesis unfolding step by (auto simp: canonical_name_def)
  qed
qed simp

lemma canonical_name_fold: "EqualFold a b \<Longrightarrow> canonical_name a = canonical_name b"
  unfolding canonical_name_def EqualFold_def by (metis TrimSpace_ToLower)

lemma set_headers_dom: "dom (set_headers headers h) = dom h \<union> CanonicalMIMEHeaderKey ` fst ` set headers"
  by (induction headers h rule: set_headers.induct) (simp_all add: header_set_def del: fun_upd_apply)

lemma set_headers_other:
  "k \<notin> CanonicalMIMEHeaderKey ` fst ` set headers \<Longrightarrow> set_headers headers h k = h k"
  by (induction headers h rule: set_headers.induct) (auto simp: header_set_def)

lemma set_headers_lookup:
  assumes "distinct (map (canonical_name \<circ> fst) headers)" "(n, v) \<in> set headers"
  shows "set_headers headers h (CanonicalMIMEHeaderKey n) = Some v"
  using assms
proof (induction headers h rule: set_headers.induct)
  case (2 name val headers h)
  show ?case
  proof (cases "(n, v) = (name, val)")
    case True
    have "CanonicalMIMEHeaderKey n \<notin> CanonicalMIMEHeaderKey ` fst ` set headers"
    proof
      assume "CanonicalMIMEHeaderKey n \<in> CanonicalMIMEHeaderKey ` fst ` set headers"
      then obtain m where "m \<in> fst ` set headers" "EqualFold n m" using canonical_key_eq_fold by blast
      then have "canonical_name n \<in> (canonical_name \<circ> fst) ` set headers" using canonical_name_fold by force
      with True 2(2) show False by simp
    qed
    then show ?thesis using set_headers_other True by (simp add: header_set_def)
  next
    case False
    with 2(3) have "(n, v) \<in> set headers" by auto
    with 2(1,2) show ?thesis by simp
  qed
qed simp

text \<open>C26. The credential and the supplier idempotency value cannot be overridden by the caller: in every
  request that goes out the credential header carries the secret of the bound destination and the
  idempotency header the delivery's value, whatever headers the delivery stores; the stored headers that
  go along are all on the allowlist and none is protected, each arrives with its value (for names
  without surrounding space, as accepted deliveries have them), no other header is added, and method
  and body are the stored ones.\<close>

theorem injected_headers_authoritative:
  assumes "Send ip_literal http sender task destination = (result, trace)" "Exchanged request server roots \<in> set trace"
  shows "\<exists>secret. sn_secrets sender (dv_SecretRef destination) = Inr secret \<and>
    rq_Header request (CanonicalMIMEHeaderKey (dv_CredentialHeader destination)) = Some secret \<and>
    rq_Header request (CanonicalMIMEHeaderKey (dv_IdempotencyHeader destination)) = Some (dl_SupplierIdempotencyValue task) \<and>
    dom (rq_Header request) = CanonicalMIMEHeaderKey `
      ({dv_CredentialHeader destination, dv_IdempotencyHeader destination} \<union> fst ` set (dl_CallerHeaders task)) \<and>
    rq_Method request = dl_Method task \<and> rq_Body request = dl_Body task \<and>
    (\<forall>(n, v)\<in>set (dl_CallerHeaders task).
      canonical_name n \<in> set (map canonical_name (dv_AllowedHeaders destination)) \<and>
      canonical_name n \<notin> set (protected_headers destination) \<and>
      (TrimSpace n = n \<longrightarrow> rq_Header request (CanonicalMIMEHeaderKey n) = Some v))"
proof -
  obtain res err where r: "result = (res, err)" by fastforce
  from assms(1) [unfolded r] show ?thesis
  proof (cases rule: Send_cases)
    case (exchange target addresses secret u outcome net)
    have req: "request = outbound_request task destination u secret"
      using assms(2) exchange(4) client_Do_events [OF exchange(3), of "Exchanged request server roots"] by auto
    have ok: "validateStoredHeaders (dl_CallerHeaders task) destination = None" using exchange(1) by (simp add: cleared_def)
    let ?cred = "CanonicalMIMEHeaderKey (dv_CredentialHeader destination)"
      and ?idem = "CanonicalMIMEHeaderKey (dv_IdempotencyHeader destination)"
    have ne: "?idem \<noteq> ?cred"
      using ok canonical_key_eq_fold [of "dv_CredentialHeader destination" "dv_IdempotencyHeader destination"]
      by (auto simp: validateStoredHeaders_def split: if_splits)
    have loop: "list_all (stored_entry_ok (map canonical_name (dv_AllowedHeaders destination)) (protected_headers destination))
        (dl_CallerHeaders task)" "distinct (map (canonical_name \<circ> fst) (dl_CallerHeaders task))"
      using ok unfolding validateStoredHeaders_def canonical_name_def [symmetric]
      by (auto simp: stored_headers_loop_None split: if_splits)
    have "canonical_name n \<in> set (map canonical_name (dv_AllowedHeaders destination)) \<and>
        canonical_name n \<notin> set (protected_headers destination) \<and>
        (TrimSpace n = n \<longrightarrow> rq_Header request (CanonicalMIMEHeaderKey n) = Some v)"
      if nv: "(n, v) \<in> set (dl_CallerHeaders task)" for n v
    proof -
      have entry: "canonical_name n \<in> set (map canonical_name (dv_AllowedHeaders destination))"
        "canonical_name n \<notin> set (protected_headers destination)"
        using loop(1) nv by (auto simp: list_all_iff stored_entry_ok_def)
      have "CanonicalMIMEHeaderKey n \<noteq> ?cred \<and> CanonicalMIMEHeaderKey n \<noteq> ?idem" if "TrimSpace n = n"
        using entry(2) that canonical_key_eq_fold [of n "dv_CredentialHeader destination"]
          canonical_key_eq_fold [of n "dv_IdempotencyHeader destination"]
        by (auto simp: protected_headers_def canonical_name_def EqualFold_def)
      with entry show ?thesis
        using set_headers_lookup [OF loop(2) nv] by (simp add: req outbound_request_def header_set_def)
    qed
    moreover have "dom (rq_Header request) = CanonicalMIMEHeaderKey `
      ({dv_CredentialHeader destination, dv_IdempotencyHeader destination} \<union> fst ` set (dl_CallerHeaders task))"
      by (auto simp: req outbound_request_def header_set_def set_headers_dom simp del: fun_upd_apply)
    ultimately show ?thesis using exchange(2) ne by (auto simp: req outbound_request_def header_set_def)
  qed (use assms(2) in auto)
qed

theorem injected_headers_authoritative_witness:
  "rq_Header (outbound_request demo_task demo_destination demo_target ''top'') ''Authorization'' = Some ''top''"
proof -
  have keys: "CanonicalMIMEHeaderKey (dv_CredentialHeader demo_destination) = ''Authorization''"
    "dv_SecretRef demo_destination = ''env:S''"
    by (code_simp, simp add: demo_destination_def)
  show ?thesis
    using injected_headers_authoritative [OF demo_send, of "outbound_request demo_task demo_destination demo_target ''top''" "''s''" None]
    by (simp add: keys demo_secret)
qed

end
