(* ===== verification/Worker.thy ===== *)
theory Worker
  imports Worker_Store Limiter Outbound
begin

text \<open>
  The delivery Worker (\<open>internal/worker/worker.go\<close>): classification of a supplier's answer, the retry
  time, and \<open>Process\<close>, which handles one signal. \<open>Process\<close> is written over any store, sender,
  limiter and clock acting on a state; its contract with them is the locale \<open>worker_world\<close>, proved
  for the world that consists of the database model, the limiter model and the outbound client, in
  which other Workers and goroutines may act before every call.
\<close>

section \<open>Classification\<close>

datatype resultClass = resultSuccess | resultRetryable | resultPermanent

definition isSuccess :: "int \<Rightarrow> int list \<Rightarrow> bool" where
  "isSuccess status configured =
     (if configured = [] then status \<ge> 200 \<and> status < 300 else list_ex (\<lambda>expected. status = expected) configured)"

definition classify :: "int \<Rightarrow> send_error option \<Rightarrow> DestinationVersion \<Rightarrow> resultClass" where
  "classify status sendErr destination =
     (case sendErr of
        Some e \<Rightarrow> if IsPermanent e then resultPermanent else resultRetryable
      | None \<Rightarrow>
          if isSuccess status (dv_SuccessStatuses destination) then resultSuccess
          else if list_ex (\<lambda>configured. status = configured) (dv_RetryStatuses destination) then resultRetryable
          else if status = 408 \<or> status = 425 \<or> status = 429 \<or> status \<ge> 500 then resultRetryable
          else resultPermanent)"

definition resultErrorCategory :: "int \<Rightarrow> send_error option \<Rightarrow> string" where
  "resultErrorCategory status err =
     (case err of
        Some e \<Rightarrow> if is_deadline e then ''timeout'' else ''network_or_request_error''
      | None \<Rightarrow> ''http_'' @ FormatInt status)"

text \<open>\<open>http.ParseTime\<close>, the parser of HTTP dates, is a parameter.\<close>

definition parseRetryAfter :: "(string \<Rightarrow> instant option) \<Rightarrow> instant \<Rightarrow> string \<Rightarrow> duration option" where
  "parseRetryAfter ParseTime now raw0 =
     (let raw = TrimSpace raw0 in
      if raw = [] then None
      else case ParseInt raw of
        Some seconds \<Rightarrow>
          if seconds < 0 then None
          else if seconds > Hour div Second then Some Hour
          else Some (seconds * Second)
      | None \<Rightarrow>
          (case ParseTime raw of
             None \<Rightarrow> None
           | Some retryAt \<Rightarrow>
               if \<not> retryAt > now then None
               else let delay = retryAt - now in Some (if delay > Hour then Hour else delay)))"

text \<open>The jitter of \<open>New\<close>: the remainder of the clock reading, which in Go has the sign of the reading.\<close>

definition go_rem :: "int \<Rightarrow> int \<Rightarrow> int" where
  "go_rem a b = (if a < 0 then - ((- a) mod b) else a mod b)"

definition default_jitter :: "instant \<Rightarrow> duration \<Rightarrow> duration" where
  "default_jitter unixNano maximum = (if maximum \<le> 0 then 0 else go_rem unixNano maximum)"

text \<open>\<open>nextAttemptAt\<close>; shifting by a negative generation panics.\<close>

definition backoff_maximum :: "int \<Rightarrow> duration option" where
  "backoff_maximum generation =
     (let exponent = (if generation > 12 then 12 else generation) in
      if exponent < 0 then None
      else let maximum = Second * 2 ^ nat exponent in Some (if maximum > Hour then Hour else maximum))"

section \<open>The Worker\<close>

record 's WorkerStore =
  ws_EligibleDestination :: "string \<Rightarrow> int \<Rightarrow> 's \<Rightarrow> (store_error + DestinationVersion) \<times> 's"
  ws_ObserveSignal :: "string \<Rightarrow> int \<Rightarrow> 's \<Rightarrow> (store_error + unit) \<times> 's"
  ws_ClaimDelivery :: "string \<Rightarrow> int \<Rightarrow> string \<Rightarrow> duration \<Rightarrow> 's \<Rightarrow> (store_error + Delivery \<times> DestinationVersion) \<times> 's"
  ws_CompleteSuccess :: "AttemptResult \<Rightarrow> 's \<Rightarrow> (store_error + unit) \<times> 's"
  ws_CompleteRetry :: "AttemptResult \<Rightarrow> instant \<Rightarrow> 's \<Rightarrow> (store_error + unit) \<times> 's"
  ws_CompletePermanent :: "AttemptResult \<Rightarrow> 's \<Rightarrow> (store_error + unit) \<times> 's"

record 's Worker =
  wk_store :: "'s WorkerStore"
  wk_Send :: "Delivery \<Rightarrow> DestinationVersion \<Rightarrow> 's \<Rightarrow> (Result \<times> send_error option) \<times> 's"
  wk_owner :: string
  wk_leaseDuration :: duration
  wk_now :: "'s \<Rightarrow> instant \<times> 's"
  wk_jitter :: "duration \<Rightarrow> 's \<Rightarrow> duration \<times> 's"
  wk_tryAcquire :: "DestinationVersion \<Rightarrow> 's \<Rightarrow> destinationPermit option \<times> 's"
  wk_release :: "bool \<Rightarrow> destinationPermit \<Rightarrow> 's \<Rightarrow> 's"

text \<open>\<open>New\<close>; a nil interface is \<open>None\<close>, and the clock, the jitter and the limiter of the process are
  given by the surroundings.\<close>

definition New ::
  "('s \<Rightarrow> instant \<times> 's) \<Rightarrow> (DestinationVersion \<Rightarrow> 's \<Rightarrow> destinationPermit option \<times> 's) \<Rightarrow> (bool \<Rightarrow> destinationPermit \<Rightarrow> 's \<Rightarrow> 's)
   \<Rightarrow> 's WorkerStore option \<Rightarrow> (Delivery \<Rightarrow> DestinationVersion \<Rightarrow> 's \<Rightarrow> (Result \<times> send_error option) \<times> 's) option
   \<Rightarrow> string \<Rightarrow> duration \<Rightarrow> string + 's Worker" where
  "New Now tryAcq releasePermit store sender owner leaseDuration =
     (case (store, sender) of
        (Some st, Some send) \<Rightarrow>
          if owner = [] \<or> leaseDuration \<le> 0 then Inl ''Worker requires store, sender, owner, and positive lease''
          else Inr \<lparr>wk_store = st, wk_Send = send, wk_owner = owner, wk_leaseDuration = leaseDuration, wk_now = Now,
            wk_jitter = (\<lambda>maximum s. let (t, s') = Now s in
               if maximum \<le> 0 then (0, s) else (default_jitter t maximum, s')),
            wk_tryAcquire = tryAcq, wk_release = releasePermit\<rparr>
      | _ \<Rightarrow> Inl ''Worker requires store, sender, owner, and positive lease'')"

definition nextAttemptAt ::
  "(string \<Rightarrow> instant option) \<Rightarrow> 's Worker \<Rightarrow> instant \<Rightarrow> int \<Rightarrow> string \<Rightarrow> 's \<Rightarrow> instant option \<times> 's" where
  "nextAttemptAt ParseTime worker now generation retryAfter s =
     (case parseRetryAfter ParseTime now retryAfter of
        Some delay \<Rightarrow> (Some (now + delay), s)
      | None \<Rightarrow>
          (case backoff_maximum generation of
             None \<Rightarrow> (None, s)
           | Some maximum \<Rightarrow> let (j, s') = wk_jitter worker maximum s in (Some (now + j), s')))"

datatype process_error =
    EligibilityFailed store_error
  | ObservationFailed store_error
  | WorkClaimFailed store_error
  | CommitFailed store_error

datatype process_outcome = Finished bool "process_error option" | Panicked

definition attempt_for :: "Delivery \<Rightarrow> Result \<Rightarrow> instant \<Rightarrow> instant \<Rightarrow> AttemptResult" where
  "attempt_for task result startedAt finishedAt =
     \<lparr>ar_DeliveryID = dl_ID task, ar_Generation = dl_Generation task,
      ar_LeaseOwner = (case dl_LeaseOwner task of Some v \<Rightarrow> v | None \<Rightarrow> []),
      ar_LeaseToken = (case dl_LeaseToken task of Some v \<Rightarrow> v | None \<Rightarrow> []),
      ar_ResponseStatus = (if res_StatusCode result \<noteq> 0 then Some (res_StatusCode result) else None),
      ar_ErrorCategory = [], ar_StartedAt = startedAt, ar_FinishedAt = finishedAt\<rparr>"

text \<open>The switch on the class of the answer: the store's reply, or no value for a panic.\<close>

definition record_result ::
  "(string \<Rightarrow> instant option) \<Rightarrow> 's Worker \<Rightarrow> Delivery \<Rightarrow> DestinationVersion \<Rightarrow> AttemptResult \<Rightarrow> Result \<Rightarrow> send_error option \<Rightarrow> 's
   \<Rightarrow> (store_error + unit) option \<times> 's" where
  "record_result ParseTime worker task destination attempt result err s =
     (let categorised = attempt\<lparr>ar_ErrorCategory := resultErrorCategory (res_StatusCode result) err\<rparr>;
          some = (\<lambda>(r, s'). (Some r, s')) in
      case classify (res_StatusCode result) err destination of
        resultSuccess \<Rightarrow> some (ws_CompleteSuccess (wk_store worker) attempt s)
      | resultPermanent \<Rightarrow> some (ws_CompletePermanent (wk_store worker) categorised s)
      | resultRetryable \<Rightarrow>
          (case nextAttemptAt ParseTime worker (ar_FinishedAt attempt) (dl_Generation task) (res_RetryAfter result) s of
             (None, s1) \<Rightarrow> (None, s1)
           | (Some nextAttempt, s1) \<Rightarrow>
               if \<not> nextAttempt < dl_RetryDeadline task
               then some (ws_CompletePermanent (wk_store worker) (attempt\<lparr>ar_ErrorCategory := ''retry_deadline_exhausted''\<rparr>) s1)
               else some (ws_CompleteRetry (wk_store worker) categorised nextAttempt s1)))"

definition process_claimed ::
  "(string \<Rightarrow> instant option) \<Rightarrow> 's Worker \<Rightarrow> Delivery \<Rightarrow> DestinationVersion \<Rightarrow> 's \<Rightarrow> process_outcome \<times> 's" where
  "process_claimed ParseTime worker task destination s =
     (let (startedAt, s1) = wk_now worker s;
          ((result, err), s2) = wk_Send worker task destination s1;
          (finishedAt, s3) = wk_now worker s2;
          (reply, s4) = record_result ParseTime worker task destination (attempt_for task result startedAt finishedAt) result err s3
      in (case reply of
            None \<Rightarrow> Panicked
          | Some (Inl e) \<Rightarrow> if e = ErrWorkerLeaseLost then Finished True None else Finished False (Some (CommitFailed e))
          | Some (Inr _) \<Rightarrow> Finished True None, s4))"

definition Process :: "(string \<Rightarrow> instant option) \<Rightarrow> 's Worker \<Rightarrow> Signal \<Rightarrow> 's \<Rightarrow> process_outcome \<times> 's" where
  "Process ParseTime worker signal s =
     (case ws_EligibleDestination (wk_store worker) (sg_DeliveryID signal) (sg_Generation signal) s of
        (Inl e, s1) \<Rightarrow>
          if e = ErrDeliveryNotClaimable then (Finished True None, s1) else (Finished False (Some (EligibilityFailed e)), s1)
      | (Inr destination0, s1) \<Rightarrow>
     (case ws_ObserveSignal (wk_store worker) (sg_DeliveryID signal) (sg_Generation signal) s1 of
        (Inl e, s2) \<Rightarrow> (Finished False (Some (ObservationFailed e)), s2)
      | (Inr _, s2) \<Rightarrow>
     (case wk_tryAcquire worker destination0 s2 of
        (None, s3) \<Rightarrow> (Finished False None, s3)
      | (Some permit, s3) \<Rightarrow>
     (case ws_ClaimDelivery (wk_store worker) (sg_DeliveryID signal) (sg_Generation signal) (wk_owner worker) (wk_leaseDuration worker) s3 of
        (Inl e, s4) \<Rightarrow>
          let s5 = wk_release worker False permit s4 in
          if e = ErrDeliveryNotClaimable then (Finished True None, s5) else (Finished False (Some (WorkClaimFailed e)), s5)
      | (Inr (task, destination), s4) \<Rightarrow>
          let (outcome, s5) = process_claimed ParseTime worker task destination s4
          in (outcome, wk_release worker True permit s5)))))"

section \<open>Retry times\<close>

lemma parseRetryAfter_bounds: "parseRetryAfter ParseTime now raw = Some delay \<Longrightarrow> 0 \<le> delay \<and> delay \<le> Hour"
  by (auto simp: parseRetryAfter_def Let_def split: if_splits option.splits)

lemma backoff_maximum_bounds:
  "backoff_maximum generation = Some m \<Longrightarrow> Second \<le> m \<and> m \<le> Hour"
  by (auto simp: backoff_maximum_def Let_def split: if_splits)

lemma default_jitter_bounds: "0 \<le> t \<Longrightarrow> 0 < m \<Longrightarrow> 0 \<le> default_jitter t m \<and> default_jitter t m < m"
  by (simp add: default_jitter_def go_rem_def)

abbreviation new_jitter :: "('s \<Rightarrow> instant \<times> 's) \<Rightarrow> duration \<Rightarrow> 's \<Rightarrow> duration \<times> 's" where
  "new_jitter Now \<equiv> \<lambda>maximum s. let (t, s') = Now s in if maximum \<le> 0 then (0, s) else (default_jitter t maximum, s')"

lemma nextAttemptAt_bounded:
  assumes jitter: "wk_jitter worker = new_jitter Now" and "0 \<le> generation" "0 \<le> fst (Now s)"
  obtains t s' where "nextAttemptAt ParseTime worker now generation retryAfter s = (Some t, s')" "now \<le> t" "t \<le> now + Hour"
    "case parseRetryAfter ParseTime now retryAfter of
       Some delay \<Rightarrow> t = now + delay
     | None \<Rightarrow> t < now + min (Second * 2 ^ nat (min generation 12)) Hour" "s' = s \<or> s' = snd (Now s)"
proof (cases "parseRetryAfter ParseTime now retryAfter")
  case None
  define m where "m = min (Second * 2 ^ nat (min generation 12)) Hour"
  have m: "backoff_maximum generation = Some m" using assms(2)
    by (auto simp: backoff_maximum_def Let_def min_def m_def)
  note b = backoff_maximum_bounds [OF m]
  obtain t0 s0 where n: "Now s = (t0, s0)" by fastforce
  have j: "wk_jitter worker m s = (default_jitter t0 m, s0)" using b by (simp add: jitter n)
  have "0 \<le> default_jitter t0 m \<and> default_jitter t0 m < m"
    using default_jitter_bounds [of t0 m] assms(3) b n by simp
  moreover from this have "now + default_jitter t0 m < now + min (Second * 2 ^ nat (min generation 12)) Hour"
    unfolding m_def [symmetric] by simp
  ultimately show thesis using b None m j n
    by (intro that [of "now + default_jitter t0 m" s0]) (simp_all add: nextAttemptAt_def)
next
  case (Some delay)
  with parseRetryAfter_bounds [OF Some] show thesis by (intro that [of "now + delay" s]) (simp_all add: nextAttemptAt_def)
qed

text \<open>C29. A retry is never scheduled in the past and never more than an hour ahead: with a usable
  Retry-After the delay is that one, capped at an hour; otherwise it is below the exponential backoff of
  the generation (one second doubled per generation, capped at an hour). Generations are never negative,
  so the shift does not panic.\<close>

theorem retry_delay_bounded:
  assumes "New Now tryAcq releasePermit store sender owner lease = Inr worker" "0 \<le> generation" "0 \<le> fst (Now s)"
  shows "\<exists>t s'. nextAttemptAt ParseTime worker now generation retryAfter s = (Some t, s') \<and> now \<le> t \<and> t \<le> now + Hour \<and>
    (case parseRetryAfter ParseTime now retryAfter of
       Some delay \<Rightarrow> t = now + delay
     | None \<Rightarrow> t < now + min (Second * 2 ^ nat (min generation 12)) Hour)"
proof -
  have "wk_jitter worker = new_jitter Now"
    using assms(1) by (auto simp: New_def split: option.splits if_splits)
  from nextAttemptAt_bounded [OF this assms(2,3)] show ?thesis by metis
qed

section \<open>The contract of the Worker's surroundings\<close>

datatype work_action =
    Unclaimable
  | Granted destinationPermit
  | Claimed Delivery DestinationVersion
  | SentTo Delivery DestinationVersion Result "send_error option"
  | Recorded result_class AttemptResult "instant option"
  | Lost
  | GaveBack bool destinationPermit

text \<open>The class and the retry time an answer must be recorded with.\<close>

definition verdict :: "Delivery \<Rightarrow> DestinationVersion \<Rightarrow> Result \<Rightarrow> send_error option \<Rightarrow> result_class \<Rightarrow> instant option \<Rightarrow> bool" where
  "verdict task destination result err cls nextAt =
     (case classify (res_StatusCode result) err destination of
        resultSuccess \<Rightarrow> cls = RcSucceeded \<and> nextAt = None
      | resultPermanent \<Rightarrow> cls = RcPermanentFailure \<and> nextAt = None
      | resultRetryable \<Rightarrow> cls = RcRetryableFailure \<and> (\<exists>t. nextAt = Some t \<and> t < dl_RetryDeadline task) \<or>
          cls = RcPermanentFailure \<and> nextAt = None)"

definition answers :: "Delivery \<Rightarrow> AttemptResult \<Rightarrow> bool" where
  "answers task a \<longleftrightarrow> ar_DeliveryID a = dl_ID task \<and> ar_Generation a = dl_Generation task \<and>
     ar_LeaseOwner a = (case dl_LeaseOwner task of Some v \<Rightarrow> v | None \<Rightarrow> []) \<and>
     ar_LeaseToken a = (case dl_LeaseToken task of Some v \<Rightarrow> v | None \<Rightarrow> [])"

text \<open>The only things \<open>Process\<close> may do, with what it may answer.\<close>

inductive work_trace :: "work_action list \<Rightarrow> process_outcome \<Rightarrow> bool" where
  not_started: "work_trace [] (Finished False e)"
| gone: "work_trace [Unclaimable] (Finished True None)"
| taken: "work_trace [Granted p, Unclaimable, GaveBack False p] (Finished True None)"
| claim_failed: "work_trace [Granted p, GaveBack False p] (Finished False (Some (WorkClaimFailed e)))"
| recorded: "verdict t d r err cls nextAt \<Longrightarrow> answers t a \<Longrightarrow>
    work_trace [Granted p, Claimed t d, SentTo t d r err, Recorded cls a nextAt, GaveBack True p] (Finished True None)"
| lost: "work_trace [Granted p, Claimed t d, SentTo t d r err, Lost, GaveBack True p] (Finished True None)"
| commit_failed: "work_trace [Granted p, Claimed t d, SentTo t d r err, GaveBack True p] (Finished False (Some (CommitFailed e)))"
| crashed: "dl_Generation t < 0 \<Longrightarrow> work_trace [Granted p, Claimed t d, SentTo t d r err, GaveBack True p] Panicked"

definition complete_actions :: "result_class \<Rightarrow> AttemptResult \<Rightarrow> instant option \<Rightarrow> store_error + unit \<Rightarrow> work_action list" where
  "complete_actions cls a nextAt r =
     (case r of Inr _ \<Rightarrow> [Recorded cls a nextAt] | Inl e \<Rightarrow> if e = ErrWorkerLeaseLost then [Lost] else [])"

locale worker_world =
  fixes worker :: "'s Worker" and actions :: "'s \<Rightarrow> work_action list" and inv :: "'s \<Rightarrow> bool"
  assumes eligible_actions: "ws_EligibleDestination (wk_store worker) i g s = (r1, s') \<Longrightarrow>
      actions s' = actions s @ (if r1 = Inl ErrDeliveryNotClaimable then [Unclaimable] else []) \<and> (inv s \<longrightarrow> inv s')"
    and observe_actions: "ws_ObserveSignal (wk_store worker) i g s = (r2, s') \<Longrightarrow> actions s' = actions s \<and> (inv s \<longrightarrow> inv s')"
    and acquire_actions: "wk_tryAcquire worker d s = (r3, s') \<Longrightarrow>
      actions s' = actions s @ (case r3 of Some p \<Rightarrow> [Granted p] | None \<Rightarrow> []) \<and> (inv s \<longrightarrow> inv s')"
    and claim_actions: "ws_ClaimDelivery (wk_store worker) i g owner lease s = (r4, s') \<Longrightarrow>
      actions s' = actions s @ (case r4 of Inr (t, d) \<Rightarrow> [Claimed t d]
        | Inl e \<Rightarrow> if e = ErrDeliveryNotClaimable then [Unclaimable] else []) \<and> (inv s \<longrightarrow> inv s')"
    and now_actions: "wk_now worker s = (now, s') \<Longrightarrow> actions s' = actions s \<and> (inv s \<longrightarrow> inv s')"
    and jitter_actions: "wk_jitter worker m s = (j, s') \<Longrightarrow> actions s' = actions s \<and> (inv s \<longrightarrow> inv s')"
    and send_actions: "wk_Send worker t d s = ((res, err), s') \<Longrightarrow> actions s' = actions s @ [SentTo t d res err] \<and> (inv s \<longrightarrow> inv s')"
    and success_actions: "ws_CompleteSuccess (wk_store worker) a s = (r, s') \<Longrightarrow>
      actions s' = actions s @ complete_actions RcSucceeded a None r \<and> (inv s \<longrightarrow> inv s')"
    and retry_actions: "ws_CompleteRetry (wk_store worker) a nextAt s = (r, s') \<Longrightarrow>
      actions s' = actions s @ complete_actions RcRetryableFailure a (Some nextAt) r \<and> (inv s \<longrightarrow> inv s')"
    and permanent_actions: "ws_CompletePermanent (wk_store worker) a s = (r, s') \<Longrightarrow>
      actions s' = actions s @ complete_actions RcPermanentFailure a None r \<and> (inv s \<longrightarrow> inv s')"
    and release_actions: "actions (wk_release worker b p s) = actions s @ [GaveBack b p] \<and> (inv s \<longrightarrow> inv (wk_release worker b p s))"
begin

lemma next_attempt:
  assumes "nextAttemptAt ParseTime worker now g retryAfter s = (t, s')"
  shows "actions s' = actions s" "inv s \<longrightarrow> inv s'" "t = None \<Longrightarrow> g < 0"
  using assms jitter_actions
  by (auto simp: nextAttemptAt_def backoff_maximum_def Let_def split: option.splits prod.splits if_splits)

lemma record_retry_log:
  assumes "record_result ParseTime worker task d attempt res err s = (reply, s')" "answers task attempt"
    and retryable: "classify (res_StatusCode res) err d = resultRetryable"
  shows "(\<exists>cls a nextAt. verdict task d res err cls nextAt \<and> answers task a \<and>
      actions s' = actions s @ (case reply of None \<Rightarrow> [] | Some r \<Rightarrow> complete_actions cls a nextAt r)) \<and>
    (inv s \<longrightarrow> inv s') \<and> (reply = None \<longrightarrow> dl_Generation task < 0)"
proof -
  obtain t s1 where n: "nextAttemptAt ParseTime worker (ar_FinishedAt attempt) (dl_Generation task) (res_RetryAfter res) s = (t, s1)"
    by fastforce
  note na = next_attempt [OF n]
  consider (panic) "t = None" | (again) nextAttempt where "t = Some nextAttempt" "nextAttempt < dl_RetryDeadline task"
    | (late) nextAttempt where "t = Some nextAttempt" "\<not> nextAttempt < dl_RetryDeadline task" by (cases t) auto
  then show ?thesis
  proof cases
    case panic
    with n na retryable assms show ?thesis by (auto simp: record_result_def verdict_def intro!: exI [of _ attempt])
  next
    case again
    let ?a = "attempt\<lparr>ar_ErrorCategory := resultErrorCategory (res_StatusCode res) err\<rparr>"
    have a: "answers task ?a" using assms(2) by (simp add: answers_def)
    from again n retryable assms obtain r where "ws_CompleteRetry (wk_store worker) ?a nextAttempt s1 = (r, s')" "reply = Some r"
      by (auto simp: record_result_def split: prod.splits)
    with retry_actions [of ?a nextAttempt s1 r s'] na again a retryable show ?thesis
      by (intro conjI exI [of _ RcRetryableFailure] exI [of _ ?a] exI [of _ "Some nextAttempt"]) (auto simp: verdict_def)
  next
    case late
    let ?a = "attempt\<lparr>ar_ErrorCategory := ''retry_deadline_exhausted''\<rparr>"
    have a: "answers task ?a" using assms(2) by (simp add: answers_def)
    from late n retryable assms obtain r where "ws_CompletePermanent (wk_store worker) ?a s1 = (r, s')" "reply = Some r"
      by (auto simp: record_result_def split: prod.splits)
    with permanent_actions [of ?a s1 r s'] na a retryable show ?thesis
      by (intro conjI exI [of _ RcPermanentFailure] exI [of _ ?a] exI [of _ None]) (auto simp: verdict_def)
  qed
qed

lemma record_result_log:
  assumes "record_result ParseTime worker task d attempt res err s = (reply, s')" "answers task attempt"
  shows "(\<exists>cls a nextAt. verdict task d res err cls nextAt \<and> answers task a \<and>
      actions s' = actions s @ (case reply of None \<Rightarrow> [] | Some r \<Rightarrow> complete_actions cls a nextAt r)) \<and>
    (inv s \<longrightarrow> inv s') \<and> (reply = None \<longrightarrow> dl_Generation task < 0)"
proof (cases "classify (res_StatusCode res) err d")
  case resultSuccess
  with assms obtain r where "ws_CompleteSuccess (wk_store worker) attempt s = (r, s')" "reply = Some r"
    by (auto simp: record_result_def split: prod.splits)
  with success_actions [of attempt s r s'] resultSuccess assms(2) show ?thesis by (auto simp: verdict_def)
next
  case resultPermanent
  let ?a = "attempt\<lparr>ar_ErrorCategory := resultErrorCategory (res_StatusCode res) err\<rparr>"
  from resultPermanent assms obtain r where "ws_CompletePermanent (wk_store worker) ?a s = (r, s')" "reply = Some r"
    by (auto simp: record_result_def split: prod.splits)
  moreover have "answers task ?a" using assms(2) by (simp add: answers_def)
  ultimately show ?thesis using permanent_actions [of ?a s r s'] resultPermanent by (auto simp: verdict_def)
next
  case resultRetryable
  with assms show ?thesis by (rule record_retry_log)
qed

lemma attempt_answers: "answers task (attempt_for task res t0 t1)"
  by (simp add: answers_def attempt_for_def)

lemma process_claimed_log:
  assumes "process_claimed ParseTime worker task d s = (outcome, s')"
  shows "(inv s \<longrightarrow> inv s') \<and> (\<exists>tail. actions s' = actions s @ tail \<and>
    work_trace (Granted p # Claimed task d # tail @ [GaveBack True p]) outcome)"
proof -
  obtain t0 s1 where now0: "wk_now worker s = (t0, s1)" by fastforce
  obtain res err s2 where send: "wk_Send worker task d s1 = ((res, err), s2)" by (metis prod.collapse)
  obtain t1 s3 where now1: "wk_now worker s2 = (t1, s3)" by fastforce
  obtain reply s4 where rec: "record_result ParseTime worker task d (attempt_for task res t0 t1) res err s3 = (reply, s4)" by fastforce
  have out: "s' = s4" "outcome = (case reply of None \<Rightarrow> Panicked
      | Some (Inl e) \<Rightarrow> if e = ErrWorkerLeaseLost then Finished True None else Finished False (Some (CommitFailed e))
      | Some (Inr _) \<Rightarrow> Finished True None)"
    using assms by (simp_all add: process_claimed_def now0 send now1 rec)
  from record_result_log [OF rec attempt_answers] obtain cls a nextAt where v: "verdict task d res err cls nextAt" "answers task a"
    "actions s4 = actions s3 @ (case reply of None \<Rightarrow> [] | Some r \<Rightarrow> complete_actions cls a nextAt r)"
    "inv s3 \<longrightarrow> inv s4" "reply = None \<longrightarrow> dl_Generation task < 0" by blast
  have log: "actions s3 = actions s @ [SentTo task d res err]" "inv s \<longrightarrow> inv s3"
    using now_actions [OF now0] send_actions [OF send] now_actions [OF now1] by auto
  have "work_trace (Granted p # Claimed task d # (SentTo task d res err #
      (case reply of None \<Rightarrow> [] | Some r \<Rightarrow> complete_actions cls a nextAt r)) @ [GaveBack True p]) outcome"
    using v(1,2,5) unfolding out(2)
    by (auto simp: complete_actions_def split: option.split sum.split intro: work_trace.intros)
  with v(3,4) log show ?thesis unfolding out(1) by (intro conjI exI) auto
qed

text \<open>From the permit on.\<close>

lemma process_granted_log:
  assumes "Process ParseTime worker signal s = (outcome, s')"
    and e1: "ws_EligibleDestination (wk_store worker) (sg_DeliveryID signal) (sg_Generation signal) s = (Inr d0, s1)"
    and e2: "ws_ObserveSignal (wk_store worker) (sg_DeliveryID signal) (sg_Generation signal) s1 = (Inr u, s2)"
    and e3: "wk_tryAcquire worker d0 s2 = (Some p, s3)"
  shows "(inv s3 \<longrightarrow> inv s') \<and> (\<exists>tail. actions s' = actions s3 @ tail \<and> work_trace (Granted p # tail) outcome)"
proof -
  obtain r4 s4 where e4: "ws_ClaimDelivery (wk_store worker) (sg_DeliveryID signal) (sg_Generation signal)
      (wk_owner worker) (wk_leaseDuration worker) s3 = (r4, s4)" by fastforce
  note l4 = claim_actions [OF e4]
  show ?thesis
  proof (cases r4)
    case (Inl e)
    with assms(1) l4 release_actions [of False p s4] show ?thesis
      by (auto simp: Process_def e1 e2 e3 e4 Let_def split: if_splits intro: work_trace.intros)
  next
    case (Inr td)
    obtain task d where td: "td = (task, d)" by fastforce
    obtain out s5 where pc: "process_claimed ParseTime worker task d s4 = (out, s5)" by fastforce
    have "outcome = out" "s' = wk_release worker True p s5"
      using assms(1) Inr td by (simp_all add: Process_def e1 e2 e3 e4 pc)
    with process_claimed_log [OF pc, of p] Inr td l4 release_actions [of True p s5] show ?thesis by auto
  qed
qed

lemma process_log:
  assumes "Process ParseTime worker signal s = (outcome, s')"
  shows "(inv s \<longrightarrow> inv s') \<and> (\<exists>tail. actions s' = actions s @ tail \<and> work_trace tail outcome)"
proof -
  let ?i = "sg_DeliveryID signal" and ?g = "sg_Generation signal"
  obtain r1 s1 where e1: "ws_EligibleDestination (wk_store worker) ?i ?g s = (r1, s1)" by fastforce
  note l1 = eligible_actions [OF e1]
  obtain r2 s2 where e2: "ws_ObserveSignal (wk_store worker) ?i ?g s1 = (r2, s2)" by fastforce
  note l2 = observe_actions [OF e2]
  show ?thesis
  proof (cases "isl r1 \<or> isl r2")
    case True
    with assms l1 l2 show ?thesis
      by (auto simp: Process_def e1 e2 split: sum.splits if_splits intro: work_trace.intros)
  next
    case False
    then obtain d0 where d0: "r1 = Inr d0" "r2 = Inr ()" by (cases r1; cases r2) auto
    obtain r3 s3 where e3: "wk_tryAcquire worker d0 s2 = (r3, s3)" by fastforce
    note l3 = acquire_actions [OF e3]
    show ?thesis
    proof (cases r3)
      case None
      with assms d0 l1 l2 l3 show ?thesis by (auto simp: Process_def e1 e2 e3 intro: work_trace.intros)
    next
      case (Some p)
      with process_granted_log [OF assms e1 [unfolded d0] e2 [unfolded d0] e3 [unfolded Some]] d0 l1 l2 l3
      show ?thesis by auto
    qed
  qed
qed

end

section \<open>The world the Worker runs in\<close>

text \<open>The shared database, the process's limiter, the number of calls made and the logs; and the oracles:
  the database environment of each call, what other processes did to the database and what other
  goroutines did to the limiter before it, the clock, and the answers of DNS, of the secret provider and
  of the HTTP library.\<close>

record work_world =
  ww_db :: db
  ww_limiter :: destinationLimiter
  ww_calls :: nat
  ww_log :: "work_action list"
  ww_net :: "net_event list"
  ww_env :: "nat \<Rightarrow> env"
  ww_others :: "nat \<Rightarrow> db \<Rightarrow> db"
  ww_rivals :: "nat \<Rightarrow> destinationLimiter \<Rightarrow> destinationLimiter"
  ww_clock :: "nat \<Rightarrow> instant"
  ww_sender :: "nat \<Rightarrow> Sender"
  ww_http :: "nat \<Rightarrow> Request \<Rightarrow> Exchange"
  ww_ip_literal :: "string \<Rightarrow> string option"

definition work_call :: "(env \<Rightarrow> db \<Rightarrow> 'r \<times> db) \<Rightarrow> ('r \<Rightarrow> work_action list) \<Rightarrow> work_world \<Rightarrow> 'r \<times> work_world" where
  "work_call op acts w =
     (let (r, db') = op (ww_env w (ww_calls w)) (ww_others w (ww_calls w) (ww_db w)) in
      (r, w\<lparr>ww_db := db', ww_calls := Suc (ww_calls w), ww_log := ww_log w @ acts r\<rparr>))"

definition unclaimable :: "store_error + 'a \<Rightarrow> ('a \<Rightarrow> work_action list) \<Rightarrow> work_action list" where
  "unclaimable r acts = (case r of Inr x \<Rightarrow> acts x | Inl e \<Rightarrow> if e = ErrDeliveryNotClaimable then [Unclaimable] else [])"

definition world_workers :: "work_world WorkerStore" where
  "world_workers =
     \<lparr>ws_EligibleDestination = (\<lambda>i g. work_call (\<lambda>E db. (EligibleDestination E db i g, db)) (\<lambda>r. unclaimable r (\<lambda>_. []))),
      ws_ObserveSignal = (\<lambda>i g. work_call (\<lambda>E db. ObserveSignal E db i g) (\<lambda>_. [])),
      ws_ClaimDelivery = (\<lambda>i g owner lease. work_call (\<lambda>E db. ClaimDelivery E db i g owner lease)
         (\<lambda>r. unclaimable r (\<lambda>(t, d). [Claimed t d]))),
      ws_CompleteSuccess = (\<lambda>a. work_call (\<lambda>E db. CompleteSuccess E db a) (complete_actions RcSucceeded a None)),
      ws_CompleteRetry = (\<lambda>a t. work_call (\<lambda>E db. CompleteRetry E db a t) (complete_actions RcRetryableFailure a (Some t))),
      ws_CompletePermanent = (\<lambda>a. work_call (\<lambda>E db. CompletePermanent E db a) (complete_actions RcPermanentFailure a None))\<rparr>"

definition world_now :: "work_world \<Rightarrow> instant \<times> work_world" where
  "world_now w = (ww_clock w (ww_calls w), w\<lparr>ww_calls := Suc (ww_calls w)\<rparr>)"

definition world_acquire :: "DestinationVersion \<Rightarrow> work_world \<Rightarrow> destinationPermit option \<times> work_world" where
  "world_acquire destination w =
     (let (r, limiter) = tryAcquire (ww_clock w (ww_calls w)) destination (ww_rivals w (ww_calls w) (ww_limiter w)) in
      (r, w\<lparr>ww_limiter := limiter, ww_calls := Suc (ww_calls w),
            ww_log := ww_log w @ (case r of Some p \<Rightarrow> [Granted p] | None \<Rightarrow> [])\<rparr>))"

definition world_release :: "bool \<Rightarrow> destinationPermit \<Rightarrow> work_world \<Rightarrow> work_world" where
  "world_release claimed permit w =
     w\<lparr>ww_limiter := snd (permit_release claimed permit (ww_rivals w (ww_calls w) (ww_limiter w))),
       ww_calls := Suc (ww_calls w), ww_log := ww_log w @ [GaveBack claimed permit]\<rparr>"

definition world_send :: "Delivery \<Rightarrow> DestinationVersion \<Rightarrow> work_world \<Rightarrow> (Result \<times> send_error option) \<times> work_world" where
  "world_send task destination w =
     (let ((res, err), net) = Send (ww_ip_literal w) (ww_http w (ww_calls w)) (ww_sender w (ww_calls w)) task destination in
      ((res, err), w\<lparr>ww_calls := Suc (ww_calls w), ww_net := ww_net w @ net, ww_log := ww_log w @ [SentTo task destination res err]\<rparr>))"

definition world_worker :: "string \<Rightarrow> duration \<Rightarrow> work_world Worker" where
  "world_worker owner lease =
     \<lparr>wk_store = world_workers, wk_Send = world_send, wk_owner = owner, wk_leaseDuration = lease, wk_now = world_now,
      wk_jitter = (\<lambda>maximum s. let (t, s') = world_now s in if maximum \<le> 0 then (0, s) else (default_jitter t maximum, s')),
      wk_tryAcquire = world_acquire, wk_release = world_release\<rparr>"

lemma world_worker_sel:
  "wk_store (world_worker owner lease) = world_workers" "wk_Send (world_worker owner lease) = world_send"
  "wk_owner (world_worker owner lease) = owner" "wk_leaseDuration (world_worker owner lease) = lease"
  "wk_now (world_worker owner lease) = world_now" "wk_jitter (world_worker owner lease) = new_jitter world_now"
  "wk_tryAcquire (world_worker owner lease) = world_acquire" "wk_release (world_worker owner lease) = world_release"
  by (simp_all add: world_worker_def)

lemma New_world:
  "New world_now world_acquire world_release (Some world_workers) (Some world_send) owner lease =
     (if owner = [] \<or> lease \<le> 0 then Inl ''Worker requires store, sender, owner, and positive lease''
      else Inr (world_worker owner lease))"
  by (simp add: New_def world_worker_def)

definition work_inv :: "work_world \<Rightarrow> bool" where
  "work_inv w \<longleftrightarrow> db_inv (ww_db w) \<and> (\<forall>n db. db_inv db \<longrightarrow> db_inv (ww_others w n db))"

lemma work_call_law:
  assumes "work_call op acts w = (r, w')" "\<And>E db. db_inv db \<Longrightarrow> db_inv (snd (op E db))"
  shows "ww_log w' = ww_log w @ acts r \<and> (work_inv w \<longrightarrow> work_inv w')"
proof -
  obtain db' where op: "op (ww_env w (ww_calls w)) (ww_others w (ww_calls w) (ww_db w)) = (r, db')"
    and w': "w' = w\<lparr>ww_db := db', ww_calls := Suc (ww_calls w), ww_log := ww_log w @ acts r\<rparr>"
    using assms(1) by (auto simp: work_call_def Let_def split: prod.splits)
  have "db_inv db'" if "work_inv w"
    using assms(2) [of "ww_others w (ww_calls w) (ww_db w)" "ww_env w (ww_calls w)"] that op by (simp add: work_inv_def)
  then show ?thesis by (auto simp: w' work_inv_def)
qed

lemmas worker_store_inv =
  ObserveSignal_good [unfolded good_step_def, THEN conjunct1] ClaimDelivery_good [unfolded good_step_def, THEN conjunct1]
  completeResult_good [unfolded good_step_def, THEN conjunct1]

interpretation ww: worker_world "world_worker owner lease" ww_log work_inv for owner lease
proof
  fix w w' :: work_world
  show "ws_EligibleDestination (wk_store (world_worker owner lease)) i g w = (r1, w') \<Longrightarrow>
      ww_log w' = ww_log w @ (if r1 = Inl ErrDeliveryNotClaimable then [Unclaimable] else []) \<and> (work_inv w \<longrightarrow> work_inv w')" for i g r1
    by (auto simp: world_worker_def world_workers_def unclaimable_def dest!: work_call_law split: sum.splits)
  show "ws_ObserveSignal (wk_store (world_worker owner lease)) i g w = (r2, w') \<Longrightarrow> ww_log w' = ww_log w \<and> (work_inv w \<longrightarrow> work_inv w')" for i g r2
    using work_call_law [of "\<lambda>E db. ObserveSignal E db i g" "\<lambda>_. []" w r2 w'] worker_store_inv(1)
    by (simp add: world_worker_def world_workers_def)
  show "ws_ClaimDelivery (wk_store (world_worker owner lease)) i g own l w = (r4, w') \<Longrightarrow>
      ww_log w' = ww_log w @ (case r4 of Inr (t, d) \<Rightarrow> [Claimed t d]
        | Inl e \<Rightarrow> if e = ErrDeliveryNotClaimable then [Unclaimable] else []) \<and> (work_inv w \<longrightarrow> work_inv w')" for i g own l r4
    using work_call_law [of "\<lambda>E db. ClaimDelivery E db i g own l" "\<lambda>r. unclaimable r (\<lambda>(t, d). [Claimed t d])" w r4 w'] worker_store_inv(2)
    by (simp add: world_worker_def world_workers_def unclaimable_def sum.case_eq_if)
  show "ws_CompleteSuccess (wk_store (world_worker owner lease)) a w = (r, w') \<Longrightarrow>
      ww_log w' = ww_log w @ complete_actions RcSucceeded a None r \<and> (work_inv w \<longrightarrow> work_inv w')" for a r
    using work_call_law [of "\<lambda>E db. CompleteSuccess E db a" "complete_actions RcSucceeded a None" w r w'] worker_store_inv(3)
    by (simp add: world_worker_def world_workers_def CompleteSuccess_def)
  show "ws_CompleteRetry (wk_store (world_worker owner lease)) a t w = (r, w') \<Longrightarrow>
      ww_log w' = ww_log w @ complete_actions RcRetryableFailure a (Some t) r \<and> (work_inv w \<longrightarrow> work_inv w')" for a t r
    using work_call_law [of "\<lambda>E db. CompleteRetry E db a t" "complete_actions RcRetryableFailure a (Some t)" w r w'] worker_store_inv(3)
    by (simp add: world_worker_def world_workers_def CompleteRetry_def)
  show "ws_CompletePermanent (wk_store (world_worker owner lease)) a w = (r, w') \<Longrightarrow>
      ww_log w' = ww_log w @ complete_actions RcPermanentFailure a None r \<and> (work_inv w \<longrightarrow> work_inv w')" for a r
    using work_call_law [of "\<lambda>E db. CompletePermanent E db a" "complete_actions RcPermanentFailure a None" w r w'] worker_store_inv(3)
    by (simp add: world_worker_def world_workers_def CompletePermanent_def)
qed (auto simp: world_worker_def world_now_def world_acquire_def world_release_def world_send_def work_inv_def Let_def
    split: prod.splits if_splits)

section \<open>Safety of a run\<close>

inductive_cases work_traceE: "work_trace tail outcome"

definition is_send :: "work_action \<Rightarrow> bool" where
  "is_send a = (case a of SentTo _ _ _ _ \<Rightarrow> True | _ \<Rightarrow> False)"

definition is_final :: "work_action \<Rightarrow> bool" where
  "is_final a = (case a of Unclaimable \<Rightarrow> True | Recorded _ _ _ \<Rightarrow> True | Lost \<Rightarrow> True | _ \<Rightarrow> False)"

lemma work_trace_final: "work_trace tail outcome \<Longrightarrow> outcome = Finished True None \<longleftrightarrow> list_ex is_final tail"
  by (erule work_traceE) (simp_all add: is_final_def)

lemma work_trace_sends: "work_trace tail outcome \<Longrightarrow> length (filter is_send tail) \<le> 1"
  by (erule work_traceE) (simp_all add: is_send_def)

text \<open>C28. Whatever fails, and whatever other Workers, schedulers and goroutines do between the calls,
  handling a signal follows one of eight traces: a permit is taken before the claim and given back
  exactly once, as used exactly when the claim succeeded; at most one request is sent, only under a
  successful claim; the result is recorded in the class the answer has, with the claim's lease and
  generation. The message is acknowledged if and only if the store said that the delivery is no longer
  claimable, or the result was recorded, or the lease was lost, so a signal is never dropped while,
  by what the store replied, its delivery still needs it. The database invariant is kept throughout.\<close>

theorem worker_acknowledges_only_settled:
  assumes "New world_now world_acquire world_release (Some world_workers) (Some world_send) owner lease = Inr worker"
    and "Process ParseTime worker signal w = (outcome, w')"
  shows "\<exists>tail. ww_log w' = ww_log w @ tail \<and> work_trace tail outcome \<and>
    (outcome = Finished True None \<longleftrightarrow> list_ex is_final tail) \<and> length (filter is_send tail) \<le> 1 \<and>
    (work_inv w \<longrightarrow> work_inv w')"
proof -
  have "worker = world_worker owner lease" using assms(1) by (simp add: New_world split: if_splits)
  with ww.process_log [of ParseTime owner lease signal w outcome w'] assms(2) work_trace_final work_trace_sends
  show ?thesis by blast
qed

section \<open>A run without faults\<close>

lemma ClaimDelivery_fault_free:
  assumes "db_inv db" "fault_free E" "newUUID (rand_read E 0) = Inr token" "uuid_in E i = Some (d_id r)"
    and "r \<in> set (deliveries db)" "worker_eligible (clock_timestamp E) (d_id r) g r"
    and "queryDestinationVersion db (d_destination_id r) (d_destination_version r) = Some v" "owner \<noteq> []" "0 < lease"
  shows "\<exists>db'. ClaimDelivery E db i g owner lease = (Inr (claimed_of_row (claim_row (clock_timestamp E) owner token lease r), v), db') \<and>
    claim_row (clock_timestamp E) owner token lease r \<in> set (deliveries db') \<and> db_inv db' \<and>
    delivery_attempts db' = delivery_attempts db"
proof -
  let ?e = "worker_eligible (clock_timestamp E) (d_id r) g"
  obtain r0 where f: "find ?e (deliveries db) = Some r0" using assms(5,6) by (metis find_None_iff option.exhaust)
  have "r0 = r"
    using find_SomeD [OF f] assms(5) delivery_row_unique [OF assms(1), of r0 r] by (auto simp: worker_eligible_def)
  with f have found: "find ?e (deliveries db) = Some r" by simp
  let ?db' = "db\<lparr>deliveries := update_where ?e (claim_row (clock_timestamp E) owner token lease) (deliveries db)\<rparr>"
  have "ClaimDelivery E db i g owner lease = (Inr (claimed_of_row (claim_row (clock_timestamp E) owner token lease r), v), ?db')"
    using assms(2-4,7-9) found by (auto simp: ClaimDelivery_def Let_def commit_def fault_free_def queryDestinationVersion_def)
  moreover from this have "db_inv ?db'"
    using claim.call_inv [OF assms(1), of E "(i, g, owner, lease)"] by simp
  moreover have "claim_row (clock_timestamp E) owner token lease r \<in> set (deliveries ?db')"
    using assms(5,6) by (auto simp: set_update_where)
  ultimately show ?thesis by auto
qed

lemma complete_claimed:
  assumes "db_inv db" "fault_free E" "newUUID (rand_read E 0) = Inr j" "j \<notin> a_id ` set (delivery_attempts db)"
    and "r \<in> set (deliveries db)" "fenced (clock_timestamp E) a cls nextAt r" "ar_StartedAt a \<le> ar_FinishedAt a"
  shows "\<exists>db'. completeResult E db a cls nextAt = (Inr (), db') \<and>
    complete_row (clock_timestamp E) cls nextAt r \<in> set (deliveries db')"
proof -
  obtain db' where run: "completeResult E db a cls nextAt = (Inr (), db')"
    using completeResult_fault_free [OF assms(1-4,7,5,6)] by blast
  then obtain r0 attemptID where "db' = db\<lparr>deliveries := update_where (fenced (clock_timestamp E) a cls nextAt)
         (complete_row (clock_timestamp E) cls nextAt) (deliveries db),
       delivery_attempts := delivery_attempts db @ [attempt_of_result attemptID a cls]\<rparr>"
    by (rule completeResult_Inr)
  then have "complete_row (clock_timestamp E) cls nextAt r \<in> set (deliveries db')"
    using assms(5,6) by (auto simp: set_update_where)
  with run show ?thesis by blast
qed

text \<open>Nothing fails and no one interferes; the row is eligible, its destination and a permit are there, new
  identifiers are fresh, the Worker's clock does not step back, and the lease outlasts the run.\<close>

definition smooth :: "work_world \<Rightarrow> Signal \<Rightarrow> string \<Rightarrow> duration \<Rightarrow> delivery_row \<Rightarrow> DestinationVersion \<Rightarrow> bool" where
  "smooth w signal owner lease r v \<longleftrightarrow>
     (\<forall>n. fault_free (ww_env w n) \<and> ww_others w n = id \<and> ww_rivals w n = id \<and>
        uuid_in (ww_env w n) (sg_DeliveryID signal) = Some (d_id r) \<and>
        worker_eligible (clock_timestamp (ww_env w n)) (d_id r) (sg_Generation signal) r \<and>
        clock_timestamp (ww_env w n) < clock_timestamp (ww_env w (ww_calls w + 3)) + interval lease \<and>
        (\<exists>u. newUUID (rand_read (ww_env w n) 0) = Inr u \<and> u \<notin> a_id ` set (delivery_attempts (ww_db w))) \<and> 0 \<le> ww_clock w n) \<and>
     ww_clock w (ww_calls w + 4) \<le> ww_clock w (ww_calls w + 6) \<and>
     r \<in> set (deliveries (ww_db w)) \<and> queryDestinationVersion (ww_db w) (d_destination_id r) (d_destination_version r) = Some v \<and>
     fst (tryAcquire (ww_clock w (ww_calls w + 2)) v (ww_limiter w)) \<noteq> None \<and> owner \<noteq> [] \<and> 0 < lease"

definition settled :: "delivery_row \<Rightarrow> instant \<Rightarrow> resultClass \<Rightarrow> delivery_row \<Rightarrow> bool" where
  "settled r finished c r' \<longleftrightarrow> d_id r' = d_id r \<and>
     (case c of
        resultSuccess \<Rightarrow> d_status r' = StatusSucceeded \<and> d_generation r' = d_generation r
      | resultPermanent \<Rightarrow> d_status r' = StatusFailedPermanent \<and> d_generation r' = d_generation r
      | resultRetryable \<Rightarrow>
          d_status r' = StatusFailedPermanent \<and> d_generation r' = d_generation r \<or>
          d_status r' = StatusPending \<and> d_generation r' = d_generation r + 1 \<and>
          timestamptz finished \<le> d_next_attempt_at r' \<and> d_next_attempt_at r' \<le> finished + Hour \<and> d_next_attempt_at r' < d_retry_deadline r')"

text \<open>The result part, from a claimed row.\<close>

definition undisturbed :: "work_world \<Rightarrow> instant \<Rightarrow> bool" where
  "undisturbed w expiry \<longleftrightarrow> (\<forall>n. fault_free (ww_env w n) \<and> ww_others w n = id \<and> clock_timestamp (ww_env w n) < expiry \<and>
     (\<exists>u. newUUID (rand_read (ww_env w n) 0) = Inr u \<and> u \<notin> a_id ` set (delivery_attempts (ww_db w))) \<and> 0 \<le> ww_clock w n)"

lemma undisturbed_cong:
  "undisturbed w expiry \<Longrightarrow> ww_db w1 = ww_db w \<Longrightarrow> ww_env w1 = ww_env w \<Longrightarrow> ww_others w1 = ww_others w \<Longrightarrow>
    ww_clock w1 = ww_clock w \<Longrightarrow> undisturbed w1 expiry"
  by (simp add: undisturbed_def)

lemma completion_lands:
  assumes "db_inv (ww_db w)" "claim_row T owner token lease r \<in> set (deliveries (ww_db w))" "undisturbed w (T + interval lease)"
    and "answers (claimed_of_row (claim_row T owner token lease r)) a" "ar_StartedAt a \<le> ar_FinishedAt a"
    and "cls = RcRetryableFailure \<longrightarrow> (\<exists>t. nextAt = Some t \<and> t < d_retry_deadline r)"
  obtains w' where "work_call (\<lambda>E db. completeResult E db a cls nextAt) acts w = (Inr (), w')"
    "complete_row (clock_timestamp (ww_env w (ww_calls w))) cls nextAt (claim_row T owner token lease r) \<in> set (deliveries (ww_db w'))"
proof -
  let ?E = "ww_env w (ww_calls w)"
  have env: "fault_free ?E" "ww_others w (ww_calls w) = id" "clock_timestamp ?E < T + interval lease"
    and "\<exists>u. newUUID (rand_read ?E 0) = Inr u \<and> u \<notin> a_id ` set (delivery_attempts (ww_db w))"
    using assms(3) by (simp_all add: undisturbed_def)
  then obtain u where u: "newUUID (rand_read ?E 0) = Inr u" "u \<notin> a_id ` set (delivery_attempts (ww_db w))" by blast
  have "fenced (clock_timestamp ?E) a cls nextAt (claim_row T owner token lease r)"
    using assms(4,6) env(3) by (cases cls) (auto simp: fenced_def answers_def)
  then obtain db' where "completeResult ?E (ww_db w) a cls nextAt = (Inr (), db')"
    "complete_row (clock_timestamp ?E) cls nextAt (claim_row T owner token lease r) \<in> set (deliveries db')"
    using complete_claimed [OF assms(1) env(1) u assms(2) _ assms(5)] by blast
  with env(2) show thesis by (intro that) (simp add: work_call_def, simp)
qed

lemma attempt_for_answers: "answers task ((attempt_for task res t0 t1)\<lparr>ar_ErrorCategory := c\<rparr>)"
  by (simp add: answers_def attempt_for_def)

lemma attempt_for_times [simp]:
  "ar_StartedAt (attempt_for task res t0 t1) = t0" "ar_FinishedAt (attempt_for task res t0 t1) = t1"
  by (simp_all add: attempt_for_def)

lemma record_retry_settles:
  assumes inv: "db_inv (ww_db w)" and row: "claim_row T owner token lease r \<in> set (deliveries (ww_db w))"
    and env: "undisturbed w (T + interval lease)" and gen: "0 \<le> d_generation r" and times: "t0 \<le> t1"
    and retryable: "classify (res_StatusCode res) err v = resultRetryable"
  shows "\<exists>w' r'. record_result ParseTime (world_worker owner' lease') (claimed_of_row (claim_row T owner token lease r)) v
      (attempt_for (claimed_of_row (claim_row T owner token lease r)) res t0 t1) res err w = (Some (Inr ()), w') \<and>
    r' \<in> set (deliveries (ww_db w')) \<and> settled r t1 (classify (res_StatusCode res) err v) r'"
proof -
  let ?row = "claim_row T owner token lease r"
  let ?b = "\<lambda>c. (attempt_for (claimed_of_row ?row) res t0 t1)\<lparr>ar_ErrorCategory := c\<rparr>"
  let ?cat = "resultErrorCategory (res_StatusCode res) err"
  have "wk_jitter (world_worker owner' lease') = new_jitter world_now" "0 \<le> fst (world_now w)"
    using env by (simp_all add: world_worker_sel world_now_def undisturbed_def)
  then obtain t w1 where n: "nextAttemptAt ParseTime (world_worker owner' lease') t1 (d_generation r) (res_RetryAfter res) w = (Some t, w1)"
    "t1 \<le> t" "t \<le> t1 + Hour" and w1: "w1 = w \<or> w1 = snd (world_now w)"
    using gen by (elim nextAttemptAt_bounded)
  from w1 have "undisturbed w1 (T + interval lease)" and db: "ww_db w1 = ww_db w"
    using undisturbed_cong [OF env] by (auto simp: world_now_def)
  note land = completion_lands [OF inv [folded db] row [folded db] this(1) attempt_for_answers]
  show ?thesis
  proof (cases "t < d_retry_deadline r")
    case True
    obtain w' where "ws_CompleteRetry world_workers (?b ?cat) t w1 = (Inr (), w')"
      "complete_row (clock_timestamp (ww_env w1 (ww_calls w1))) RcRetryableFailure (Some t) ?row \<in> set (deliveries (ww_db w'))"
      by (rule land [where cls = RcRetryableFailure and nextAt = "Some t"])
        (use times True in \<open>auto simp: world_workers_def CompleteRetry_def\<close>)
    with n True show ?thesis
      by (intro exI conjI)
        (auto simp: record_result_def world_worker_sel retryable settled_def complete_row_def timestamptz_mono)
  next
    case False
    obtain w' where "ws_CompletePermanent world_workers (?b ''retry_deadline_exhausted'') w1 = (Inr (), w')"
      "complete_row (clock_timestamp (ww_env w1 (ww_calls w1))) RcPermanentFailure None ?row \<in> set (deliveries (ww_db w'))"
      by (rule land [where cls = RcPermanentFailure and nextAt = None])
        (use times in \<open>auto simp: world_workers_def CompletePermanent_def\<close>)
    with n False show ?thesis
      by (intro exI conjI) (auto simp: record_result_def world_worker_sel retryable settled_def complete_row_def)
  qed
qed

lemma record_result_settles:
  assumes inv: "db_inv (ww_db w)" and row: "claim_row T owner token lease r \<in> set (deliveries (ww_db w))"
    and env: "undisturbed w (T + interval lease)" and gen: "0 \<le> d_generation r" and times: "t0 \<le> t1"
  shows "\<exists>w' r'. record_result ParseTime (world_worker owner' lease') (claimed_of_row (claim_row T owner token lease r)) v
      (attempt_for (claimed_of_row (claim_row T owner token lease r)) res t0 t1) res err w = (Some (Inr ()), w') \<and>
    r' \<in> set (deliveries (ww_db w')) \<and> settled r t1 (classify (res_StatusCode res) err v) r'"
proof (cases "classify (res_StatusCode res) err v")
  case resultSuccess
  obtain w' where "ws_CompleteSuccess world_workers (attempt_for (claimed_of_row (claim_row T owner token lease r)) res t0 t1) w = (Inr (), w')"
    "complete_row (clock_timestamp (ww_env w (ww_calls w))) RcSucceeded None (claim_row T owner token lease r) \<in> set (deliveries (ww_db w'))"
    by (rule completion_lands [OF inv row env ww.attempt_answers, where cls = RcSucceeded and nextAt = None])
      (use times in \<open>auto simp: world_workers_def CompleteSuccess_def\<close>)
  then show ?thesis
    by (intro exI conjI) (auto simp: record_result_def world_worker_sel resultSuccess settled_def complete_row_def)
next
  case resultPermanent
  obtain w' where "ws_CompletePermanent world_workers ((attempt_for (claimed_of_row (claim_row T owner token lease r)) res t0 t1)
      \<lparr>ar_ErrorCategory := resultErrorCategory (res_StatusCode res) err\<rparr>) w = (Inr (), w')"
    "complete_row (clock_timestamp (ww_env w (ww_calls w))) RcPermanentFailure None (claim_row T owner token lease r) \<in> set (deliveries (ww_db w'))"
    by (rule completion_lands [OF inv row env attempt_for_answers, where cls = RcPermanentFailure and nextAt = None])
      (use times in \<open>auto simp: world_workers_def CompletePermanent_def\<close>)
  then show ?thesis
    by (intro exI conjI) (auto simp: record_result_def world_worker_sel resultPermanent settled_def complete_row_def)
next
  case resultRetryable
  then show ?thesis by (rule record_retry_settles [OF assms])
qed

lemma EligibleDestination_fault_free:
  assumes "db_inv db" "fault_free E" "uuid_in E i = Some (d_id r)" "r \<in> set (deliveries db)"
    and "worker_eligible (clock_timestamp E) (d_id r) g r"
    and "queryDestinationVersion db (d_destination_id r) (d_destination_version r) = Some v"
  shows "EligibleDestination E db i g = Inr v"
proof -
  obtain r0 where f: "find (worker_eligible (clock_timestamp E) (d_id r) g) (deliveries db) = Some r0"
    using assms(4,5) by (metis find_None_iff option.exhaust)
  have "r0 = r"
    using find_SomeD [OF f] assms(4) delivery_row_unique [OF assms(1), of r0 r] by (auto simp: worker_eligible_def)
  with f assms(2,3,6) show ?thesis by (simp add: EligibleDestination_def fault_free_def)
qed

lemma ObserveSignal_fault_free:
  assumes "db_inv db" "fault_free E" "uuid_in E i = Some j"
  obtains db' where "ObserveSignal E db i g = (Inr (), db')" "db_inv db'" "deliveries db' = deliveries db"
    "delivery_attempts db' = delivery_attempts db" "destination_versions db' = destination_versions db"
proof -
  have "snd (ObserveSignal E db i g) = snd (ObserveSignal E db i g)" by simp
  with ObserveSignal_good [OF assms(1), of E i g] assms(2,3) show thesis
    by (intro that [of "snd (ObserveSignal E db i g)"])
      (simp_all add: ObserveSignal_def commit_def fault_free_def good_step_def)
qed

lemma smoothD:
  assumes "smooth w signal owner lease r v"
  shows "fault_free (ww_env w n)" "ww_others w n = id" "ww_rivals w n = id" "uuid_in (ww_env w n) (sg_DeliveryID signal) = Some (d_id r)"
    "worker_eligible (clock_timestamp (ww_env w n)) (d_id r) (sg_Generation signal) r"
    "undisturbed w (clock_timestamp (ww_env w (ww_calls w + 3)) + interval lease)"
    "ww_clock w (ww_calls w + 4) \<le> ww_clock w (ww_calls w + 6)" "r \<in> set (deliveries (ww_db w))" "owner \<noteq> []" "0 < lease"
    "queryDestinationVersion (ww_db w) (d_destination_id r) (d_destination_version r) = Some v"
    "\<exists>p. fst (tryAcquire (ww_clock w (ww_calls w + 2)) v (ww_limiter w)) = Some p"
  using assms by (auto simp: smooth_def undisturbed_def)

text \<open>The way to the claim: the first four calls of \<^const>\<open>Process\<close> hand the task over, and nothing but the claimed
  row, the signal's observation and the permit has changed.\<close>

lemma smooth_claims:
  assumes inv: "db_inv (ww_db w)" and smooth: "smooth w signal owner lease r v"
    and token: "newUUID (rand_read (ww_env w (ww_calls w + 3)) 0) = Inr token"
  obtains p w4 where
    "Process ParseTime (world_worker owner lease) signal w =
      (let (outcome, w') = process_claimed ParseTime (world_worker owner lease)
             (claimed_of_row (claim_row (clock_timestamp (ww_env w (ww_calls w + 3))) owner token lease r)) v w4
       in (outcome, world_release True p w'))"
    "db_inv (ww_db w4)" "claim_row (clock_timestamp (ww_env w (ww_calls w + 3))) owner token lease r \<in> set (deliveries (ww_db w4))"
    "undisturbed w4 (clock_timestamp (ww_env w (ww_calls w + 3)) + interval lease)" "ww_calls w4 = ww_calls w + 4"
    "ww_clock w4 = ww_clock w" "ww_ip_literal w4 = ww_ip_literal w" "ww_http w4 = ww_http w" "ww_sender w4 = ww_sender w"
proof -
  note sm = smoothD [OF smooth]
  let ?c = "ww_calls w" and ?i = "sg_DeliveryID signal" and ?g = "sg_Generation signal"
  let ?T = "clock_timestamp (ww_env w (?c + 3))"
  let ?task = "claimed_of_row (claim_row ?T owner token lease r)"
  obtain p L where acq: "tryAcquire (ww_clock w (?c + 2)) v (ww_limiter w) = (Some p, L)"
    using sm(12) by (metis prod.collapse)
  have e1: "EligibleDestination (ww_env w ?c) (ww_db w) ?i ?g = Inr v"
    by (rule EligibleDestination_fault_free [OF inv sm(1,4,8,5,11)])
  obtain db2 where e2: "ObserveSignal (ww_env w (?c + 1)) (ww_db w) ?i ?g = (Inr (), db2)" "db_inv db2"
    "deliveries db2 = deliveries (ww_db w)" "delivery_attempts db2 = delivery_attempts (ww_db w)"
    "destination_versions db2 = destination_versions (ww_db w)"
    by (rule ObserveSignal_fault_free [OF inv sm(1,4)])
  have "queryDestinationVersion db2 (d_destination_id r) (d_destination_version r) = Some v"
    using sm(11) e2(5) by (simp add: queryDestinationVersion_def)
  with ClaimDelivery_fault_free [OF e2(2) sm(1) token sm(4) _ sm(5)] sm(8-10) e2(3) obtain db4 where
    e4: "ClaimDelivery (ww_env w (?c + 3)) db2 ?i ?g owner lease = (Inr (?task, v), db4)"
    "claim_row ?T owner token lease r \<in> set (deliveries db4)" "db_inv db4" "delivery_attempts db4 = delivery_attempts db2"
    by metis
  let ?w1 = "w\<lparr>ww_calls := ?c + 1, ww_log := ww_log w @ []\<rparr>"
  let ?w2 = "?w1\<lparr>ww_db := db2, ww_calls := ?c + 2, ww_log := ww_log ?w1 @ []\<rparr>"
  let ?w3 = "?w2\<lparr>ww_limiter := L, ww_calls := ?c + 3, ww_log := ww_log ?w2 @ [Granted p]\<rparr>"
  let ?w4 = "?w3\<lparr>ww_db := db4, ww_calls := ?c + 4, ww_log := ww_log ?w3 @ [Claimed ?task v]\<rparr>"
  have s1: "ws_EligibleDestination world_workers ?i ?g w = (Inr v, ?w1)"
    using e1 by (simp add: world_workers_def work_call_def sm(2) unclaimable_def)
  have s2: "ws_ObserveSignal world_workers ?i ?g ?w1 = (Inr (), ?w2)"
    using e2(1) by (simp add: world_workers_def work_call_def sm(2))
  have s3: "world_acquire v ?w2 = (Some p, ?w3)"
    using acq by (simp add: world_acquire_def sm(3) numeral_2_eq_2 numeral_3_eq_3)
  have s4: "ws_ClaimDelivery world_workers ?i ?g owner lease ?w3 = (Inr (?task, v), ?w4)"
    using e4(1) by (simp add: world_workers_def work_call_def sm(2) unclaimable_def numeral_3_eq_3 eval_nat_numeral)
  show thesis
  proof (rule that [of ?w4 p])
    show "Process ParseTime (world_worker owner lease) signal w =
        (let (outcome, w') = process_claimed ParseTime (world_worker owner lease) ?task v ?w4 in (outcome, world_release True p w'))"
      unfolding Process_def world_worker_sel s1 s2 s3 s4 prod.case sum.case option.case Let_def ..
  qed (use sm(6) e4 e2(4) in \<open>simp_all add: undisturbed_def\<close>)
qed

text \<open>When nothing fails, a signal for an eligible delivery leads to exactly one attempt whose outcome
  the database records as the answer of the outbound client demands: success ends the delivery,
  a permanent failure fails it, and a retryable one leaves it pending in the next generation at a time
  at most an hour after the attempt and before its deadline, or fails it when that time would be past the
  deadline. The message is acknowledged.\<close>

theorem worker_settles_delivery:
  assumes "db_inv (ww_db w)" "smooth w signal owner lease r v"
    and "task = claimed_of_row (claim_row (clock_timestamp (ww_env w (ww_calls w + 3))) owner token lease r)"
    and "newUUID (rand_read (ww_env w (ww_calls w + 3)) 0) = Inr token"
    and "fst (Send (ww_ip_literal w) (ww_http w (ww_calls w + 5)) (ww_sender w (ww_calls w + 5)) task v) = (res, err)"
  shows "\<exists>w' r'. Process ParseTime (world_worker owner lease) signal w = (Finished True None, w') \<and>
    r' \<in> set (deliveries (ww_db w')) \<and>
    settled r (ww_clock w (ww_calls w + 6)) (classify (res_StatusCode res) err v) r'"
proof -
  let ?c = "ww_calls w"
  note sm = smoothD [OF assms(2)]
  obtain p w4 where run: "Process ParseTime (world_worker owner lease) signal w =
      (let (outcome, w') = process_claimed ParseTime (world_worker owner lease) task v w4 in (outcome, world_release True p w'))"
    and w4: "db_inv (ww_db w4)" "claim_row (clock_timestamp (ww_env w (?c + 3))) owner token lease r \<in> set (deliveries (ww_db w4))"
      "undisturbed w4 (clock_timestamp (ww_env w (?c + 3)) + interval lease)" "ww_calls w4 = ?c + 4"
      "ww_clock w4 = ww_clock w" "ww_ip_literal w4 = ww_ip_literal w" "ww_http w4 = ww_http w" "ww_sender w4 = ww_sender w"
    unfolding assms(3) by (rule smooth_claims [OF assms(1,2,4)])
  let ?net = "snd (Send (ww_ip_literal w) (ww_http w (?c + 5)) (ww_sender w (?c + 5)) task v)"
  let ?w7 = "w4\<lparr>ww_calls := ?c + 7, ww_net := ww_net w4 @ ?net, ww_log := ww_log w4 @ [SentTo task v res err]\<rparr>"
  have "0 \<le> d_generation r" using delivery_checkD [OF assms(1) sm(8)] by (simp add: delivery_check_def)
  moreover have "undisturbed ?w7 (clock_timestamp (ww_env w (?c + 3)) + interval lease)" by (rule undisturbed_cong [OF w4(3)]) simp_all
  ultimately obtain w' r' where rec: "record_result ParseTime (world_worker owner lease) task v
      (attempt_for task res (ww_clock w (?c + 4)) (ww_clock w (?c + 6))) res err ?w7 = (Some (Inr ()), w')"
    "r' \<in> set (deliveries (ww_db w'))" "settled r (ww_clock w (?c + 6)) (classify (res_StatusCode res) err v) r'"
    using record_result_settles [of ?w7 _ owner token lease r _ _ ParseTime owner lease v res err] w4(1,2) sm(7)
    unfolding assms(3) by fastforce
  have send: "world_send task v (w4\<lparr>ww_calls := ?c + 5\<rparr>) = ((res, err), ?w7\<lparr>ww_calls := ?c + 6\<rparr>)"
    using assms(5) w4 by (auto simp: world_send_def eval_nat_numeral split: prod.splits)
  have now0: "world_now w4 = (ww_clock w (?c + 4), w4\<lparr>ww_calls := ?c + 5\<rparr>)" using w4 by (simp add: world_now_def)
  have now1: "world_now (?w7\<lparr>ww_calls := ?c + 6\<rparr>) = (ww_clock w (?c + 6), ?w7)" using w4 by (simp add: world_now_def)
  have "process_claimed ParseTime (world_worker owner lease) task v w4 = (Finished True None, w')"
    unfolding process_claimed_def Let_def world_worker_sel now0 send now1 rec(1) prod.case option.case sum.case ..
  with run rec(2,3) show ?thesis by (auto simp: world_release_def)
qed

section \<open>The properties on an example\<close>

definition demo_world :: work_world where
  "demo_world = \<lparr>ww_db = demo_db, ww_limiter = newDestinationLimiter, ww_calls = 0, ww_log = [], ww_net = [],
     ww_env = (\<lambda>_. quiet_env 10), ww_others = (\<lambda>_. id), ww_rivals = (\<lambda>_. id), ww_clock = (\<lambda>_. 10),
     ww_sender = (\<lambda>_. demo_sender\<lparr>sn_resolver := \<lambda>_. Inr []\<rparr>), ww_http = (\<lambda>_. demo_http), ww_ip_literal = no_ip_literal\<rparr>"

definition demo_signal :: Signal where
  "demo_signal = \<lparr>sg_DeliveryID = ''p'', sg_Generation = 0, sg_TraceID = ''tp''\<rparr>"

abbreviation demo_row :: delivery_row where
  "demo_row \<equiv> demo_delivery ''p'' ''kp'' StatusPending 0"

lemma demo_smooth: "smooth demo_world demo_signal ''w'' Second demo_row (destination_of_row demo_version)"
proof -
  have "newUUID (rand_read (quiet_env 10) 0) = Inr ''00000000-0000-4000-8000-000000000000''" by code_simp
  moreover have "worker_eligible 10 ''p'' 0 demo_row" by code_simp
  moreover have "interval Second = Second" by code_simp
  moreover have "fst (tryAcquire 10 (destination_of_row demo_version) newDestinationLimiter) \<noteq> None" by code_simp
  moreover have "queryDestinationVersion demo_db (d_destination_id demo_row) (d_destination_version demo_row) =
      Some (destination_of_row demo_version)" by code_simp
  moreover have "demo_row \<in> set (deliveries demo_db)" "delivery_attempts demo_db = []" "d_id demo_row = ''p''"
    by (simp_all add: demo_db_def empty_db_def demo_delivery_def)
  ultimately show ?thesis
    unfolding smooth_def by (simp add: demo_world_def demo_signal_def quiet_env_def fault_free_def)
qed

abbreviation demo_claimed :: Delivery where
  "demo_claimed \<equiv> claimed_of_row (claim_row 10 ''w'' ''00000000-0000-4000-8000-000000000000'' Second demo_row)"

lemma demo_refused: "fst (Send no_ip_literal demo_http (demo_sender\<lparr>sn_resolver := \<lambda>_. Inr []\<rparr>) demo_claimed (destination_of_row demo_version)) =
    (zero_result, Some (Permanent ''destination DNS returned no addresses''))"
  by code_simp

theorem worker_settles_delivery_witness:
  "\<exists>w' r'. Process (\<lambda>_. None) (world_worker ''w'' Second) demo_signal demo_world = (Finished True None, w') \<and>
     r' \<in> set (deliveries (ww_db w')) \<and> d_id r' = ''p'' \<and> d_status r' = StatusFailedPermanent"
proof -
  have "newUUID (rand_read (ww_env demo_world (ww_calls demo_world + 3)) 0) = Inr ''00000000-0000-4000-8000-000000000000''"
    by code_simp
  moreover have "fst (Send (ww_ip_literal demo_world) (ww_http demo_world (ww_calls demo_world + 5)) (ww_sender demo_world (ww_calls demo_world + 5))
      demo_claimed (destination_of_row demo_version)) = (zero_result, Some (Permanent ''destination DNS returned no addresses''))"
    using demo_refused by (simp add: demo_world_def)
  moreover have "db_inv (ww_db demo_world)" "clock_timestamp (ww_env demo_world (ww_calls demo_world + 3)) = 10"
    using demo_db_inv by (simp_all add: demo_world_def quiet_env_def)
  ultimately obtain w' r' where "Process (\<lambda>_. None) (world_worker ''w'' Second) demo_signal demo_world = (Finished True None, w')"
    "r' \<in> set (deliveries (ww_db w'))"
    "settled demo_row (ww_clock demo_world (ww_calls demo_world + 6))
      (classify (res_StatusCode zero_result) (Some (Permanent ''destination DNS returned no addresses'')) (destination_of_row demo_version)) r'"
    using worker_settles_delivery [OF _ demo_smooth, of demo_claimed] by metis
  then show ?thesis by (auto simp: settled_def classify_def demo_delivery_def)
qed

theorem worker_acknowledges_only_settled_witness:
  "\<exists>tail. ww_log (snd (Process (\<lambda>_. None) (world_worker ''w'' Second) demo_signal demo_world)) = tail \<and>
     work_trace tail (fst (Process (\<lambda>_. None) (world_worker ''w'' Second) demo_signal demo_world)) \<and> length (filter is_send tail) \<le> 1"
proof -
  have new: "New world_now world_acquire world_release (Some world_workers) (Some world_send) ''w'' Second =
    Inr (world_worker ''w'' Second)" by (simp add: New_world)
  show ?thesis
    using worker_acknowledges_only_settled [OF new, of "\<lambda>_. None" demo_signal demo_world, OF prod.collapse [symmetric]]
    by (auto simp: demo_world_def)
qed

theorem retry_delay_bounded_witness:
  "\<exists>t s'. nextAttemptAt (\<lambda>_. None) (world_worker ''w'' Second) 100 3 ''7'' demo_world = (Some t, s') \<and> t = 100 + 7 * Second"
proof -
  have new: "New world_now world_acquire world_release (Some world_workers) (Some world_send) ''w'' Second =
    Inr (world_worker ''w'' Second)" by (simp add: New_world)
  have "parseRetryAfter (\<lambda>_. None) 100 ''7'' = Some (7 * Second)" by code_simp
  moreover have "0 \<le> fst (world_now demo_world)" by (simp add: world_now_def demo_world_def)
  ultimately show ?thesis
    using retry_delay_bounded [OF new, of 3 demo_world "\<lambda>_. None" 100 "''7''"] by auto
qed

end
