(* ===== verification/Outbox.thy ===== *)
theory Outbox
  imports Store
begin

text \<open>
  The Outbox operations of \<open>internal/delivery/outbox.go\<close>: claiming due events under a lease,
  recording their publication, releasing them. Each is one autocommitted statement; RETURNING
  gives the claimed rows in the order of the candidates. Event identifiers and lease tokens
  are the canonical texts the store itself generated.
\<close>

section \<open>Operations\<close>

record OutboxEvent =
  oe_ID :: string
  oe_DeliveryID :: string
  oe_Generation :: int
  oe_TraceID :: string
  oe_LeaseOwner :: string
  oe_LeaseToken :: string

text \<open>The WHERE clause of the candidates.\<close>

definition outbox_claimable :: "instant \<Rightarrow> outbox_row \<Rightarrow> bool" where
  "outbox_claimable now e \<longleftrightarrow> o_published_at e = None \<and> o_available_at e \<le> now \<and>
     (case o_lease_until e of None \<Rightarrow> True | Some u \<Rightarrow> u \<le> now)"

definition outbox_candidates :: "env \<Rightarrow> db \<Rightarrow> int \<Rightarrow> outbox_row list" where
  "outbox_candidates E db limit =
     select_limit (outbox_claimable (clock_timestamp E)) (\<lambda>e. row_locked E (o_id e))
       (\<lambda>e. (o_available_at e, o_created_at e)) limit (outbox_events db)"

definition claimed_event :: "string \<Rightarrow> string \<Rightarrow> outbox_row \<Rightarrow> OutboxEvent" where
  "claimed_event owner token e =
     \<lparr>oe_ID = o_id e, oe_DeliveryID = o_delivery_id e, oe_Generation = o_generation e,
      oe_TraceID = o_trace_id e, oe_LeaseOwner = owner, oe_LeaseToken = token\<rparr>"

definition lease_event :: "string \<Rightarrow> string \<Rightarrow> instant \<Rightarrow> outbox_row \<Rightarrow> outbox_row" where
  "lease_event owner token until e =
     e\<lparr>o_lease_owner := Some owner, o_lease_token := Some token, o_lease_until := Some until\<rparr>"

definition ClaimOutbox ::
  "env \<Rightarrow> db \<Rightarrow> string \<Rightarrow> duration \<Rightarrow> int \<Rightarrow> (store_error + OutboxEvent list) \<times> db" where
  "ClaimOutbox E db owner leaseDuration limit =
     (if owner = [] \<or> leaseDuration \<le> 0 \<or> limit \<le> 0
      then (Inl (ErrConfig ''invalid Outbox claim parameters''), db)
      else case newUUID (rand_read E 0) of Inl e \<Rightarrow> (Inl e, db) | Inr token \<Rightarrow>
        let candidates = outbox_candidates E db limit;
            until = clock_timestamp E + Milliseconds leaseDuration * Millisecond;
            db' = db\<lparr>outbox_events := update_where (\<lambda>e. o_id e \<in> o_id ` set candidates)
                      (lease_event owner token until) (outbox_events db)\<rparr>
        in commit_rows E [''claim Outbox events'', ''scan claimed Outbox event'', ''iterate claimed Outbox events'']
             db db' (map (claimed_event owner token) candidates))"

text \<open>The WHERE clause of the publication: the event under an unexpired lease of this claim.\<close>

definition holds_outbox_lease :: "instant \<Rightarrow> OutboxEvent \<Rightarrow> outbox_row \<Rightarrow> bool" where
  "holds_outbox_lease now event e \<longleftrightarrow> o_id e = oe_ID event \<and> o_published_at e = None \<and>
     o_lease_owner e = Some (oe_LeaseOwner event) \<and> o_lease_token e = Some (oe_LeaseToken event) \<and>
     (case o_lease_until e of None \<Rightarrow> False | Some u \<Rightarrow> u > now)"

definition publish_event :: "instant \<Rightarrow> outbox_row \<Rightarrow> outbox_row" where
  "publish_event now e = e\<lparr>o_published_at := Some now, o_observed_at := None,
     o_lease_owner := None, o_lease_token := None, o_lease_until := None\<rparr>"

definition MarkOutboxPublished :: "env \<Rightarrow> db \<Rightarrow> OutboxEvent \<Rightarrow> (store_error + unit) \<times> db" where
  "MarkOutboxPublished E db event =
     (let p = holds_outbox_lease (clock_timestamp E) event;
          db' = db\<lparr>outbox_events := update_where p (publish_event (clock_timestamp E)) (outbox_events db)\<rparr>
      in case commit E ''mark Outbox event published'' db db' () of
           (Inl e, db1) \<Rightarrow> (Inl e, db1)
         | (Inr _, db1) \<Rightarrow> if count_where p (outbox_events db) \<noteq> 1 then (Inl ErrOutboxLeaseLost, db1) else (Inr (), db1))"

definition release_event :: "outbox_row \<Rightarrow> outbox_row" where
  "release_event e = e\<lparr>o_lease_owner := None, o_lease_token := None, o_lease_until := None\<rparr>"

definition ReleaseOutbox :: "env \<Rightarrow> db \<Rightarrow> OutboxEvent \<Rightarrow> (store_error + unit) \<times> db" where
  "ReleaseOutbox E db event =
     (let p = (\<lambda>e. o_id e = oe_ID event \<and> o_published_at e = None \<and>
            o_lease_owner e = Some (oe_LeaseOwner event) \<and> o_lease_token e = Some (oe_LeaseToken event));
          db' = db\<lparr>outbox_events := update_where p release_event (outbox_events db)\<rparr>
      in case commit E ''release Outbox event'' db db' () of
           (Inl e, db1) \<Rightarrow> (Inl e, db1)
         | (Inr _, db1) \<Rightarrow>
             if count_where p (outbox_events db) = 0
             then if stmt_fails E ''inspect Outbox release'' then (Inl (ErrDb ''inspect Outbox release''), db1)
                  else case find (\<lambda>e. o_id e = oe_ID event) (outbox_events db1) of
                    None \<Rightarrow> (Inl ErrOutboxLeaseLost, db1)
                  | Some e \<Rightarrow> if o_published_at e = None then (Inl ErrOutboxLeaseLost, db1) else (Inr (), db1)
             else (Inr (), db1))"

section \<open>The operations keep the invariant\<close>

lemma legal_event_updates:
  "legal_event_update (lease_event owner token until)"
  "legal_event_update (publish_event now)"
  "legal_event_update release_event"
  by (simp_all add: legal_event_update_def lease_event_def publish_event_def release_event_def outbox_check_def)

lemma ClaimOutbox_good: "db_inv db \<Longrightarrow> good_step db (snd (ClaimOutbox E db owner lease limit))"
  by (auto simp: ClaimOutbox_def Let_def good_step_refl split: sum.split
      intro!: good_step_commit_rows good_step_update_events legal_event_updates)

lemma MarkOutboxPublished_snd:
  "snd (MarkOutboxPublished E db event) =
     snd (commit E ''mark Outbox event published'' db (db\<lparr>outbox_events :=
       update_where (holds_outbox_lease (clock_timestamp E) event) (publish_event (clock_timestamp E)) (outbox_events db)\<rparr>) ())"
  by (simp add: MarkOutboxPublished_def Let_def split: prod.split sum.split)

lemma MarkOutboxPublished_good: "db_inv db \<Longrightarrow> good_step db (snd (MarkOutboxPublished E db event))"
  unfolding MarkOutboxPublished_snd by (intro good_step_commit good_step_update_events legal_event_updates)

lemma ReleaseOutbox_good: "db_inv db \<Longrightarrow> good_step db (snd (ReleaseOutbox E db event))"
  by (auto simp: ReleaseOutbox_def Let_def commit_def good_step_refl split: option.split
      intro!: good_step_update_events legal_event_updates)

interpretation claim_outbox: store_operation "\<lambda>E (owner, lease, limit) db. ClaimOutbox E db owner lease limit"
  by unfold_locales (auto simp: ClaimOutbox_good)

interpretation mark_outbox: store_operation "\<lambda>E event db. MarkOutboxPublished E db event"
  by unfold_locales (rule MarkOutboxPublished_good)

interpretation release_outbox: store_operation "\<lambda>E event db. ReleaseOutbox E db event"
  by unfold_locales (rule ReleaseOutbox_good)

section \<open>What a claim holds\<close>

lemma ClaimOutbox_Inr:
  assumes "ClaimOutbox E db owner lease limit = (Inr events, db')"
  obtains token where
    "events = map (claimed_event owner token) (outbox_candidates E db limit)"
    "db' = db\<lparr>outbox_events := update_where (\<lambda>e. o_id e \<in> o_id ` set (outbox_candidates E db limit))
       (lease_event owner token (clock_timestamp E + Milliseconds lease * Millisecond)) (outbox_events db)\<rparr>"
  using assms unfolding ClaimOutbox_def Let_def guard_Inr
  by (elim conjE exE) (auto dest!: commit_rows_Inr intro: that)

lemma outbox_events_of_update: "outbox_events (db\<lparr>outbox_events := es\<rparr>) = es"
  by simp

lemma outbox_candidatesD:
  assumes "e \<in> set (outbox_candidates E db limit)"
  shows "e \<in> set (outbox_events db)" "outbox_claimable (clock_timestamp E) e" "\<not> row_locked E (o_id e)"
  using select_limitD [OF assms [unfolded outbox_candidates_def]] by simp_all

lemma oe_claimed_event [simp]:
  "oe_ID (claimed_event owner token e) = o_id e" "oe_LeaseOwner (claimed_event owner token e) = owner"
  "oe_LeaseToken (claimed_event owner token e) = token"
  "oe_DeliveryID (claimed_event owner token e) = o_delivery_id e"
  "oe_Generation (claimed_event owner token e) = o_generation e"
  "oe_TraceID (claimed_event owner token e) = o_trace_id e"
  by (simp_all add: claimed_event_def)

text \<open>An event held under a lease that has not run out is not claimable.\<close>

lemma leased_not_claimable: "now < until \<Longrightarrow> \<not> outbox_claimable now (lease_event owner token until e)"
  by (simp add: outbox_claimable_def lease_event_def)

lemma o_id_event_updates [simp]:
  "o_id (lease_event owner token until e) = o_id e" "o_id (publish_event now e) = o_id e" "o_id (release_event e) = o_id e"
  by (simp_all add: lease_event_def publish_event_def release_event_def)

lemma outbox_row_unique:
  "db_inv db \<Longrightarrow> e \<in> set (outbox_events db) \<Longrightarrow> e' \<in> set (outbox_events db) \<Longrightarrow> o_id e = o_id e' \<Longrightarrow> e = e'"
  by (rule distinct_map_in_eq [where key = o_id and rs = "outbox_events db"])
    (auto simp: db_inv_def schema_ok_def outbox_ok_def)

text \<open>C15. Two publishers never hold the same event: while the lease of a first claim runs, a second
  claim, by any owner and under any faults, returns none of the events the first returned.\<close>

theorem outbox_claims_exclusive:
  assumes "ClaimOutbox E db owner lease limit = (Inr events, db1)"
    and "ClaimOutbox E' db1 owner' lease' limit' = (Inr events', db2)"
    and "clock_timestamp E' < clock_timestamp E + Milliseconds lease * Millisecond"
  shows "oe_ID ` set events \<inter> oe_ID ` set events' = {}"
proof -
  from assms(1) obtain token where
    ev: "events = map (claimed_event owner token) (outbox_candidates E db limit)" and
    db1: "outbox_events db1 = update_where (\<lambda>e. o_id e \<in> o_id ` set (outbox_candidates E db limit))
       (lease_event owner token (clock_timestamp E + Milliseconds lease * Millisecond)) (outbox_events db)"
    by (metis ClaimOutbox_Inr outbox_events_of_update)
  from assms(2) obtain token' where
    ev': "events' = map (claimed_event owner' token') (outbox_candidates E' db1 limit')"
    by (rule ClaimOutbox_Inr)
  have "o_id e \<notin> o_id ` set (outbox_candidates E db limit)" if e: "e \<in> set (outbox_candidates E' db1 limit')" for e
    using outbox_candidatesD(1) [OF e] unfolding db1
  proof (cases rule: in_update_whereE)
    case (upd e0)
    then show ?thesis using outbox_candidatesD(2) [OF e] leased_not_claimable [OF assms(3)] by simp
  qed simp
  then show ?thesis unfolding ev ev' set_map image_image oe_claimed_event by (intro Int_emptyI) (metis imageE imageI)
qed

theorem outbox_claims_exclusive_witness:
  "oe_ID ` set [claimed_event ''w'' ''00000000-0000-4000-8000-000000000000'' (new_event ''ep'' ''p'' 0 ''tp'' 0 0)] \<inter>
   oe_ID ` set [claimed_event ''x'' ''00000000-0000-4000-8000-000000000000'' (new_event ''ed'' ''d'' 0 ''td'' 0 0)] = {}"
  by (rule outbox_claims_exclusive [of "quiet_env 10" demo_db "''w''" Second 1 _
        "snd (ClaimOutbox (quiet_env 10) demo_db ''w'' Second 1)" "quiet_env 20" "''x''" Second 1 _
        "snd (ClaimOutbox (quiet_env 20) (snd (ClaimOutbox (quiet_env 10) demo_db ''w'' Second 1)) ''x'' Second 1)"];
      code_simp)

text \<open>The candidates come first in the order of the claim, and their rows are leased.\<close>

lemma outbox_candidates_first:
  assumes "e \<in> set (outbox_candidates E db limit)" "e' \<in> set (outbox_events db)"
    and "o_id e' \<notin> o_id ` set (outbox_candidates E db limit)"
    and "outbox_claimable (clock_timestamp E) e'" "\<not> row_locked E (o_id e')"
  shows "(o_available_at e, o_created_at e) \<le> (o_available_at e', o_created_at e')"
  using assms by (intro select_limit_first [where rs = "outbox_events db" and n = limit and
          p = "outbox_claimable (clock_timestamp E)" and l = "\<lambda>e. row_locked E (o_id e)"
          and k = "\<lambda>e. (o_available_at e, o_created_at e)", folded outbox_candidates_def]) auto

lemma outbox_candidates_leased:
  assumes "e \<in> set (outbox_candidates E db limit)"
  shows "f e \<in> set (update_where (\<lambda>e. o_id e \<in> o_id ` set (outbox_candidates E db limit)) f (outbox_events db))"
  using assms outbox_candidatesD(1) [OF assms] by (auto simp: set_update_where)

text \<open>A claim returns only unpublished, due events that no running lease and no other transaction
  holds, at most \<open>limit\<close> of them, oldest first; it leases exactly these to the owner under one
  token and leaves every other event as it was.\<close>

theorem outbox_claim_selects_oldest:
  assumes "db_inv db" "ClaimOutbox E db owner lease limit = (Inr events, db')"
  shows "int (length events) \<le> limit \<and> distinct (map oe_ID events) \<and> deliveries db' = deliveries db \<and>
    (\<exists>token. (\<forall>ev\<in>set events. oe_LeaseOwner ev = owner \<and> oe_LeaseToken ev = token) \<and>
      (\<forall>e\<in>set (outbox_events db).
         if o_id e \<in> oe_ID ` set events
         then outbox_claimable (clock_timestamp E) e \<and> \<not> row_locked E (o_id e) \<and>
           lease_event owner token (clock_timestamp E + Milliseconds lease * Millisecond) e \<in> set (outbox_events db') \<and>
           (\<forall>e'\<in>set (outbox_events db). o_id e' \<notin> oe_ID ` set events \<and> outbox_claimable (clock_timestamp E) e' \<and>
              \<not> row_locked E (o_id e') \<longrightarrow> (o_available_at e, o_created_at e) \<le> (o_available_at e', o_created_at e'))
         else e \<in> set (outbox_events db')))"
proof -
  from assms(2) have limit: "limit > 0" unfolding ClaimOutbox_def guard_Inr by simp
  let ?C = "outbox_candidates E db limit"
  from assms(2) obtain token where ev: "events = map (claimed_event owner token) ?C"
    and db': "db' = db\<lparr>outbox_events := update_where (\<lambda>e. o_id e \<in> o_id ` set ?C)
       (lease_event owner token (clock_timestamp E + Milliseconds lease * Millisecond)) (outbox_events db)\<rparr>"
    by (rule ClaimOutbox_Inr)
  have ids: "oe_ID ` set events = o_id ` set ?C" by (simp add: ev image_image)
  have cand: "e \<in> set ?C" if "e \<in> set (outbox_events db)" "o_id e \<in> o_id ` set ?C" for e
    using that outbox_row_unique [OF assms(1)] outbox_candidatesD(1) by (metis (mono_tags, lifting) imageE)
  have leased: "lease_event owner token (clock_timestamp E + Milliseconds lease * Millisecond) e \<in> set (outbox_events db')"
    if "e \<in> set ?C" for e
    using outbox_candidates_leased [OF that] by (simp add: db')
  have kept: "e \<in> set (outbox_events db')" if "e \<in> set (outbox_events db)" "o_id e \<notin> o_id ` set ?C" for e
    unfolding db' using image_eqI [of e "\<lambda>r. if o_id r \<in> o_id ` set ?C then _ r else r", OF _ that(1)] that(2)
    by (simp add: set_update_where)
  have "length ?C \<le> nat limit" unfolding outbox_candidates_def by (rule length_select_limit)
  then have "int (length events) \<le> limit" using limit by (simp add: ev)
  moreover have "distinct (map o_id ?C)" unfolding outbox_candidates_def
    by (rule distinct_select_limit) (use assms(1) in \<open>simp add: db_inv_def schema_ok_def outbox_ok_def\<close>)
  then have "distinct (map oe_ID events)" by (simp add: ev comp_def)
  moreover have "deliveries db' = deliveries db" by (simp add: db')
  moreover have "\<forall>ev\<in>set events. oe_LeaseOwner ev = owner \<and> oe_LeaseToken ev = token" by (auto simp: ev)
  moreover have "if o_id e \<in> o_id ` set ?C
      then outbox_claimable (clock_timestamp E) e \<and> \<not> row_locked E (o_id e) \<and>
        lease_event owner token (clock_timestamp E + Milliseconds lease * Millisecond) e \<in> set (outbox_events db') \<and>
        (\<forall>e'\<in>set (outbox_events db). o_id e' \<notin> o_id ` set ?C \<and> outbox_claimable (clock_timestamp E) e' \<and>
           \<not> row_locked E (o_id e') \<longrightarrow> (o_available_at e, o_created_at e) \<le> (o_available_at e', o_created_at e'))
      else e \<in> set (outbox_events db')" if e: "e \<in> set (outbox_events db)" for e
  proof (cases "o_id e \<in> o_id ` set ?C")
    case True
    note c = cand [OF e True]
    show ?thesis
      unfolding if_P [OF True] using outbox_candidatesD(2,3) [OF c] leased [OF c] outbox_candidates_first [OF c] by blast
  qed (use kept [OF e] in simp)
  ultimately show ?thesis unfolding ids by blast
qed

theorem outbox_claim_selects_oldest_witness:
  "let events = [claimed_event ''w'' ''00000000-0000-4000-8000-000000000000'' (new_event ''ep'' ''p'' 0 ''tp'' 0 0)]
   in ClaimOutbox (quiet_env 10) demo_db ''w'' Second 1 =
        (Inr events, snd (ClaimOutbox (quiet_env 10) demo_db ''w'' Second 1)) \<and>
      int (length events) \<le> 1 \<and> distinct (map oe_ID events)"
proof -
  have run: "ClaimOutbox (quiet_env 10) demo_db ''w'' Second 1 =
    (Inr [claimed_event ''w'' ''00000000-0000-4000-8000-000000000000'' (new_event ''ep'' ''p'' 0 ''tp'' 0 0)],
     snd (ClaimOutbox (quiet_env 10) demo_db ''w'' Second 1))" by code_simp
  from outbox_claim_selects_oldest [OF demo_db_inv run] run show ?thesis by (simp add: Let_def)
qed

section \<open>Publication is fenced\<close>

lemma count_holds_lease:
  "db_inv db \<Longrightarrow> count_where (holds_outbox_lease now event) (outbox_events db) =
     (if \<exists>e\<in>set (outbox_events db). holds_outbox_lease now event e then 1 else 0)"
  by (rule count_where_distinct [where key = o_id and k = "oe_ID event"])
    (auto simp: db_inv_def schema_ok_def outbox_ok_def holds_outbox_lease_def)

lemma MarkOutboxPublished_fault_free:
  assumes "db_inv db" "fault_free E"
  shows "MarkOutboxPublished E db event =
    (if \<exists>e\<in>set (outbox_events db). holds_outbox_lease (clock_timestamp E) event e
     then (Inr (), db\<lparr>outbox_events := update_where (holds_outbox_lease (clock_timestamp E) event)
            (publish_event (clock_timestamp E)) (outbox_events db)\<rparr>)
     else (Inl ErrOutboxLeaseLost, db))"
proof (cases "\<exists>e\<in>set (outbox_events db). holds_outbox_lease (clock_timestamp E) event e")
  case False
  then have "update_where (holds_outbox_lease (clock_timestamp E) event) (publish_event (clock_timestamp E)) (outbox_events db) =
    outbox_events db" by (intro update_where_none) auto
  with False assms show ?thesis by (simp add: MarkOutboxPublished_def Let_def count_holds_lease)
qed (use assms in \<open>simp add: MarkOutboxPublished_def Let_def count_holds_lease\<close>)

lemma claimed_row_leased:
  assumes "db_inv db" "ClaimOutbox E db owner lease limit = (Inr events, db1)" "event \<in> set events"
  obtains e token where "event = claimed_event owner token e"
    "lease_event owner token (clock_timestamp E + Milliseconds lease * Millisecond) e \<in> set (outbox_events db1)"
    "o_published_at e = None"
proof -
  let ?C = "outbox_candidates E db limit" and ?until = "clock_timestamp E + Milliseconds lease * Millisecond"
  from assms(2) obtain token where ev: "events = map (claimed_event owner token) ?C"
    and db1: "db1 = db\<lparr>outbox_events := update_where (\<lambda>e. o_id e \<in> o_id ` set ?C) (lease_event owner token ?until) (outbox_events db)\<rparr>"
    by (rule ClaimOutbox_Inr)
  from assms(3) obtain e where e: "e \<in> set ?C" "event = claimed_event owner token e" by (auto simp: ev)
  moreover have "lease_event owner token ?until e \<in> set (outbox_events db1)"
    using outbox_candidates_leased [OF e(1)] by (simp add: db1)
  moreover have "o_published_at e = None" using outbox_candidatesD(2) [OF e(1)] by (simp add: outbox_claimable_def)
  ultimately show thesis using that by blast
qed

lemma published_not_claimed:
  assumes "fst (ClaimOutbox E db owner lease limit) = Inr events"
    and "\<And>x. x \<in> set (outbox_events db) \<Longrightarrow> o_id x = i \<Longrightarrow> o_published_at x \<noteq> None"
  shows "i \<notin> oe_ID ` set events"
proof
  assume i: "i \<in> oe_ID ` set events"
  from assms(1) have "ClaimOutbox E db owner lease limit = (Inr events, snd (ClaimOutbox E db owner lease limit))"
    by (metis prod.collapse)
  then obtain t where "events = map (claimed_event owner t) (outbox_candidates E db limit)" by (rule ClaimOutbox_Inr)
  with i obtain x where x: "x \<in> set (outbox_candidates E db limit)" "o_id x = i" by auto
  from assms(2) [OF outbox_candidatesD(1) [OF x(1)] x(2)] outbox_candidatesD(2) [OF x(1)] show False
    by (simp add: outbox_claimable_def)
qed

text \<open>The publication of a claimed event is recorded while its lease runs and refused, with nothing
  changed, once the lease has run out: a publisher that lost its lease cannot mark the event, and a
  recorded event is never claimed again by the publishers.\<close>

theorem outbox_publication_fenced:
  assumes "db_inv db" "ClaimOutbox E db owner lease limit = (Inr events, db1)" "event \<in> set events" "fault_free E1"
  shows "if clock_timestamp E1 < clock_timestamp E + Milliseconds lease * Millisecond
    then (\<exists>db2. MarkOutboxPublished E1 db1 event = (Inr (), db2) \<and>
       (\<forall>e\<in>set (outbox_events db2). o_id e = oe_ID event \<longrightarrow> o_published_at e = Some (clock_timestamp E1)) \<and>
       (\<forall>E2 o2 l2 n2 events2. fst (ClaimOutbox E2 db2 o2 l2 n2) = Inr events2 \<longrightarrow> oe_ID event \<notin> oe_ID ` set events2))
    else MarkOutboxPublished E1 db1 event = (Inl ErrOutboxLeaseLost, db1)"
proof -
  let ?until = "clock_timestamp E + Milliseconds lease * Millisecond" and ?now = "clock_timestamp E1"
  from assms(1-3) obtain e token where e: "event = claimed_event owner token e"
    and leased: "lease_event owner token ?until e \<in> set (outbox_events db1)" and unpub: "o_published_at e = None"
    by (rule claimed_row_leased)
  have inv1: "db_inv db1" using ClaimOutbox_good [OF assms(1), of E owner lease limit] assms(2) by (simp add: good_step_def)
  show ?thesis
  proof (cases "?now < ?until")
    case True
    then have "holds_outbox_lease ?now event (lease_event owner token ?until e)"
      using unpub by (simp add: holds_outbox_lease_def e lease_event_def)
    then have mark: "MarkOutboxPublished E1 db1 event = (Inr (), db1\<lparr>outbox_events :=
        update_where (holds_outbox_lease ?now event) (publish_event ?now) (outbox_events db1)\<rparr>)" (is "_ = (_, ?db2)")
      using MarkOutboxPublished_fault_free [OF inv1 assms(4)] leased by auto
    have pub: "o_published_at x = Some ?now" if "x \<in> set (outbox_events ?db2)" "o_id x = oe_ID event" for x
    proof -
      from that(1) have "x \<in> set (update_where (holds_outbox_lease ?now event) (publish_event ?now) (outbox_events db1))" by simp
      then show ?thesis
      proof (cases rule: in_update_whereE)
        case same
        then have "x = lease_event owner token ?until e"
          using outbox_row_unique [OF inv1 _ leased] that(2) by (simp add: e)
        with same \<open>holds_outbox_lease ?now event (lease_event owner token ?until e)\<close> show ?thesis by simp
      qed (simp add: publish_event_def)
    qed
    have "oe_ID event \<notin> oe_ID ` set events2" if "fst (ClaimOutbox E2 ?db2 o2 l2 n2) = Inr events2" for E2 o2 l2 n2 events2
      using that by (rule published_not_claimed) (use pub in auto)
    with True mark pub show ?thesis by auto
  next
    case False
    have "\<not> holds_outbox_lease ?now event x" if x: "x \<in> set (outbox_events db1)" for x
    proof
      assume h: "holds_outbox_lease ?now event x"
      then have "x = lease_event owner token ?until e"
        using outbox_row_unique [OF inv1 x leased] by (simp add: holds_outbox_lease_def e)
      with h False show False by (simp add: holds_outbox_lease_def lease_event_def)
    qed
    with False MarkOutboxPublished_fault_free [OF inv1 assms(4)] show ?thesis by auto
  qed
qed

theorem outbox_publication_fenced_witness:
  "\<exists>db2. MarkOutboxPublished (quiet_env 20) (snd (ClaimOutbox (quiet_env 10) demo_db ''w'' Second 1))
      (claimed_event ''w'' ''00000000-0000-4000-8000-000000000000'' (new_event ''ep'' ''p'' 0 ''tp'' 0 0)) = (Inr (), db2)"
proof -
  have run: "ClaimOutbox (quiet_env 10) demo_db ''w'' Second 1 =
    (Inr [claimed_event ''w'' ''00000000-0000-4000-8000-000000000000'' (new_event ''ep'' ''p'' 0 ''tp'' 0 0)],
     snd (ClaimOutbox (quiet_env 10) demo_db ''w'' Second 1))" by code_simp
  have "(20::int) < clock_timestamp (quiet_env 10) + Milliseconds Second * Millisecond" by code_simp
  then show ?thesis
    using outbox_publication_fenced [OF demo_db_inv run list.set_intros(1) fault_free_quiet [of 20]]
    by (auto simp: quiet_env_def)
qed

end
