(* ===== verification/Publisher.thy ===== *)
theory Publisher
  imports Outbox
begin

text \<open>
  The Outbox publisher (\<open>internal/dispatch/publisher.go\<close>) and the confirmation protocol of
  \<open>publishSignal\<close> (\<open>internal/dispatch/rabbit.go\<close>). The Go interfaces \<open>OutboxStore\<close> and
  \<open>SignalBroker\<close> are records of operations over a state of any type; their contract is the
  locale \<open>publisher_world\<close>, interpreted below on a world in which the store is the model of
  \<open>Outbox\<close>, other processes act on the database between any two calls, and every call and every
  reply of the broker can fail. AMQP itself is an argument: which answers arrived while a call waited, and which
  ready case its \<open>select\<close> statement took. The answers wait in two Go channels that all calls on a broker
  share and that carry no correlation the code looks at.
\<close>

section \<open>The broker\<close>

text \<open>The channels \<open>confirms\<close> and \<open>returns\<close> of a broker: the answers not yet received, oldest first (those the
  library has not yet been able to send included). An answer is shown with the number of the publication
  it belongs to, counted from 0 on the channel. The code never looks at that number; it is here to say whose
  answer a call took. For the same purpose the record keeps which publications have been confirmed and,
  for each successful call, its publication and the one whose confirmation it took.\<close>

record broker_channels =
  ch_sent :: nat
  ch_confirms :: "(nat \<times> bool) list"
  ch_returns :: "(nat \<times> string) list"
  ch_confirmed :: "nat list"
  ch_taken :: "(nat \<times> nat) list"

text \<open>The channels of a new broker.\<close>

definition new_channels :: broker_channels where
  "new_channels = \<lparr>ch_sent = 0, ch_confirms = [], ch_returns = [], ch_confirmed = [], ch_taken = []\<rparr>"

text \<open>What the library and the scheduler do during one call of \<open>publishSignal\<close>: whether the publication was sent, the
  answers that arrive until the first \<open>select\<close> fires and the returns that arrive before the second one looks,
  whether the library has closed the channels, and the case that the first \<open>select\<close> takes.\<close>

datatype select_case = TakeReturn | TakeConfirm | TakeDone

record broker_moment =
  bm_sent :: bool
  bm_confirms :: "(nat \<times> bool) list"
  bm_returns :: "(nat \<times> string) list"
  bm_late_returns :: "(nat \<times> string) list"
  bm_closed :: bool
  bm_pick :: select_case

datatype broker_error =
    ErrPublish
  | ErrUnroutable string
  | ErrConfirmClosed
  | ErrNack
  | ErrContext

definition arrivals :: "broker_moment \<Rightarrow> broker_channels \<Rightarrow> broker_channels" where
  "arrivals m ch = ch\<lparr>ch_confirms := ch_confirms ch @ bm_confirms m, ch_returns := ch_returns ch @ bm_returns m,
     ch_confirmed := ch_confirmed ch @ map fst (bm_confirms m)\<rparr>"

text \<open>A case is ready when its channel holds an answer or is closed; a \<open>select\<close> without a ready answer waits until the
  context ends.\<close>

definition select_fires :: "broker_moment \<Rightarrow> broker_channels \<Rightarrow> select_case" where
  "select_fires m ch =
     (case bm_pick m of
        TakeReturn \<Rightarrow> if ch_returns ch \<noteq> [] \<or> bm_closed m then TakeReturn else TakeDone
      | TakeConfirm \<Rightarrow> if ch_confirms ch \<noteq> [] \<or> bm_closed m then TakeConfirm else TakeDone
      | TakeDone \<Rightarrow> TakeDone)"

text \<open>\<open><-broker.returns\<close>; a closed channel gives the zero \<open>Return\<close>.\<close>

fun receive_return :: "broker_channels \<Rightarrow> (broker_error + unit) \<times> broker_channels" where
  "receive_return ch =
     (case ch_returns ch of
        [] \<Rightarrow> (Inl (ErrUnroutable []), ch)
      | (n, text) # rest \<Rightarrow> (Inl (ErrUnroutable text), ch\<lparr>ch_returns := rest\<rparr>))"

declare receive_return.simps [simp del]

text \<open>One call; the broker's mutex lets no other run in between.\<close>

definition publishSignal :: "broker_moment \<Rightarrow> broker_channels \<Rightarrow> (broker_error + unit) \<times> broker_channels" where
  "publishSignal m ch =
     (if \<not> bm_sent m then (Inl ErrPublish, arrivals m ch)
      else let ch1 = arrivals m (ch\<lparr>ch_sent := Suc (ch_sent ch)\<rparr>) in
      case select_fires m ch1 of
        TakeReturn \<Rightarrow> receive_return ch1
      | TakeConfirm \<Rightarrow>
          (case ch_confirms ch1 of
             [] \<Rightarrow> (Inl ErrConfirmClosed, ch1)
           | (n, ack) # rest \<Rightarrow>
               let ch2 = ch1\<lparr>ch_confirms := rest\<rparr> in
               if \<not> ack then (Inl ErrNack, ch2)
               else let ch3 = ch2\<lparr>ch_returns := ch_returns ch2 @ bm_late_returns m\<rparr> in
               if ch_returns ch3 \<noteq> [] \<or> bm_closed m then receive_return ch3
               else (Inr (), ch3\<lparr>ch_taken := ch_taken ch3 @ [(ch_sent ch, n)]\<rparr>))
      | TakeDone \<Rightarrow> (Inl ErrContext, ch1))"

section \<open>Whose confirmation a call takes\<close>

text \<open>What RabbitMQ promises of its answers: a publication is confirmed at most once and only after it was sent,
  and returned, if at all, before it is confirmed.\<close>

definition honest :: "broker_moment \<Rightarrow> broker_channels \<Rightarrow> bool" where
  "honest m ch \<longleftrightarrow>
     (let sent = (if bm_sent m then Suc (ch_sent ch) else ch_sent ch) in
      distinct (map fst (bm_confirms m)) \<and>
      (\<forall>n\<in>fst ` set (bm_confirms m) \<union> fst ` set (bm_returns m). n < sent \<and> n \<notin> set (ch_confirmed ch)) \<and>
      (\<forall>n\<in>fst ` set (bm_late_returns m). n < sent \<and> n \<notin> set (ch_confirmed ch) \<union> fst ` set (bm_confirms m)))"

text \<open>All publications so far were confirmed and no answer is left in the channels.\<close>

definition in_step :: "broker_channels \<Rightarrow> bool" where
  "in_step ch \<longleftrightarrow> ch_confirms ch = [] \<and> ch_returns ch = [] \<and> set (ch_confirmed ch) = {..<ch_sent ch}"

lemma in_step_new: "in_step new_channels"
  by (simp add: in_step_def new_channels_def)

lemma receive_return_Inl: "fst (receive_return ch) \<noteq> Inr x"
  by (auto simp: receive_return.simps split: list.split)

lemma receive_return_taken: "ch_taken (snd (receive_return ch)) = ch_taken ch"
  by (auto simp: receive_return.simps split: list.split)

lemma publishSignal_Inl:
  assumes "publishSignal m ch = (Inl e, ch')"
  shows "ch_taken ch' = ch_taken ch"
proof -
  have "ch_taken ch' = ch_taken x" if "receive_return x = (Inl e, ch')" for x
    using receive_return_taken [of x] that by simp
  with assms show ?thesis
    by (auto simp: publishSignal_def Let_def arrivals_def split: if_splits select_case.splits list.splits prod.splits)
qed

lemma publishSignal_Inr:
  assumes "publishSignal m ch = (Inr (), ch')"
  obtains n rest where "bm_sent m" "ch_confirms ch @ bm_confirms m = (n, True) # rest"
    "ch_returns ch @ bm_returns m @ bm_late_returns m = []"
    "ch' = ch\<lparr>ch_sent := Suc (ch_sent ch), ch_confirms := rest, ch_returns := [],
       ch_confirmed := ch_confirmed ch @ map fst (bm_confirms m), ch_taken := ch_taken ch @ [(ch_sent ch, n)]\<rparr>"
proof -
  let ?ch1 = "arrivals m (ch\<lparr>ch_sent := Suc (ch_sent ch)\<rparr>)"
  from assms have sent: "bm_sent m" by (auto simp: publishSignal_def split: if_splits)
  with assms receive_return_Inl obtain n ack rest where taken: "ch_confirms ?ch1 = (n, ack) # rest"
    by (auto simp: publishSignal_def Let_def split: select_case.splits list.splits prod.splits) (metis fst_conv)+
  with assms sent receive_return_Inl have "ack" "ch_returns ch @ bm_returns m @ bm_late_returns m = []" 
    "ch' = ?ch1\<lparr>ch_confirms := rest, ch_returns := [], ch_taken := ch_taken ch @ [(ch_sent ch, n)]\<rparr>"
    by (auto simp: publishSignal_def Let_def arrivals_def split: select_case.splits if_splits) (metis fst_conv)+
  with taken sent show thesis by (intro that [of n rest]) (simp_all add: arrivals_def)
qed

text \<open>A successful call on channels in step took the confirmation of its own publication, and leaves them in step.\<close>

lemma own_confirmation:
  assumes "in_step ch" "honest m ch" "publishSignal m ch = (Inr (), ch')"
  shows "ch_taken ch' = ch_taken ch @ [(ch_sent ch, ch_sent ch)]" "ch_sent ch' = Suc (ch_sent ch)" "in_step ch'"
proof -
  from assms(3) obtain n rest where r: "bm_sent m" "ch_confirms ch @ bm_confirms m = (n, True) # rest"
    "ch' = ch\<lparr>ch_sent := Suc (ch_sent ch), ch_confirms := rest, ch_returns := [],
       ch_confirmed := ch_confirmed ch @ map fst (bm_confirms m), ch_taken := ch_taken ch @ [(ch_sent ch, n)]\<rparr>"
    by (rule publishSignal_Inr)
  have arrived: "bm_confirms m = (n, True) # rest" using assms(1) r(2) by (simp add: in_step_def)
  have own: "x = ch_sent ch" if "x \<in> fst ` set (bm_confirms m)" for x
  proof -
    from assms(2) that r(1) have "x < Suc (ch_sent ch)" "x \<notin> set (ch_confirmed ch)" by (auto simp: honest_def)
    with assms(1) show ?thesis by (simp add: in_step_def)
  qed
  then have n: "n = ch_sent ch" by (simp add: arrived)
  have "rest = []"
  proof (cases rest)
    case (Cons x xs)
    then have "fst x = ch_sent ch" using own [of "fst x"] by (simp add: arrived)
    with assms(2) n Cons show ?thesis by (simp add: honest_def arrived Let_def)
  qed
  with n r(3) arrived assms(1) show "ch_taken ch' = ch_taken ch @ [(ch_sent ch, ch_sent ch)]" "ch_sent ch' = Suc (ch_sent ch)"
    "in_step ch'" by (auto simp: in_step_def lessThan_Suc)
qed

text \<open>A broker that confirms every publication at once.\<close>

definition prompt :: "broker_channels \<Rightarrow> broker_moment" where
  "prompt ch = \<lparr>bm_sent = True, bm_confirms = [(ch_sent ch, True)], bm_returns = [], bm_late_returns = [],
     bm_closed = False, bm_pick = TakeConfirm\<rparr>"

lemma prompt_confirms:
  assumes "in_step ch"
  obtains ch' where "publishSignal (prompt ch) ch = (Inr (), ch')" "honest (prompt ch) ch" "in_step ch'"
proof -
  have "\<exists>ch'. publishSignal (prompt ch) ch = (Inr (), ch')" "honest (prompt ch) ch"
    using assms by (auto simp: prompt_def publishSignal_def select_fires_def arrivals_def in_step_def honest_def)
  with own_confirmation [OF assms] show thesis by (metis that)
qed

text \<open>Out of step it need not be so. After a publication that was returned (the broker confirms it nonetheless), its
  confirmation stays in the channel, and the next call takes it: it reports success although its own publication
  has not been answered at all.\<close>

definition returned_moment :: "string \<Rightarrow> broker_channels \<Rightarrow> broker_moment" where
  "returned_moment text ch = \<lparr>bm_sent = True, bm_confirms = [(ch_sent ch, True)], bm_returns = [(ch_sent ch, text)],
     bm_late_returns = [], bm_closed = False, bm_pick = TakeReturn\<rparr>"

definition unanswered_moment :: broker_moment where
  "unanswered_moment = \<lparr>bm_sent = True, bm_confirms = [], bm_returns = [], bm_late_returns = [], bm_closed = False, bm_pick = TakeConfirm\<rparr>"

theorem stale_confirmation_taken:
  assumes "in_step ch"
  shows "honest (returned_moment text ch) ch \<and>
    (\<exists>ch1. publishSignal (returned_moment text ch) ch = (Inl (ErrUnroutable text), ch1) \<and> honest unanswered_moment ch1 \<and>
      (\<exists>ch2. publishSignal unanswered_moment ch1 = (Inr (), ch2) \<and>
         ch_taken ch2 = ch_taken ch @ [(Suc (ch_sent ch), ch_sent ch)] \<and> Suc (ch_sent ch) \<notin> set (ch_confirmed ch2)))"
  using assms
  by (auto simp: returned_moment_def unanswered_moment_def honest_def publishSignal_def select_fires_def arrivals_def receive_return.simps
      in_step_def Let_def)

theorem stale_confirmation_taken_witness:
  "\<exists>ch1. publishSignal (returned_moment ''NO_ROUTE'' new_channels) new_channels = (Inl (ErrUnroutable ''NO_ROUTE''), ch1) \<and>
     fst (publishSignal unanswered_moment ch1) = Inr ()"
  using stale_confirmation_taken [OF in_step_new, of "''NO_ROUTE''"] by auto

section \<open>The publisher\<close>

record 's OutboxStore =
  os_ClaimOutbox :: "string \<Rightarrow> duration \<Rightarrow> int \<Rightarrow> 's \<Rightarrow> (store_error + OutboxEvent list) \<times> 's"
  os_MarkOutboxPublished :: "OutboxEvent \<Rightarrow> 's \<Rightarrow> (store_error + unit) \<times> 's"
  os_ReleaseOutbox :: "OutboxEvent \<Rightarrow> 's \<Rightarrow> (store_error + unit) \<times> 's"

record 's SignalBroker =
  sb_Publish :: "Signal \<Rightarrow> 's \<Rightarrow> (broker_error + unit) \<times> 's"

record 's Publisher =
  pb_store :: "'s OutboxStore"
  pb_broker :: "'s SignalBroker"
  pb_owner :: string
  pb_leaseDuration :: duration
  pb_batchSize :: int

definition NewPublisher ::
  "'s OutboxStore option \<Rightarrow> 's SignalBroker option \<Rightarrow> string \<Rightarrow> duration \<Rightarrow> int \<Rightarrow> store_error + 's Publisher" where
  "NewPublisher store broker owner leaseDuration batchSize =
     (case (store, broker) of
        (Some st, Some br) \<Rightarrow>
          if owner = [] \<or> leaseDuration \<le> 0 \<or> batchSize \<le> 0
          then Inl (ErrConfig ''invalid Publisher configuration'')
          else Inr \<lparr>pb_store = st, pb_broker = br, pb_owner = owner, pb_leaseDuration = leaseDuration, pb_batchSize = batchSize\<rparr>
      | _ \<Rightarrow> Inl (ErrConfig ''invalid Publisher configuration''))"

definition signal_of_event :: "OutboxEvent \<Rightarrow> Signal" where
  "signal_of_event event =
     \<lparr>sg_DeliveryID = oe_DeliveryID event, sg_Generation = oe_Generation event, sg_TraceID = oe_TraceID event\<rparr>"

fun releaseRemaining :: "'s Publisher \<Rightarrow> OutboxEvent list \<Rightarrow> 's \<Rightarrow> 's" where
  "releaseRemaining publisher [] s = s"
| "releaseRemaining publisher (event # events) s =
     releaseRemaining publisher events (snd (os_ReleaseOutbox (pb_store publisher) event s))"

datatype publisher_error =
    ClaimFailed store_error
  | PublishFailed broker_error
  | RecordFailed store_error

text \<open>The loop over the claimed events, from the event at the current index on.\<close>

fun publish_loop :: "'s Publisher \<Rightarrow> OutboxEvent list \<Rightarrow> nat \<Rightarrow> 's \<Rightarrow> (nat \<times> publisher_error option) \<times> 's" where
  "publish_loop publisher [] published s = ((published, None), s)"
| "publish_loop publisher (event # events) published s =
     (case sb_Publish (pb_broker publisher) (signal_of_event event) s of
        (Inl e, s1) \<Rightarrow> ((published, Some (PublishFailed e)), releaseRemaining publisher (event # events) s1)
      | (Inr _, s1) \<Rightarrow>
         (case os_MarkOutboxPublished (pb_store publisher) event s1 of
            (Inl e, s2) \<Rightarrow> ((published, Some (RecordFailed e)), releaseRemaining publisher (event # events) s2)
          | (Inr _, s2) \<Rightarrow> publish_loop publisher events (published + 1) s2))"

definition RunOnce :: "'s Publisher \<Rightarrow> 's \<Rightarrow> (nat \<times> publisher_error option) \<times> 's" where
  "RunOnce publisher s =
     (case os_ClaimOutbox (pb_store publisher) (pb_owner publisher) (pb_leaseDuration publisher) (pb_batchSize publisher) s of
        (Inl e, s1) \<Rightarrow> ((0, Some (ClaimFailed e)), s1)
      | (Inr events, s1) \<Rightarrow> publish_loop publisher events 0 s1)"

section \<open>The contract of the publisher's environment\<close>

datatype pub_action = Confirmed Signal | Marked OutboxEvent | Tried_Release OutboxEvent

text \<open>What the publisher relies on: an observable log grows by exactly the confirmed publications,
  the recorded publications and the release calls, and an invariant of the state is kept.\<close>

locale publisher_world =
  fixes store :: "'s OutboxStore" and broker :: "'s SignalBroker" and actions :: "'s \<Rightarrow> pub_action list" and inv :: "'s \<Rightarrow> bool"
  assumes claim_actions: "actions (snd (os_ClaimOutbox store owner lease limit s)) = actions s"
    and mark_actions: "actions (snd (os_MarkOutboxPublished store event s)) =
      actions s @ (case fst (os_MarkOutboxPublished store event s) of Inr _ \<Rightarrow> [Marked event] | Inl _ \<Rightarrow> [])"
    and release_actions: "actions (snd (os_ReleaseOutbox store event s)) = actions s @ [Tried_Release event]"
    and publish_actions: "actions (snd (sb_Publish broker sig s)) =
      actions s @ (case fst (sb_Publish broker sig s) of Inr _ \<Rightarrow> [Confirmed sig] | Inl _ \<Rightarrow> [])"
    and inv_claim: "inv s \<Longrightarrow> inv (snd (os_ClaimOutbox store owner lease limit s))"
    and inv_mark: "inv s \<Longrightarrow> inv (snd (os_MarkOutboxPublished store event s))"
    and inv_release: "inv s \<Longrightarrow> inv (snd (os_ReleaseOutbox store event s))"
    and inv_publish: "inv s \<Longrightarrow> inv (snd (sb_Publish broker sig s))"
begin

abbreviation uses :: "'s Publisher \<Rightarrow> bool" where
  "uses p \<equiv> pb_store p = store \<and> pb_broker p = broker"

lemma release_remaining_log:
  "uses p \<Longrightarrow> actions (releaseRemaining p events s) = actions s @ map Tried_Release events"
  by (induction events arbitrary: s) (simp_all add: release_actions)

lemma release_remaining_inv: "uses p \<Longrightarrow> inv s \<Longrightarrow> inv (releaseRemaining p events s)"
  by (induction events arbitrary: s) (simp_all add: inv_release)

text \<open>The log of the loop: the first events confirmed and then marked, one by one; on an error the
  event at which it stopped, possibly confirmed, and the rest are released.\<close>

lemma publish_loop_log:
  assumes "uses p" "publish_loop p events k s = ((n, err), s')"
  shows "\<exists>j tail. n = k + j \<and> j \<le> length events \<and>
    actions s' = actions s @ concat (map (\<lambda>e. [Confirmed (signal_of_event e), Marked e]) (take j events)) @ tail \<and>
    (case err of None \<Rightarrow> j = length events \<and> tail = []
     | Some _ \<Rightarrow> j < length events \<and> (tail = map Tried_Release (drop j events) \<or>
         tail = Confirmed (signal_of_event (events ! j)) # map Tried_Release (drop j events)))"
  using assms(2)
proof (induction events arbitrary: k s)
  case (Cons e es)
  obtain r1 s1 where pub: "sb_Publish broker (signal_of_event e) s = (r1, s1)" by fastforce
  obtain r2 s2 where mark: "os_MarkOutboxPublished store e s1 = (r2, s2)" by fastforce
  have log1: "actions s1 = actions s @ (case r1 of Inr _ \<Rightarrow> [Confirmed (signal_of_event e)] | Inl _ \<Rightarrow> [])"
    using publish_actions [of "signal_of_event e" s] by (simp add: pub)
  have log2: "actions s2 = actions s1 @ (case r2 of Inr _ \<Rightarrow> [Marked e] | Inl _ \<Rightarrow> [])"
    using mark_actions [of e s1] by (simp add: mark)
  show ?case
  proof (cases r1)
    case (Inl x)
    with Cons.prems assms(1) pub have "n = k" "err = Some (PublishFailed x)" "s' = releaseRemaining p (e # es) s1" by auto
    with Inl log1 release_remaining_log [OF assms(1), of "e # es" s1] show ?thesis
      by (intro exI [of _ 0] exI [of _ "map Tried_Release (e # es)"]) simp
  next
    case r1: (Inr u)
    show ?thesis
    proof (cases r2)
      case (Inl x)
      with Cons.prems assms(1) pub mark r1
      have "n = k" "err = Some (RecordFailed x)" "s' = releaseRemaining p (e # es) s2" by auto
      with r1 Inl log1 log2 release_remaining_log [OF assms(1), of "e # es" s2] show ?thesis
        by (intro exI [of _ 0] exI [of _ "Confirmed (signal_of_event e) # map Tried_Release (e # es)"]) simp
    next
      case (Inr u')
      with Cons.prems assms(1) pub mark r1 have "publish_loop p es (k + 1) s2 = ((n, err), s')" by simp
      from Cons.IH [OF this] obtain j tail where ih: "n = k + 1 + j" "j \<le> length es"
        "actions s' = actions s2 @ concat (map (\<lambda>e. [Confirmed (signal_of_event e), Marked e]) (take j es)) @ tail"
        "case err of None \<Rightarrow> j = length es \<and> tail = []
         | Some _ \<Rightarrow> j < length es \<and> (tail = map Tried_Release (drop j es) \<or>
             tail = Confirmed (signal_of_event (es ! j)) # map Tried_Release (drop j es))" by blast
      then show ?thesis using r1 Inr log1 log2
        by (intro exI [of _ "Suc j"] exI [of _ tail]) (auto split: option.splits)
    qed
  qed
qed simp

lemma publish_loop_inv: "uses p \<Longrightarrow> inv s \<Longrightarrow> inv (snd (publish_loop p events k s))"
proof (induction events arbitrary: k s)
  case (Cons e es)
  have "inv (snd (sb_Publish broker (signal_of_event e) s))"
    "inv (snd (os_MarkOutboxPublished store e (snd (sb_Publish broker (signal_of_event e) s))))"
    using Cons.prems(2) by (simp_all add: inv_publish inv_mark)
  with Cons show ?case
    by (auto simp: release_remaining_inv simp del: releaseRemaining.simps split: prod.split sum.split)
qed simp

lemma run_once_inv: "uses p \<Longrightarrow> inv s \<Longrightarrow> inv (snd (RunOnce p s))"
  unfolding RunOnce_def
  by (auto split: prod.split sum.split intro!: publish_loop_inv)
    (metis inv_claim snd_conv)+

end

section \<open>The world the publisher runs in\<close>

text \<open>The shared database, the number of calls made, the log, and three oracles: the environment of
  each call, what other processes did to the database before it, and what the AMQP library does during a
  publication, which may depend on the broker's channels.\<close>

record pub_world =
  pw_db :: db
  pw_calls :: nat
  pw_log :: "pub_action list"
  pw_env :: "nat \<Rightarrow> env"
  pw_others :: "nat \<Rightarrow> db \<Rightarrow> db"
  pw_channels :: broker_channels
  pw_broker :: "nat \<Rightarrow> broker_channels \<Rightarrow> broker_moment"

definition store_call :: "(env \<Rightarrow> db \<Rightarrow> (store_error + 'a) \<times> db) \<Rightarrow> ('a \<Rightarrow> pub_action list) \<Rightarrow> (store_error \<Rightarrow> pub_action list)
    \<Rightarrow> pub_world \<Rightarrow> (store_error + 'a) \<times> pub_world" where
  "store_call op ok failed w =
     (let (r, db') = op (pw_env w (pw_calls w)) (pw_others w (pw_calls w) (pw_db w)) in
      (r, w\<lparr>pw_db := db', pw_calls := Suc (pw_calls w), pw_log := pw_log w @ (case r of Inr x \<Rightarrow> ok x | Inl e \<Rightarrow> failed e)\<rparr>))"

definition world_store :: "pub_world OutboxStore" where
  "world_store =
     \<lparr>os_ClaimOutbox = (\<lambda>owner lease limit. store_call (\<lambda>E db. ClaimOutbox E db owner lease limit) (\<lambda>_. []) (\<lambda>_. [])),
      os_MarkOutboxPublished = (\<lambda>event. store_call (\<lambda>E db. MarkOutboxPublished E db event) (\<lambda>_. [Marked event]) (\<lambda>_. [])),
      os_ReleaseOutbox = (\<lambda>event. store_call (\<lambda>E db. ReleaseOutbox E db event) (\<lambda>_. [Tried_Release event]) (\<lambda>_. [Tried_Release event]))\<rparr>"

definition world_broker :: "pub_world SignalBroker" where
  "world_broker =
     \<lparr>sb_Publish = (\<lambda>signal w.
        (let (r, ch') = publishSignal (pw_broker w (pw_calls w) (pw_channels w)) (pw_channels w) in
         (r, w\<lparr>pw_calls := Suc (pw_calls w), pw_channels := ch',
               pw_log := pw_log w @ (case r of Inr _ \<Rightarrow> [Confirmed signal] | Inl _ \<Rightarrow> [])\<rparr>)))\<rparr>"

definition world_inv :: "pub_world \<Rightarrow> bool" where
  "world_inv w \<longleftrightarrow> db_inv (pw_db w) \<and> (\<forall>n db. db_inv db \<longrightarrow> db_inv (pw_others w n db))"

lemma store_call_log:
  "pw_log (snd (store_call op ok failed w)) = pw_log w @ (case fst (store_call op ok failed w) of Inr x \<Rightarrow> ok x | Inl e \<Rightarrow> failed e)"
  by (simp add: store_call_def Let_def split: prod.split)

lemma store_call_inv:
  assumes "world_inv w" "\<And>E db. db_inv db \<Longrightarrow> db_inv (snd (op E db))"
  shows "world_inv (snd (store_call op ok failed w))"
proof -
  have "db_inv (snd (op (pw_env w (pw_calls w)) (pw_others w (pw_calls w) (pw_db w))))"
    using assms by (simp add: world_inv_def)
  with assms(1) show ?thesis by (auto simp: store_call_def Let_def world_inv_def split: prod.split)
qed

interpretation world: publisher_world world_store world_broker pw_log world_inv
proof
  show "pw_log (snd (os_ReleaseOutbox world_store event w)) = pw_log w @ [Tried_Release event]" for event w
    by (simp add: world_store_def store_call_log split: sum.split)
  show "world_inv w \<Longrightarrow> world_inv (snd (sb_Publish world_broker sig w))" for sig w
    by (simp add: world_broker_def world_inv_def Let_def split: prod.split)
  show "pw_log (snd (sb_Publish world_broker sig w)) =
      pw_log w @ (case fst (sb_Publish world_broker sig w) of Inl _ \<Rightarrow> [] | Inr _ \<Rightarrow> [Confirmed sig])" for sig w
    by (simp add: world_broker_def Let_def split: prod.split)
qed (simp_all add: world_store_def store_call_log store_call_inv sum.case_eq_if
    ClaimOutbox_good [unfolded good_step_def] MarkOutboxPublished_good [unfolded good_step_def]
    ReleaseOutbox_good [unfolded good_step_def])

definition world_publisher :: "string \<Rightarrow> duration \<Rightarrow> int \<Rightarrow> pub_world Publisher" where
  "world_publisher owner lease batch =
     \<lparr>pb_store = world_store, pb_broker = world_broker, pb_owner = owner, pb_leaseDuration = lease, pb_batchSize = batch\<rparr>"

section \<open>Properties of a publisher cycle\<close>

lemma publish_loop_not_claim:
  assumes "publish_loop p events k s = ((n, err), s')"
  shows "err \<noteq> Some (ClaimFailed x)"
  using assms by (induction p events k s rule: publish_loop.induct) (auto split: prod.splits sum.splits)

text \<open>C21. Whatever fails and whatever other processes do meanwhile, a publisher cycle records an event as
  published only after the broker confirmed its signal (\<open>Publish\<close> succeeded; whose confirmation it
  took is a property of its own below), one event at a time in claim order; the
  number it returns is the number recorded; it returns without error only after all claimed events;
  and on an error it tries to release the event at hand and every later one, so that none of them
  waits for its lease to run out.\<close>

theorem publisher_marks_only_confirmed:
  assumes "RunOnce (world_publisher owner lease batch) w = ((n, err), w')"
  shows "\<exists>events tail. pw_log w' = pw_log w @ concat (map (\<lambda>e. [Confirmed (signal_of_event e), Marked e]) (take n events)) @ tail \<and>
    (case err of
       None \<Rightarrow> n = length events \<and> tail = [] \<and>
         fst (os_ClaimOutbox world_store owner lease batch w) = Inr events
     | Some (ClaimFailed e) \<Rightarrow> n = 0 \<and> tail = [] \<and> fst (os_ClaimOutbox world_store owner lease batch w) = Inl e
     | Some _ \<Rightarrow> fst (os_ClaimOutbox world_store owner lease batch w) = Inr events \<and> n < length events \<and>
         (tail = map Tried_Release (drop n events) \<or>
          tail = Confirmed (signal_of_event (events ! n)) # map Tried_Release (drop n events)))"
proof -
  let ?p = "world_publisher owner lease batch"
  have uses: "pb_store ?p = world_store \<and> pb_broker ?p = world_broker" by (simp add: world_publisher_def)
  obtain r w1 where claim: "os_ClaimOutbox world_store owner lease batch w = (r, w1)" by fastforce
  have log1: "pw_log w1 = pw_log w" using world.claim_actions [of owner lease batch w] by (simp add: claim)
  show ?thesis
  proof (cases r)
    case (Inl e)
    with assms claim have "n = 0" "err = Some (ClaimFailed e)" "w' = w1" by (auto simp: RunOnce_def world_publisher_def)
    with Inl log1 claim show ?thesis by (intro exI [of _ "[]"]) simp
  next
    case (Inr events)
    with assms claim have loop: "publish_loop ?p events 0 w1 = ((n, err), w')" by (simp add: RunOnce_def world_publisher_def)
    from world.publish_loop_log [OF uses loop] obtain j tail where j: "n = 0 + j" "j \<le> length events"
      "pw_log w' = pw_log w1 @ concat (map (\<lambda>e. [Confirmed (signal_of_event e), Marked e]) (take j events)) @ tail"
      "case err of None \<Rightarrow> j = length events \<and> tail = []
     | Some _ \<Rightarrow> j < length events \<and> (tail = map Tried_Release (drop j events) \<or>
         tail = Confirmed (signal_of_event (events ! j)) # map Tried_Release (drop j events))" by blast
    have "err \<noteq> Some (ClaimFailed x)" for x
      using loop by (rule publish_loop_not_claim)
    with j log1 claim Inr show ?thesis
      by (intro exI [of _ events] exI [of _ tail]) (auto split: option.splits publisher_error.splits)
  qed
qed

text \<open>A publisher at work: nothing fails, and the broker confirms each publication at once (unless it already has).\<close>

definition demo_answer_once :: "broker_channels \<Rightarrow> broker_moment" where
  "demo_answer_once ch = (if ch_sent ch \<in> set (ch_confirmed ch) then unanswered_moment else prompt ch)"

lemma honest_unconfirmed: "honest (demo_answer_once ch) ch"
  by (simp add: demo_answer_once_def honest_def prompt_def unanswered_moment_def)

definition demo_publication :: pub_world where
  "demo_publication = \<lparr>pw_db = demo_db, pw_calls = 0, pw_log = [], pw_env = (\<lambda>n. quiet_env 10), pw_others = (\<lambda>_ db. db),
     pw_channels = new_channels, pw_broker = (\<lambda>_. demo_answer_once)\<rparr>"

theorem publisher_marks_only_confirmed_witness:
  "\<exists>events. length events = 2 \<and>
     pw_log (snd (RunOnce (world_publisher ''w'' Second 2)
       demo_publication)) =
     concat (map (\<lambda>e. [Confirmed (signal_of_event e), Marked e]) events)"
proof -
  let ?w = demo_publication
  have log: "pw_log ?w = []" by (simp add: demo_publication_def)
  have "fst (RunOnce (world_publisher ''w'' Second 2) ?w) = (2, None)" by code_simp
  then have "RunOnce (world_publisher ''w'' Second 2) ?w = ((2, None), snd (RunOnce (world_publisher ''w'' Second 2) ?w))"
    by (metis prod.collapse)
  from publisher_marks_only_confirmed [OF this] show ?thesis by (auto simp: log)
qed

text \<open>The calls of a cycle on a broker whose channels are in step: until one fails, each takes its own confirmation.\<close>

locale lockstep_broker = publisher_world store broker actions inv
  for store :: "'s OutboxStore" and broker :: "'s SignalBroker" and actions :: "'s \<Rightarrow> pub_action list" and inv :: "'s \<Rightarrow> bool" +
  fixes channels :: "'s \<Rightarrow> broker_channels" and moments :: "'s \<Rightarrow> nat \<Rightarrow> broker_channels \<Rightarrow> broker_moment"
  assumes claim_channels: "channels (snd (os_ClaimOutbox store owner lease limit s)) = channels s"
      "moments (snd (os_ClaimOutbox store owner lease limit s)) = moments s"
    and mark_channels: "channels (snd (os_MarkOutboxPublished store event s)) = channels s"
      "moments (snd (os_MarkOutboxPublished store event s)) = moments s"
    and release_channels: "channels (snd (os_ReleaseOutbox store event s)) = channels s"
    and publish_channels: "\<exists>n. (fst (sb_Publish broker sig s), channels (snd (sb_Publish broker sig s))) =
        publishSignal (moments s n (channels s)) (channels s)"
      "moments (snd (sb_Publish broker sig s)) = moments s"
begin

abbreviation well_answered :: "'s \<Rightarrow> bool" where
  "well_answered s \<equiv> in_step (channels s) \<and> (\<forall>n ch. honest (moments s n ch) ch)"

lemma release_remaining_channels: "uses p \<Longrightarrow> channels (releaseRemaining p events s) = channels s"
  by (induction events arbitrary: s) (simp_all add: release_channels)

lemma publish_own:
  assumes "well_answered s" "sb_Publish broker sig s = (r, s')"
  shows "case r of
     Inr _ \<Rightarrow> well_answered s' \<and> ch_sent (channels s') = Suc (ch_sent (channels s)) \<and>
       ch_taken (channels s') = ch_taken (channels s) @ [(ch_sent (channels s), ch_sent (channels s))]
   | Inl _ \<Rightarrow> ch_taken (channels s') = ch_taken (channels s)"
proof -
  from publish_channels(1) [of sig s] assms(2) obtain n where
    call: "publishSignal (moments s n (channels s)) (channels s) = (r, channels s')" by auto
  have m: "moments s' = moments s" using publish_channels(2) [of sig s] assms(2) by simp
  show ?thesis
  proof (cases r)
    case (Inr u)
    with own_confirmation [of "channels s" "moments s n (channels s)" "channels s'"] call assms(1) m show ?thesis by simp
  next
    case (Inl e)
    with publishSignal_Inl [OF call [unfolded Inl]] show ?thesis by simp
  qed
qed

lemma publish_loop_own:
  assumes "uses p" "well_answered s" "publish_loop p events k s = ((n, err), s')"
  shows "\<exists>j. ch_taken (channels s') = ch_taken (channels s) @ map (\<lambda>i. (i, i)) [ch_sent (channels s)..<ch_sent (channels s) + j] \<and>
    (case err of None \<Rightarrow> n = k + j \<and> well_answered s' | Some (RecordFailed _) \<Rightarrow> n + 1 = k + j | Some _ \<Rightarrow> n = k + j)"
  using assms(2,3)
proof (induction events arbitrary: k s)
  case (Cons e es)
  obtain r1 s1 where pub: "sb_Publish broker (signal_of_event e) s = (r1, s1)" by fastforce
  obtain r2 s2 where mark: "os_MarkOutboxPublished store e s1 = (r2, s2)" by fastforce
  have s2: "channels s2 = channels s1" "moments s2 = moments s1" using mark_channels [of e s1] by (simp_all add: mark)
  note own = publish_own [OF Cons.prems(1) pub]
  show ?case
  proof (cases r1)
    case (Inl x)
    with Cons.prems(2) assms(1) pub have "n = k" "err = Some (PublishFailed x)" "s' = releaseRemaining p (e # es) s1" by auto
    with Inl own release_remaining_channels [OF assms(1), of "e # es" s1] show ?thesis by (intro exI [of _ 0]) simp
  next
    case r1: (Inr u)
    show ?thesis
    proof (cases r2)
      case (Inl x)
      with Cons.prems(2) assms(1) pub mark r1
      have "n = k" "err = Some (RecordFailed x)" "s' = releaseRemaining p (e # es) s2" by auto
      with r1 own s2 release_remaining_channels [OF assms(1), of "e # es" s2] show ?thesis by (intro exI [of _ 1]) simp
    next
      case (Inr u')
      with Cons.prems(2) assms(1) pub mark r1 have "publish_loop p es (k + 1) s2 = ((n, err), s')" by simp
      moreover have "well_answered s2" using own r1 s2 by simp
      ultimately obtain j where "ch_taken (channels s') = ch_taken (channels s2) @ map (\<lambda>i. (i, i)) [ch_sent (channels s2)..<ch_sent (channels s2) + j]"
        "case err of None \<Rightarrow> n = k + 1 + j \<and> well_answered s' | Some (RecordFailed _) \<Rightarrow> n + 1 = k + 1 + j | Some _ \<Rightarrow> n = k + 1 + j"
        using Cons.IH by blast
      with own r1 s2 show ?thesis
        by (intro exI [of _ "Suc j"]) (auto simp: upt_conv_Cons split: option.splits publisher_error.splits)
    qed
  qed
qed (auto intro: exI [of _ 0])

lemma run_once_own:
  assumes "uses p" "well_answered s" "RunOnce p s = ((n, err), s')"
  shows "\<exists>j. ch_taken (channels s') = ch_taken (channels s) @ map (\<lambda>i. (i, i)) [ch_sent (channels s)..<ch_sent (channels s) + j] \<and>
    (case err of None \<Rightarrow> n = j \<and> well_answered s' | Some (RecordFailed _) \<Rightarrow> n + 1 = j | Some _ \<Rightarrow> n = j)"
proof -
  obtain r s1 where claim: "os_ClaimOutbox store (pb_owner p) (pb_leaseDuration p) (pb_batchSize p) s = (r, s1)" by fastforce
  have s1: "channels s1 = channels s" "moments s1 = moments s"
    using claim_channels [of "pb_owner p" "pb_leaseDuration p" "pb_batchSize p" s] by (simp_all add: claim)
  then have ok: "well_answered s1" using assms(2) by simp
  show ?thesis
  proof (cases r)
    case (Inl e)
    with assms(1,3) claim s1 show ?thesis by (intro exI [of _ 0]) (auto simp: RunOnce_def)
  next
    case (Inr events)
    with assms(1,3) claim have "publish_loop p events 0 s1 = ((n, err), s')" by (simp add: RunOnce_def)
    from publish_loop_own [OF assms(1) ok this] show ?thesis unfolding s1 add_0 .
  qed
qed

end

lemma store_call_channels:
  "pw_channels (snd (store_call op ok failed w)) = pw_channels w" "pw_broker (snd (store_call op ok failed w)) = pw_broker w"
  by (simp_all add: store_call_def Let_def split: prod.split)

interpretation lockstep: lockstep_broker world_store world_broker pw_log world_inv pw_channels pw_broker
proof
  show "\<exists>n. (fst (sb_Publish world_broker sig w), pw_channels (snd (sb_Publish world_broker sig w))) =
      publishSignal (pw_broker w n (pw_channels w)) (pw_channels w)" for sig w
    by (rule exI [of _ "pw_calls w"]) (simp add: world_broker_def Let_def split: prod.split)
  show "pw_broker (snd (sb_Publish world_broker sig w)) = pw_broker w" for sig w
    by (simp add: world_broker_def Let_def split: prod.split)
qed (simp_all add: world_store_def store_call_channels)

text \<open>C27. The publisher never takes another publication's confirmation for its own, although the code does not look at
  delivery tags: on a broker whose channels hold no leftover answer, as a new one's do, and with RabbitMQ
  confirming each publication at most once, every publication that a cycle counts as confirmed took the
  confirmation of that very publication. A cycle without error leaves the channels free of leftovers again, for
  the next cycle; after any error the supervisor drops the broker.\<close>

theorem publisher_takes_own_confirmations:
  assumes "RunOnce (world_publisher owner lease batch) w = ((n, err), w')" "in_step (pw_channels w)"
    and "\<forall>k ch. honest (pw_broker w k ch) ch"
  shows "in_step new_channels \<and>
    (\<exists>j. ch_taken (pw_channels w') = ch_taken (pw_channels w) @
         map (\<lambda>i. (i, i)) [ch_sent (pw_channels w)..<ch_sent (pw_channels w) + j] \<and>
       (case err of None \<Rightarrow> n = j \<and> in_step (pw_channels w') | Some (RecordFailed _) \<Rightarrow> n + 1 = j | Some _ \<Rightarrow> n = j))"
proof -
  have "\<exists>j. ch_taken (pw_channels w') = ch_taken (pw_channels w) @
         map (\<lambda>i. (i, i)) [ch_sent (pw_channels w)..<ch_sent (pw_channels w) + j] \<and>
       (case err of None \<Rightarrow> n = j \<and> in_step (pw_channels w') \<and> (\<forall>k ch. honest (pw_broker w' k ch) ch)
        | Some (RecordFailed _) \<Rightarrow> n + 1 = j | Some _ \<Rightarrow> n = j)"
    by (rule lockstep.run_once_own [OF _ _ assms(1)]) (use assms(2,3) in \<open>simp_all add: world_publisher_def\<close>)
  then obtain j where "ch_taken (pw_channels w') = ch_taken (pw_channels w) @
         map (\<lambda>i. (i, i)) [ch_sent (pw_channels w)..<ch_sent (pw_channels w) + j]"
    "case err of None \<Rightarrow> n = j \<and> in_step (pw_channels w') \<and> (\<forall>k ch. honest (pw_broker w' k ch) ch)
        | Some (RecordFailed _) \<Rightarrow> n + 1 = j | Some _ \<Rightarrow> n = j" by blast
  then show ?thesis using in_step_new
    by (intro conjI exI [of _ j]) (auto split: option.splits publisher_error.splits)
qed

theorem publisher_takes_own_confirmations_witness:
  "ch_taken (pw_channels (snd (RunOnce (world_publisher ''w'' Second 2) demo_publication))) = [(0, 0), (1, 1)]"
proof -
  have "fst (RunOnce (world_publisher ''w'' Second 2) demo_publication) = (2, None)" by code_simp
  then have "RunOnce (world_publisher ''w'' Second 2) demo_publication =
      ((2, None), snd (RunOnce (world_publisher ''w'' Second 2) demo_publication))" by (metis prod.collapse)
  moreover have "in_step (pw_channels demo_publication)" by (simp add: demo_publication_def in_step_new)
  moreover have "honest (pw_broker demo_publication k ch) ch" for k ch
    by (simp add: demo_publication_def honest_unconfirmed)
  moreover have "ch_taken (pw_channels demo_publication) = []" "ch_sent (pw_channels demo_publication) = 0"
    by (simp_all add: demo_publication_def new_channels_def)
  ultimately show ?thesis using publisher_takes_own_confirmations [of "''w''" Second 2 demo_publication 2 None] by (auto simp: upt_rec)
qed

section \<open>A cycle without faults\<close>

text \<open>The event's row is unpublished and leased to the event's claim until the given time.\<close>

definition held :: "instant \<Rightarrow> db \<Rightarrow> OutboxEvent \<Rightarrow> bool" where
  "held until db event \<longleftrightarrow> (\<exists>e\<in>set (outbox_events db). o_id e = oe_ID event \<and> o_published_at e = None \<and>
     o_lease_owner e = Some (oe_LeaseOwner event) \<and> o_lease_token e = Some (oe_LeaseToken event) \<and> o_lease_until e = Some until)"

definition published_in :: "db \<Rightarrow> string \<Rightarrow> bool" where
  "published_in db i \<longleftrightarrow> (\<exists>e\<in>set (outbox_events db). o_id e = i \<and> o_published_at e \<noteq> None)"

lemma mark_held:
  assumes "db_inv db" "fault_free E" "clock_timestamp E < until" "held until db event"
  obtains db' where "MarkOutboxPublished E db event = (Inr (), db')" "db_inv db'" "published_in db' (oe_ID event)"
    "\<And>i. published_in db i \<Longrightarrow> published_in db' i"
    "\<And>other. oe_ID other \<noteq> oe_ID event \<Longrightarrow> held until db other \<Longrightarrow> held until db' other"
proof -
  let ?p = "holds_outbox_lease (clock_timestamp E) event"
  let ?db' = "db\<lparr>outbox_events := update_where ?p (publish_event (clock_timestamp E)) (outbox_events db)\<rparr>"
  from assms(3,4) obtain e where e: "e \<in> set (outbox_events db)" "?p e"
    by (auto simp: held_def holds_outbox_lease_def)
  have run: "MarkOutboxPublished E db event = (Inr (), ?db')"
    using MarkOutboxPublished_fault_free [OF assms(1,2)] e by auto
  moreover have "db_inv ?db'" using MarkOutboxPublished_good [OF assms(1), of E event] by (simp add: run good_step_def)
  moreover have "published_in ?db' (oe_ID event)"
    unfolding published_in_def
  proof (rule bexI)
    show "publish_event (clock_timestamp E) e \<in> set (outbox_events ?db')" using e by (auto simp: set_update_where)
    show "o_id (publish_event (clock_timestamp E) e) = oe_ID event \<and> o_published_at (publish_event (clock_timestamp E) e) \<noteq> None"
      using e(2) by (simp add: holds_outbox_lease_def publish_event_def)
  qed
  moreover have "published_in ?db' i" if "published_in db i" for i
    using that by (auto simp: published_in_def set_update_where holds_outbox_lease_def intro: bexI [rotated])
  moreover have "held until ?db' other" if "oe_ID other \<noteq> oe_ID event" "held until db other" for other
    using that by (auto simp: held_def set_update_where holds_outbox_lease_def intro: bexI [rotated])
  ultimately show thesis by (rule that)
qed

definition calm :: "instant \<Rightarrow> pub_world \<Rightarrow> bool" where
  "calm until w \<longleftrightarrow> (\<forall>n. fault_free (pw_env w n) \<and> clock_timestamp (pw_env w n) < until \<and>
     pw_others w n = id \<and> pw_broker w n = prompt) \<and> in_step (pw_channels w)"

lemma publish_loop_calm:
  assumes "calm until w" "db_inv (pw_db w)" "\<forall>event\<in>set events. held until (pw_db w) event" "distinct (map oe_ID events)"
  shows "\<exists>w'. publish_loop (world_publisher owner lease batch) events k w = ((k + length events, None), w') \<and>
    (\<forall>i. published_in (pw_db w) i \<longrightarrow> published_in (pw_db w') i) \<and> (\<forall>event\<in>set events. published_in (pw_db w') (oe_ID event))"
  using assms
proof (induction events arbitrary: k w)
  case (Cons e es)
  have "in_step (pw_channels w)" using Cons.prems(1) by (simp add: calm_def)
  then obtain ch' where ch': "publishSignal (prompt (pw_channels w)) (pw_channels w) = (Inr (), ch')" "in_step ch'"
    by (rule prompt_confirms)
  let ?w1 = "w\<lparr>pw_calls := Suc (pw_calls w), pw_channels := ch', pw_log := pw_log w @ [Confirmed (signal_of_event e)]\<rparr>"
  have pub: "sb_Publish world_broker (signal_of_event e) w = (Inr (), ?w1)"
    using Cons.prems(1) ch'(1) by (simp add: world_broker_def calm_def)
  have env: "fault_free (pw_env w n)" "clock_timestamp (pw_env w n) < until" "pw_others w n = id" for n
    using Cons.prems(1) by (auto simp: calm_def)
  have "held until (pw_db w) e" using Cons.prems(3) by simp
  with mark_held [OF Cons.prems(2) env(1) env(2)] obtain db' where m:
    "MarkOutboxPublished (pw_env w (Suc (pw_calls w))) (pw_db w) e = (Inr (), db')" "db_inv db'" "published_in db' (oe_ID e)"
    "\<And>i. published_in (pw_db w) i \<Longrightarrow> published_in db' i"
    "\<And>other. oe_ID other \<noteq> oe_ID e \<Longrightarrow> held until (pw_db w) other \<Longrightarrow> held until db' other" by auto
  let ?w2 = "?w1\<lparr>pw_db := db', pw_calls := Suc (Suc (pw_calls w)), pw_log := pw_log ?w1 @ [Marked e]\<rparr>"
  have mark: "os_MarkOutboxPublished world_store e ?w1 = (Inr (), ?w2)"
    using m(1) env(3) by (simp add: world_store_def store_call_def)
  have "\<exists>w'. publish_loop (world_publisher owner lease batch) es (k + 1) ?w2 = ((k + 1 + length es, None), w') \<and>
    (\<forall>i. published_in (pw_db ?w2) i \<longrightarrow> published_in (pw_db w') i) \<and> (\<forall>event\<in>set es. published_in (pw_db w') (oe_ID event))"
  proof (rule Cons.IH)
    show "calm until ?w2" using Cons.prems(1) ch'(2) by (simp add: calm_def)
    show "\<forall>event\<in>set es. held until (pw_db ?w2) event"
      using Cons.prems(3,4) m(5) by (auto simp: image_iff)
  qed (use Cons.prems(4) m(2) in simp_all)
  then show ?case using pub mark m(3,4) by (auto simp: world_publisher_def)
qed simp

text \<open>When nothing fails, a publisher cycle records every event it claimed: the claimed events are all
  published in the database afterwards and the cycle returns their number.\<close>

theorem publisher_publishes_claimed:
  assumes "db_inv (pw_db w)" "ClaimOutbox (pw_env w (pw_calls w)) (pw_db w) owner lease batch = (Inr events, db1)"
    and "calm (clock_timestamp (pw_env w (pw_calls w)) + Milliseconds lease * Millisecond) w"
  shows "\<exists>w'. RunOnce (world_publisher owner lease batch) w = ((length events, None), w') \<and>
    (\<forall>event\<in>set events. published_in (pw_db w') (oe_ID event))"
proof -
  let ?until = "clock_timestamp (pw_env w (pw_calls w)) + Milliseconds lease * Millisecond"
  let ?w1 = "w\<lparr>pw_db := db1, pw_calls := Suc (pw_calls w), pw_log := pw_log w @ []\<rparr>"
  have "pw_others w (pw_calls w) = id" using assms(3) by (simp add: calm_def)
  then have claim: "os_ClaimOutbox world_store owner lease batch w = (Inr events, ?w1)"
    using assms(2) by (simp add: world_store_def store_call_def)
  have "db_inv db1" using ClaimOutbox_good [OF assms(1), of "pw_env w (pw_calls w)" owner lease batch] assms(2)
    by (simp add: good_step_def)
  moreover have "held ?until db1 event" if "event \<in> set events" for event
  proof -
    from assms(1,2) that obtain e token where "event = claimed_event owner token e"
      "lease_event owner token ?until e \<in> set (outbox_events db1)" "o_published_at e = None"
      by (rule claimed_row_leased)
    then show ?thesis unfolding held_def by (intro bexI [of _ "lease_event owner token ?until e"]) (simp_all add: lease_event_def)
  qed
  moreover have "distinct (map oe_ID events)"
  proof -
    from assms(2) obtain token where ev: "events = map (claimed_event owner token) (outbox_candidates (pw_env w (pw_calls w)) (pw_db w) batch)"
      by (rule ClaimOutbox_Inr)
    have "distinct (map o_id (outbox_candidates (pw_env w (pw_calls w)) (pw_db w) batch))" unfolding outbox_candidates_def
      by (rule distinct_select_limit) (use assms(1) in \<open>simp add: db_inv_def schema_ok_def outbox_ok_def\<close>)
    then show ?thesis by (simp add: ev comp_def)
  qed
  ultimately obtain w' where "publish_loop (world_publisher owner lease batch) events 0 ?w1 = ((0 + length events, None), w')"
    "\<forall>event\<in>set events. published_in (pw_db w') (oe_ID event)"
    using publish_loop_calm [of ?until ?w1 events owner lease batch 0] assms(3) by (auto simp: calm_def)
  then show ?thesis using claim by (simp add: RunOnce_def world_publisher_def)
qed

theorem publisher_publishes_claimed_witness:
  "\<exists>w'. RunOnce (world_publisher ''w'' Second 1)
       \<lparr>pw_db = demo_db, pw_calls = 0, pw_log = [], pw_env = (\<lambda>n. quiet_env 10), pw_others = (\<lambda>_. id),
        pw_channels = new_channels, pw_broker = (\<lambda>_. prompt)\<rparr> = ((1, None), w') \<and> published_in (pw_db w') ''ep''"
proof -
  let ?w = "\<lparr>pw_db = demo_db, pw_calls = 0, pw_log = [], pw_env = (\<lambda>n. quiet_env 10), pw_others = (\<lambda>_. id),
        pw_channels = new_channels, pw_broker = (\<lambda>_. prompt)\<rparr>"
  have run: "ClaimOutbox (pw_env ?w (pw_calls ?w)) (pw_db ?w) ''w'' Second 1 =
    (Inr [claimed_event ''w'' ''00000000-0000-4000-8000-000000000000'' (new_event ''ep'' ''p'' 0 ''tp'' 0 0)],
     snd (ClaimOutbox (pw_env ?w (pw_calls ?w)) (pw_db ?w) ''w'' Second 1))" by code_simp
  have "(10::int) < 10 + Milliseconds Second * Millisecond" by code_simp
  then have "calm (clock_timestamp (pw_env ?w (pw_calls ?w)) + Milliseconds Second * Millisecond) ?w"
    by (simp add: calm_def quiet_env_def fault_free_def in_step_new)
  from publisher_publishes_claimed [OF _ run this] demo_db_inv show ?thesis by simp
qed

end
