(* ===== verification/Go_Json.thy ===== *)
theory Go_Json
  imports Go_Net
begin

text \<open>
  What the sources use of \<open>encoding/json\<close>: decoding with \<open>DisallowUnknownFields\<close> of one value into a
  struct, followed by the check that nothing comes after it. The clients take the function that turns
  the bytes into a stream of values as an argument (\<open>Json_Text\<close> has that of the library); how a value fills the spec of a struct is modelled here. A
  number keeps its text. Keys match field names without regard to case, later members overwrite earlier
  ones, and null leaves a field as it is.
\<close>

datatype json = JNull | JBool bool | JNum string | JStr string | JArr "json list" | JObj "(string \<times> json) list"

text \<open>The values of a stream up to its end, to an end inside a value, to a syntax error, or to the byte limit set on
  the stream.\<close>

datatype json_end = AtEOF | Incomplete | SyntaxError | OverLimit

type_synonym json_stream = "json list \<times> json_end"

text \<open>One call of \<open>Decode\<close> on the stream: the next value and the stream after it, or the error.\<close>

datatype decode_error = EOF | UnexpectedEOF | InvalidSyntax | MaxBytesError | MultipleValues

definition end_error :: "json_end \<Rightarrow> decode_error" where
  "end_error ending = (case ending of AtEOF \<Rightarrow> EOF | Incomplete \<Rightarrow> UnexpectedEOF | SyntaxError \<Rightarrow> InvalidSyntax | OverLimit \<Rightarrow> MaxBytesError)"

fun Decode :: "json_stream \<Rightarrow> decode_error + json \<times> json_stream" where
  "Decode ([], ending) = Inl (end_error ending)"
| "Decode (v # vs, ending) = Inr (v, vs, ending)"

text \<open>A value that only the byte after it, or the end of the stream, completes.\<close>

definition open_ended :: "json \<Rightarrow> bool" where
  "open_ended v = (case v of JObj _ \<Rightarrow> False | JArr _ \<Rightarrow> False | _ \<Rightarrow> True)"

text \<open>Exactly one value: the first \<open>Decode\<close> succeeds and the second one meets the end.\<close>

definition single_value :: "json_stream \<Rightarrow> json option" where
  "single_value stream = (case stream of ([v], AtEOF) \<Rightarrow> Some v | _ \<Rightarrow> None)"

text \<open>Filling a struct: each member through the setter of the field it names.\<close>

fun fill_fields :: "(string \<times> (json \<Rightarrow> 'a \<Rightarrow> 'a option)) list \<Rightarrow> (string \<times> json) list \<Rightarrow> 'a \<Rightarrow> 'a option" where
  "fill_fields spec [] x = Some x"
| "fill_fields spec ((key, v) # members) x =
     (case find (\<lambda>(name, setter). EqualFold name key) spec of
        None \<Rightarrow> None
      | Some (name, setter) \<Rightarrow> (case setter v x of None \<Rightarrow> None | Some y \<Rightarrow> fill_fields spec members y))"

definition decode_struct :: "(string \<times> (json \<Rightarrow> 'a \<Rightarrow> 'a option)) list \<Rightarrow> 'a \<Rightarrow> json \<Rightarrow> 'a option" where
  "decode_struct spec zero v = (case v of JNull \<Rightarrow> Some zero | JObj members \<Rightarrow> fill_fields spec members zero | _ \<Rightarrow> None)"

definition string_field :: "(string \<Rightarrow> 'a \<Rightarrow> 'a) \<Rightarrow> json \<Rightarrow> 'a \<Rightarrow> 'a option" where
  "string_field setter v x = (case v of JNull \<Rightarrow> Some x | JStr s \<Rightarrow> Some (setter s x) | _ \<Rightarrow> None)"

definition int64_field :: "(int \<Rightarrow> 'a \<Rightarrow> 'a) \<Rightarrow> json \<Rightarrow> 'a \<Rightarrow> 'a option" where
  "int64_field setter v x =
     (case v of JNull \<Rightarrow> Some x | JNum t \<Rightarrow> map_option (\<lambda>n. setter n x) (ParseInt t) | _ \<Rightarrow> None)"

end
