(* ===== verification/Rabbit_Consumer.thy ===== *)
theory Rabbit_Consumer
  imports Worker Publisher Go_Json
begin

text \<open>
  The consumer of dispatch signals (\<open>internal/worker/rabbit.go\<close>): decoding of a message and the decision
  how to settle it. One message is handled over any state; the world it is proved for joins the
  Worker's world with the broker's answers.
\<close>

section \<open>Messages\<close>

definition signal_fields :: "(string \<times> (json \<Rightarrow> Signal \<Rightarrow> Signal option)) list" where
  "signal_fields =
     [(''delivery_id'', string_field (\<lambda>s x. x\<lparr>sg_DeliveryID := s\<rparr>)),
      (''generation'', int64_field (\<lambda>n x. x\<lparr>sg_Generation := n\<rparr>)),
      (''trace_id'', string_field (\<lambda>s x. x\<lparr>sg_TraceID := s\<rparr>))]"

definition decodeSignal :: "(byte list \<Rightarrow> json_stream) \<Rightarrow> byte list \<Rightarrow> Signal option" where
  "decodeSignal json_values body =
     (case single_value (json_values body) of
        None \<Rightarrow> None
      | Some v \<Rightarrow> decode_struct signal_fields \<lparr>sg_DeliveryID = [], sg_Generation = 0, sg_TraceID = []\<rparr> v)"

record amqp_message =
  mg_Tag :: nat
  mg_Body :: "byte list"

text \<open>What the consumer calls: the Worker, the deferral broker, and the settlement of the message. An
  error of \<open>Ack\<close> or \<open>Nack\<close> is its text.\<close>

record 's RabbitConsumer =
  cn_Process :: "Signal \<Rightarrow> 's \<Rightarrow> process_outcome \<times> 's"
  cn_Defer :: "Signal \<Rightarrow> 's \<Rightarrow> (broker_error + unit) \<times> 's"
  cn_Ack :: "nat \<Rightarrow> 's \<Rightarrow> string option \<times> 's"
  cn_Nack :: "nat \<Rightarrow> bool \<Rightarrow> 's \<Rightarrow> string option \<times> 's"

datatype consume_error =
    DeadLetterMalformed string
  | DeadLetterInvalid string
  | RequeueFailed string
  | ProcessFailed process_error
  | RequeueAfterDeferral string
  | DeferFailed broker_error
  | AckDeferred string
  | AckCommitted string

datatype consume_outcome = Handled "consume_error option" | Crashed

definition processMessage ::
  "(byte list \<Rightarrow> json_stream) \<Rightarrow> 's RabbitConsumer \<Rightarrow> amqp_message \<Rightarrow> 's \<Rightarrow> consume_outcome \<times> 's" where
  "processMessage json_values consumer message s =
     (let tag = mg_Tag message in
      case decodeSignal json_values (mg_Body message) of
        None \<Rightarrow> (case cn_Nack consumer tag False s of
            (Some e, s1) \<Rightarrow> (Handled (Some (DeadLetterMalformed e)), s1) | (None, s1) \<Rightarrow> (Handled None, s1))
      | Some signal \<Rightarrow>
      case Validate signal of
        Some _ \<Rightarrow> (case cn_Nack consumer tag False s of
            (Some e, s1) \<Rightarrow> (Handled (Some (DeadLetterInvalid e)), s1) | (None, s1) \<Rightarrow> (Handled None, s1))
      | None \<Rightarrow>
      case cn_Process consumer signal s of
        (Panicked, s1) \<Rightarrow> (Crashed, s1)
      | (Finished ack (Some err), s1) \<Rightarrow>
          (case cn_Nack consumer tag True s1 of
             (Some e, s2) \<Rightarrow> (Handled (Some (RequeueFailed e)), s2)
           | (None, s2) \<Rightarrow> (Handled (Some (ProcessFailed err)), s2))
      | (Finished False None, s1) \<Rightarrow>
          (case cn_Defer consumer signal s1 of
             (Inl err, s2) \<Rightarrow>
               (case cn_Nack consumer tag True s2 of
                  (Some e, s3) \<Rightarrow> (Handled (Some (RequeueAfterDeferral e)), s3)
                | (None, s3) \<Rightarrow> (Handled (Some (DeferFailed err)), s3))
           | (Inr _, s2) \<Rightarrow>
               (case cn_Ack consumer tag s2 of
                  (Some e, s3) \<Rightarrow> (Handled (Some (AckDeferred e)), s3) | (None, s3) \<Rightarrow> (Handled None, s3)))
      | (Finished True None, s1) \<Rightarrow>
          (case cn_Ack consumer tag s1 of
             (Some e, s2) \<Rightarrow> (Handled (Some (AckCommitted e)), s2) | (None, s2) \<Rightarrow> (Handled None, s2)))"

section \<open>The contract of the consumer's surroundings\<close>

datatype settlement = Acked nat | Nacked nat bool | Deferred Signal

text \<open>The settlement log grows by exactly the calls made: an acknowledgement or a refusal is counted when it
  is attempted, a deferral when \<open>Defer\<close> reported success. Then \<open>took\<close> says which answer of the
  broker that success rests on.\<close>

locale consumer_world =
  fixes consumer :: "'s RabbitConsumer" and log :: "'s \<Rightarrow> settlement list" and work :: "'s \<Rightarrow> 'w"
    and settled_by :: "Signal \<Rightarrow> 'w \<Rightarrow> 'w \<Rightarrow> bool" and chan :: "'s \<Rightarrow> 'c" and took :: "'s \<Rightarrow> 'c \<Rightarrow> bool"
  assumes process_log: "cn_Process consumer sig s = (outcome, s') \<Longrightarrow>
      log s' = log s \<and> took s' = took s \<and> (outcome = Finished True None \<longrightarrow> settled_by sig (work s) (work s'))"
    and defer_log: "cn_Defer consumer sig s = (r, s') \<Longrightarrow>
      (case r of Inr _ \<Rightarrow> log s' = log s @ [Deferred sig] \<and> took s (chan s') | Inl _ \<Rightarrow> log s' = log s)"
    and ack_log: "cn_Ack consumer tag s = (e, s') \<Longrightarrow> log s' = log s @ [Acked tag] \<and> work s' = work s \<and> chan s' = chan s"
    and nack_log: "cn_Nack consumer tag requeue s = (e, s') \<Longrightarrow> log s' = log s @ [Nacked tag requeue]"
begin

text \<open>Every way a message is settled.\<close>

lemma message_settlement:
  assumes "processMessage json_values consumer message s = (outcome, s')"
  shows "case decodeSignal json_values (mg_Body message) of
      None \<Rightarrow> log s' = log s @ [Nacked (mg_Tag message) False]
    | Some signal \<Rightarrow>
        if Validate signal \<noteq> None then log s' = log s @ [Nacked (mg_Tag message) False]
        else outcome = Crashed \<and> log s' = log s \<or>
          (\<exists>err. outcome = Handled (Some err)) \<and> log s' = log s @ [Nacked (mg_Tag message) True] \<or>
          log s' = log s @ [Deferred signal, Acked (mg_Tag message)] \<and> took s (chan s') \<or>
          log s' = log s @ [Acked (mg_Tag message)] \<and> settled_by signal (work s) (work s')"
proof (cases "decodeSignal json_values (mg_Body message)")
  case None
  with assms nack_log show ?thesis by (auto simp: processMessage_def split: prod.splits option.splits)
next
  case (Some signal)
  show ?thesis
  proof (cases "Validate signal")
    case (Some e)
    with assms nack_log \<open>decodeSignal _ _ = Some signal\<close> show ?thesis
      by (auto simp: processMessage_def split: prod.splits option.splits)
  next
    case None
    note dec = \<open>decodeSignal _ _ = Some signal\<close> None
    obtain po s1 where run: "cn_Process consumer signal s = (po, s1)" by fastforce
    note l1 = process_log [OF run]
    show ?thesis
    proof (cases po)
      case Panicked
      with assms dec run l1 show ?thesis by (simp add: processMessage_def)
    next
      case (Finished ack err)
      consider (failed) e where "err = Some e" | (busy) "err = None" "\<not> ack" | (final) "err = None" ack by (cases err; cases ack) auto
      then show ?thesis
      proof cases
        case failed
        with assms dec run l1 Finished nack_log show ?thesis
          by (cases ack) (auto simp: processMessage_def split: prod.splits option.splits)
      next
        case busy
        obtain r s2 where d: "cn_Defer consumer signal s1 = (r, s2)" by fastforce
        with assms dec run l1 Finished busy defer_log [OF d] nack_log ack_log show ?thesis
          by (cases r) (auto simp: processMessage_def split: prod.splits option.splits)
      next
        case final
        with assms dec run l1 Finished ack_log show ?thesis
          by (auto simp: processMessage_def split: prod.splits option.splits)
      qed
    qed
  qed
qed

end

section \<open>The consumer on the Worker's world\<close>

record consumer_state =
  cs_work :: work_world
  cs_log :: "settlement list"
  cs_calls :: nat
  cs_channels :: broker_channels
  cs_broker :: "nat \<Rightarrow> broker_channels \<Rightarrow> broker_moment"
  cs_settle :: "nat \<Rightarrow> string option"

definition world_consumer :: "(string \<Rightarrow> instant option) \<Rightarrow> string \<Rightarrow> duration \<Rightarrow> consumer_state RabbitConsumer" where
  "world_consumer ParseTime owner lease =
     \<lparr>cn_Process = (\<lambda>sig s. let (outcome, w) = Process ParseTime (world_worker owner lease) sig (cs_work s) in (outcome, s\<lparr>cs_work := w\<rparr>)),
      cn_Defer = (\<lambda>sig s. let (r, ch') = publishSignal (cs_broker s (cs_calls s) (cs_channels s)) (cs_channels s) in
         (r, s\<lparr>cs_calls := Suc (cs_calls s), cs_channels := ch', cs_log := cs_log s @ (case r of Inr _ \<Rightarrow> [Deferred sig] | Inl _ \<Rightarrow> [])\<rparr>)),
      cn_Ack = (\<lambda>tag s. (cs_settle s (cs_calls s), s\<lparr>cs_calls := Suc (cs_calls s), cs_log := cs_log s @ [Acked tag]\<rparr>)),
      cn_Nack = (\<lambda>tag requeue s. (cs_settle s (cs_calls s), s\<lparr>cs_calls := Suc (cs_calls s), cs_log := cs_log s @ [Nacked tag requeue]\<rparr>))\<rparr>"

definition worker_settled :: "Signal \<Rightarrow> work_world \<Rightarrow> work_world \<Rightarrow> bool" where
  "worker_settled sig w w' \<longleftrightarrow>
     (\<exists>tail. ww_log w' = ww_log w @ tail \<and> work_trace tail (Finished True None) \<and> list_ex is_final tail)"

text \<open>The answer behind a successful deferral: it took the positive confirmation of some publication on this broker,
  and of its own one if the broker's channels held no leftover answers.\<close>

definition deferral_confirmed :: "consumer_state \<Rightarrow> broker_channels \<Rightarrow> bool" where
  "deferral_confirmed s ch' \<longleftrightarrow>
     (\<exists>n. ch_taken ch' = ch_taken (cs_channels s) @ [(ch_sent (cs_channels s), n)] \<and>
        (in_step (cs_channels s) \<and> honest (cs_broker s (cs_calls s) (cs_channels s)) (cs_channels s) \<longrightarrow>
           n = ch_sent (cs_channels s) \<and> in_step ch'))"

lemma deferral_confirmedI:
  assumes "publishSignal (cs_broker s (cs_calls s) (cs_channels s)) (cs_channels s) = (Inr (), ch')"
  shows "deferral_confirmed s ch'"
proof -
  from assms obtain n rest where "ch' = (cs_channels s)\<lparr>ch_sent := Suc (ch_sent (cs_channels s)), ch_confirms := rest, ch_returns := [],
     ch_confirmed := ch_confirmed (cs_channels s) @ map fst (bm_confirms (cs_broker s (cs_calls s) (cs_channels s))),
     ch_taken := ch_taken (cs_channels s) @ [(ch_sent (cs_channels s), n)]\<rparr>"
    by (rule publishSignal_Inr)
  then have "ch_taken ch' = ch_taken (cs_channels s) @ [(ch_sent (cs_channels s), n)]" by simp
  with own_confirmation [OF _ _ assms] show ?thesis unfolding deferral_confirmed_def by (intro exI [of _ n]) auto
qed

interpretation wc: consumer_world "world_consumer ParseTime owner lease" cs_log cs_work worker_settled cs_channels deferral_confirmed
  for ParseTime owner lease
proof
  fix sig and s s' :: consumer_state and outcome
  assume run: "cn_Process (world_consumer ParseTime owner lease) sig s = (outcome, s')"
  then obtain w where w: "Process ParseTime (world_worker owner lease) sig (cs_work s) = (outcome, w)" "s' = s\<lparr>cs_work := w\<rparr>"
    by (auto simp: world_consumer_def split: prod.splits)
  from ww.process_log [OF w(1)] obtain tail where "ww_log w = ww_log (cs_work s) @ tail" "work_trace tail outcome" by blast
  moreover have "deferral_confirmed s' = deferral_confirmed s" by (simp add: w(2) deferral_confirmed_def fun_eq_iff)
  ultimately show "cs_log s' = cs_log s \<and> deferral_confirmed s' = deferral_confirmed s \<and>
      (outcome = Finished True None \<longrightarrow> worker_settled sig (cs_work s) (cs_work s'))"
    using work_trace_final w(2) unfolding worker_settled_def by auto
qed (auto simp: world_consumer_def Let_def deferral_confirmedI split: prod.splits sum.splits)


definition demo_uuid :: string where
  "demo_uuid = ''00000000-0000-4000-8000-000000000000''"

definition demo_stream :: "byte list \<Rightarrow> json_stream" where
  "demo_stream body = ([JObj [(''delivery_id'', JStr demo_uuid), (''generation'', JNum ''-1''), (''trace_id'', JStr demo_uuid)]], AtEOF)"

definition demo_state :: consumer_state where
  "demo_state = \<lparr>cs_work = demo_world, cs_log = [], cs_calls = 0, cs_channels = new_channels,
     cs_broker = (\<lambda>_. prompt), cs_settle = (\<lambda>_. None)\<rparr>"

text \<open>A valid signal whose destination has no capacity left: the message is deferred and then acknowledged, on the
  confirmation of its own copy.\<close>

definition busy_stream :: "byte list \<Rightarrow> json_stream" where
  "busy_stream body = ([JObj [(''delivery_id'', JStr demo_uuid), (''generation'', JNum ''0''), (''trace_id'', JStr demo_uuid)]], AtEOF)"

definition busy_state :: consumer_state where
  "busy_state = demo_state\<lparr>cs_work := demo_world\<lparr>
     ww_db := demo_db\<lparr>deliveries := [demo_delivery demo_uuid ''k'' StatusPending 0]\<rparr>,
     ww_limiter := snd (tryAcquire 10 (destination_of_row demo_version) newDestinationLimiter)\<rparr>\<rparr>"

lemma busy_run:
  "cs_log (snd (processMessage busy_stream (world_consumer (\<lambda>_. None) ''w'' Second) \<lparr>mg_Tag = 5, mg_Body = []\<rparr> busy_state)) =
    [Deferred \<lparr>sg_DeliveryID = demo_uuid, sg_Generation = 0, sg_TraceID = demo_uuid\<rparr>, Acked 5]"
  by code_simp


end
