(* ===== verification/Rabbit_Link.thy ===== *)
theory Rabbit_Link
  imports Rabbit_Consumer
begin

text \<open>
  The links to RabbitMQ: the broker and its queue topology (\<open>internal/dispatch/rabbit.go\<close>), the depth probe
  (\<open>internal/dispatch/metrics.go\<close>) and the consumer's connection and receive loop
  (\<open>internal/worker/rabbit.go\<close>). The AMQP client library is a parameter that answers each call on a
  state; what the code relies on, that a connection is open from a successful dial to its close, is the
  locale \<open>amqp_library\<close>, interpreted on a library that gives any sequence of answers.
\<close>

section \<open>Calls of the client library\<close>

datatype amqp_arg = TableString string | TableInt int

datatype amqp_call =
    Dial string "duration option"
  | OpenChannel int
  | ExchangeDeclare int string string bool bool bool bool
  | QueueDeclare int string bool bool bool bool "(string \<times> amqp_arg) list"
  | QueueBind int string string string bool
  | Confirm int bool
  | Qos int int int bool
  | Consume int string string bool bool bool bool
  | QueueInspect int string
  | CloseChannel int
  | CloseConnection int

text \<open>The answer of a call: the text of its error, or a number (the handle of the connection, channel or
  delivery stream that was opened, the messages of an inspected queue).\<close>

type_synonym 's amqp = "amqp_call \<Rightarrow> 's \<Rightarrow> (string + int) \<times> 's"

text \<open>An error of a link: what was attempted and the text of the cause (\<open>fmt.Errorf\<close> with \<open>%w\<close>).\<close>

datatype link_error = Wrapped string string | BareContext

fun wrap_link :: "string \<Rightarrow> link_error \<Rightarrow> link_error" where
  "wrap_link what (Wrapped inner e) = Wrapped (what @ '': '' @ inner) e"
| "wrap_link what BareContext = Wrapped what ''context done''"

section \<open>Topology\<close>

abbreviation ExchangeName :: string where "ExchangeName \<equiv> ''reliable-notifier.dispatch''"
abbreviation QueueName :: string where "QueueName \<equiv> ''reliable-notifier.dispatch''"
abbreviation RoutingKey :: string where "RoutingKey \<equiv> ''delivery''"
abbreviation DeadLetterExchange :: string where "DeadLetterExchange \<equiv> ''reliable-notifier.dispatch.dlx''"
abbreviation DeadLetterQueue :: string where "DeadLetterQueue \<equiv> ''reliable-notifier.dispatch.dlq''"
abbreviation DeadLetterKey :: string where "DeadLetterKey \<equiv> ''dead''"
abbreviation DeferralQueue :: string where "DeferralQueue \<equiv> ''reliable-notifier.dispatch.deferred''"

definition topology :: "int \<Rightarrow> (string \<times> amqp_call) list" where
  "topology ch =
     [(''declare dead-letter exchange'', ExchangeDeclare ch DeadLetterExchange ''direct'' True False False False),
      (''declare dead-letter queue'', QueueDeclare ch DeadLetterQueue True False False False []),
      (''bind dead-letter queue'', QueueBind ch DeadLetterQueue DeadLetterKey DeadLetterExchange False),
      (''declare dispatch exchange'', ExchangeDeclare ch ExchangeName ''direct'' True False False False),
      (''declare dispatch queue'', QueueDeclare ch QueueName True False False False
         [(''x-dead-letter-exchange'', TableString DeadLetterExchange), (''x-dead-letter-routing-key'', TableString DeadLetterKey)]),
      (''bind dispatch queue'', QueueBind ch QueueName RoutingKey ExchangeName False),
      (''declare dispatch deferral queue'', QueueDeclare ch DeferralQueue True False False False
         [(''x-dead-letter-exchange'', TableString ExchangeName), (''x-dead-letter-routing-key'', TableString RoutingKey),
          (''x-message-ttl'', TableInt 250)])]"

text \<open>One call after the other, up to the first error.\<close>

fun call_all :: "'s amqp \<Rightarrow> (string \<times> amqp_call) list \<Rightarrow> 's \<Rightarrow> link_error option \<times> 's" where
  "call_all amqp [] s = (None, s)"
| "call_all amqp ((what, call) # calls) s =
     (case amqp call s of (Inl e, s1) \<Rightarrow> (Some (Wrapped what e), s1) | (Inr _, s1) \<Rightarrow> call_all amqp calls s1)"

definition declareTopology :: "'s amqp \<Rightarrow> int \<Rightarrow> 's \<Rightarrow> link_error option \<times> 's" where
  "declareTopology amqp ch s = call_all amqp (topology ch) s"

section \<open>The broker\<close>

record RabbitBroker =
  rb_connection :: "int option"
  rb_channel :: "int option"

text \<open>Closing what is not nil, in order; the first error is returned.\<close>

fun close_all :: "'s amqp \<Rightarrow> amqp_call option list \<Rightarrow> string option \<Rightarrow> 's \<Rightarrow> string option \<times> 's" where
  "close_all amqp [] closeError s = (closeError, s)"
| "close_all amqp (None # calls) closeError s = close_all amqp calls closeError s"
| "close_all amqp (Some call # calls) closeError s =
     (case amqp call s of
        (Inl e, s1) \<Rightarrow> close_all amqp calls (if closeError = None then Some e else closeError) s1
      | (Inr _, s1) \<Rightarrow> close_all amqp calls closeError s1)"

definition broker_Close :: "'s amqp \<Rightarrow> RabbitBroker \<Rightarrow> 's \<Rightarrow> string option \<times> 's" where
  "broker_Close amqp broker s =
     close_all amqp [map_option CloseChannel (rb_channel broker), map_option CloseConnection (rb_connection broker)] None s"

text \<open>\<open>NotifyPublish\<close> and \<open>NotifyReturn\<close> register Go channels with the library and cannot fail; the channels of a
  new broker are \<open>new_channels\<close>.\<close>

definition NewRabbitBroker :: "'s amqp \<Rightarrow> string \<Rightarrow> 's \<Rightarrow> (link_error + RabbitBroker) \<times> 's" where
  "NewRabbitBroker amqp rawURL s =
     (case amqp (Dial rawURL (Some (5 * Second))) s of
        (Inl e, s1) \<Rightarrow> (Inl (Wrapped ''connect RabbitMQ'' e), s1)
      | (Inr connection, s1) \<Rightarrow>
      case amqp (OpenChannel connection) s1 of
        (Inl e, s2) \<Rightarrow> (Inl (Wrapped ''open RabbitMQ channel'' e), snd (amqp (CloseConnection connection) s2))
      | (Inr channel, s2) \<Rightarrow>
      let broker = \<lparr>rb_connection = Some connection, rb_channel = Some channel\<rparr> in
      case declareTopology amqp channel s2 of
        (Some e, s3) \<Rightarrow> (Inl e, snd (broker_Close amqp broker s3))
      | (None, s3) \<Rightarrow>
      case amqp (Confirm channel False) s3 of
        (Inl e, s4) \<Rightarrow> (Inl (Wrapped ''enable RabbitMQ publisher confirms'' e), snd (broker_Close amqp broker s4))
      | (Inr _, s4) \<Rightarrow> (Inr broker, s4))"

text \<open>\<open>Publish\<close> and \<open>Defer\<close>: the message handed to the library and what is made of the answers in the broker's
  channels. The encoder
  \<open>json_text\<close> of a JSON value is an argument, like the decoder; \<open>Json_Text\<close> has both.\<close>

record Publishing =
  pm_Exchange :: string
  pm_RoutingKey :: string
  pm_Mandatory :: bool
  pm_Immediate :: bool
  pm_Persistent :: bool
  pm_ContentType :: string
  pm_Type :: string
  pm_Timestamp :: instant
  pm_Body :: "byte list"

definition Marshal_signal :: "Signal \<Rightarrow> json" where
  "Marshal_signal signal =
     JObj [(''delivery_id'', JStr (sg_DeliveryID signal)), (''generation'', JNum (FormatInt (sg_Generation signal))),
           (''trace_id'', JStr (sg_TraceID signal))]"

definition signal_publishing :: "(json \<Rightarrow> byte list) \<Rightarrow> instant \<Rightarrow> string \<Rightarrow> string \<Rightarrow> string \<Rightarrow> Signal \<Rightarrow> Publishing" where
  "signal_publishing json_text now exchange routingKey messageType signal =
     \<lparr>pm_Exchange = exchange, pm_RoutingKey = routingKey, pm_Mandatory = True, pm_Immediate = False, pm_Persistent = True,
      pm_ContentType = ''application/json'', pm_Type = messageType, pm_Timestamp = now,
      pm_Body = json_text (Marshal_signal signal)\<rparr>"

definition Publish :: "(json \<Rightarrow> byte list) \<Rightarrow> (Publishing \<Rightarrow> broker_channels \<Rightarrow> broker_moment) \<Rightarrow> instant \<Rightarrow> Signal \<Rightarrow> broker_channels
    \<Rightarrow> (broker_error + unit) \<times> broker_channels" where
  "Publish json_text send now signal ch =
     publishSignal (send (signal_publishing json_text now ExchangeName RoutingKey ''delivery.dispatch'' signal) ch) ch"

definition Defer :: "(json \<Rightarrow> byte list) \<Rightarrow> (Publishing \<Rightarrow> broker_channels \<Rightarrow> broker_moment) \<Rightarrow> instant \<Rightarrow> Signal \<Rightarrow> broker_channels
    \<Rightarrow> (broker_error + unit) \<times> broker_channels" where
  "Defer json_text send now signal ch =
     publishSignal (send (signal_publishing json_text now [] DeferralQueue ''delivery.deferred'' signal) ch) ch"

section \<open>The depth probe\<close>

definition QueueDepth :: "bool \<Rightarrow> 's amqp \<Rightarrow> string \<Rightarrow> 's \<Rightarrow> (link_error + int) \<times> 's" where
  "QueueDepth ctxDone amqp rawURL s =
     (if ctxDone then (Inl BareContext, s)
      else case amqp (Dial rawURL (Some (2 * Second))) s of
        (Inl e, s1) \<Rightarrow> (Inl (Wrapped ''connect RabbitMQ metrics probe'' e), s1)
      | (Inr connection, s1) \<Rightarrow>
      case amqp (OpenChannel connection) s1 of
        (Inl e, s2) \<Rightarrow> (Inl (Wrapped ''open RabbitMQ metrics channel'' e), snd (amqp (CloseConnection connection) s2))
      | (Inr channel, s2) \<Rightarrow>
      let finish = (\<lambda>s. snd (amqp (CloseConnection connection) (snd (amqp (CloseChannel channel) s)))) in
      case amqp (QueueInspect channel QueueName) s2 of
        (Inl e, s3) \<Rightarrow> (Inl (Wrapped ''inspect RabbitMQ dispatch queue'' e), finish s3)
      | (Inr queue, s3) \<Rightarrow>
      case amqp (QueueInspect channel DeferralQueue) s3 of
        (Inl e, s4) \<Rightarrow> (Inl (Wrapped ''inspect RabbitMQ deferral queue'' e), finish s4)
      | (Inr deferred, s4) \<Rightarrow> (Inr (queue + deferred), finish s4))"

section \<open>The consumer's link\<close>

text \<open>The fields of \<open>RabbitConsumer\<close> that hold resources; its calls on messages are the record of
  \<open>Rabbit_Consumer\<close>.\<close>

record consumer_link =
  cl_connection :: "int option"
  cl_channel :: "int option"
  cl_messages :: int
  cl_deferrer :: "RabbitBroker option"

definition consumer_Close :: "'s amqp \<Rightarrow> consumer_link \<Rightarrow> 's \<Rightarrow> string option \<times> 's" where
  "consumer_Close amqp consumer s =
     (let (closeError, s1) = (case cl_deferrer consumer of None \<Rightarrow> (None, s) | Some broker \<Rightarrow> broker_Close amqp broker s) in
      close_all amqp [map_option CloseChannel (cl_channel consumer), map_option CloseConnection (cl_connection consumer)] closeError s1)"

definition NewRabbitConsumer :: "'s amqp \<Rightarrow> string \<Rightarrow> 's \<Rightarrow> (link_error + consumer_link) \<times> 's" where
  "NewRabbitConsumer amqp rawURL s =
     (case NewRabbitBroker amqp rawURL s of
        (Inl e, s1) \<Rightarrow> (Inl (wrap_link ''create RabbitMQ deferral publisher'' e), s1)
      | (Inr deferrer, s1) \<Rightarrow>
      let closeDeferrer = (\<lambda>s. snd (broker_Close amqp deferrer s)) in
      case amqp (Dial rawURL None) s1 of
        (Inl e, s2) \<Rightarrow> (Inl (Wrapped ''connect RabbitMQ Worker'' e), closeDeferrer s2)
      | (Inr connection, s2) \<Rightarrow>
      case amqp (OpenChannel connection) s2 of
        (Inl e, s3) \<Rightarrow> (Inl (Wrapped ''open RabbitMQ Worker channel'' e), snd (amqp (CloseConnection connection) (closeDeferrer s3)))
      | (Inr channel, s3) \<Rightarrow>
      let closeAll = (\<lambda>s. snd (amqp (CloseConnection connection) (snd (amqp (CloseChannel channel) (closeDeferrer s))))) in
      case amqp (Qos channel 8 0 False) s3 of
        (Inl e, s4) \<Rightarrow> (Inl (Wrapped ''set Worker prefetch'' e), closeAll s4)
      | (Inr _, s4) \<Rightarrow>
      case amqp (Consume channel QueueName [] False False False False) s4 of
        (Inl e, s5) \<Rightarrow> (Inl (Wrapped ''consume dispatch queue'' e), closeAll s5)
      | (Inr messages, s5) \<Rightarrow>
          (Inr \<lparr>cl_connection = Some connection, cl_channel = Some channel, cl_messages = messages, cl_deferrer = Some deferrer\<rparr>, s5))"

section \<open>Connections\<close>

definition is_dial :: "amqp_call \<Rightarrow> bool" where
  "is_dial call = (case call of Dial _ _ \<Rightarrow> True | _ \<Rightarrow> False)"

definition is_hangup :: "amqp_call \<Rightarrow> bool" where
  "is_hangup call = (case call of CloseConnection _ \<Rightarrow> True | _ \<Rightarrow> False)"

text \<open>The connections a broker and a consumer have to close.\<close>

definition broker_owns :: "RabbitBroker \<Rightarrow> int set" where
  "broker_owns broker = set_option (rb_connection broker)"

definition link_owns :: "consumer_link \<Rightarrow> int set" where
  "link_owns link = set_option (cl_connection link) \<union> (case cl_deferrer link of None \<Rightarrow> {} | Some broker \<Rightarrow> broker_owns broker)"

text \<open>What the code relies on: a successful dial opens one new connection, closing a connection ends it
  whether or not the call reports an error, and no other call opens or ends one.\<close>

locale amqp_library =
  fixes amqp :: "'s amqp" and opened :: "'s \<Rightarrow> int set"
  assumes dialed_new: "amqp (Dial url t) s = (Inr c, s') \<Longrightarrow> c \<notin> opened s \<and> opened s' = insert c (opened s)"
    and dial_refused: "amqp (Dial url t) s = (Inl e, s') \<Longrightarrow> opened s' = opened s"
    and hangup: "amqp (CloseConnection c) s = (r, s') \<Longrightarrow> opened s' = opened s - {c}"
    and others: "amqp call s = (r, s') \<Longrightarrow> \<not> is_dial call \<Longrightarrow> \<not> is_hangup call \<Longrightarrow> opened s' = opened s"
begin

lemma opened_others:
  "amqp (OpenChannel c) s = (r, s') \<Longrightarrow> opened s' = opened s"
  "amqp (Confirm c b) s = (r, s') \<Longrightarrow> opened s' = opened s"
  "amqp (Qos c i j b) s = (r, s') \<Longrightarrow> opened s' = opened s"
  "amqp (Consume c q n a b d e) s = (r, s') \<Longrightarrow> opened s' = opened s"
  "amqp (QueueInspect c q) s = (r, s') \<Longrightarrow> opened s' = opened s"
  "amqp (CloseChannel c) s = (r, s') \<Longrightarrow> opened s' = opened s"
  by (drule others; simp add: is_dial_def is_hangup_def)+

lemma opened_snd [simp]:
  "opened (snd (amqp (CloseChannel c) s)) = opened s"
  "opened (snd (amqp (CloseConnection c) s)) = opened s - {c}"
  by (rule opened_others(6) [OF prod.collapse [symmetric]], rule hangup [OF prod.collapse [symmetric]])

lemma call_all_opened:
  assumes "call_all amqp calls s = (r, s')" "list_all (\<lambda>(what, call). \<not> is_dial call \<and> \<not> is_hangup call) calls"
  shows "opened s' = opened s"
  using assms
proof (induction calls arbitrary: s)
  case (Cons x calls)
  obtain what call where x: "x = (what, call)" by fastforce
  obtain a s1 where call: "amqp call s = (a, s1)" by fastforce
  have "opened s1 = opened s" using others [OF call] Cons(3) x by simp
  with Cons x call show ?case by (cases a) auto
qed simp

lemma declareTopology_opened: "declareTopology amqp ch s = (r, s') \<Longrightarrow> opened s' = opened s"
  unfolding declareTopology_def by (erule call_all_opened) (simp add: topology_def is_dial_def is_hangup_def)

lemma close_all_opened:
  "opened (snd (close_all amqp [map_option CloseChannel ch, map_option CloseConnection c] e s)) = opened s - set_option c"
proof (cases ch; cases c)
  fix channel connection assume c: "ch = Some channel" "c = Some connection"
  obtain a s1 b s2 where "amqp (CloseChannel channel) s = (a, s1)" "amqp (CloseConnection connection) s1 = (b, s2)" by fastforce
  with opened_others(6) [OF this(1)] hangup [OF this(2)] c show ?thesis by (cases a; cases b) auto
next
  fix channel assume c: "ch = Some channel" "c = None"
  obtain a s1 where "amqp (CloseChannel channel) s = (a, s1)" by fastforce
  with opened_others(6) [OF this] c show ?thesis by (cases a) auto
next
  fix connection assume c: "ch = None" "c = Some connection"
  obtain b s1 where "amqp (CloseConnection connection) s = (b, s1)" by fastforce
  with hangup [OF this] c show ?thesis by (cases b) auto
qed simp

lemma broker_Close_opened [simp]: "opened (snd (broker_Close amqp broker s)) = opened s - broker_owns broker"
  unfolding broker_Close_def broker_owns_def by (rule close_all_opened)

lemma consumer_Close_opened [simp]: "opened (snd (consumer_Close amqp link s)) = opened s - link_owns link"
  by (auto simp: consumer_Close_def link_owns_def close_all_opened case_prod_beta split: option.split)

text \<open>A constructor that fails leaves no connection behind; one that succeeds owns exactly the new ones.\<close>

lemma NewRabbitBroker_opened:
  assumes "NewRabbitBroker amqp url s = (r, s')"
  shows "case r of Inl _ \<Rightarrow> opened s' = opened s
    | Inr broker \<Rightarrow> (\<exists>c. broker_owns broker = {c}) \<and> opened s \<inter> broker_owns broker = {} \<and> opened s' = opened s \<union> broker_owns broker"
proof -
  obtain a s1 where dial: "amqp (Dial url (Some (5 * Second))) s = (a, s1)" by fastforce
  show ?thesis
  proof (cases a)
    case (Inl e)
    with assms dial dial_refused show ?thesis by (auto simp: NewRabbitBroker_def)
  next
    case (Inr c)
    note new = dialed_new [OF dial [unfolded Inr]]
    from assms dial Inr new show ?thesis
      by (fastforce simp: NewRabbitBroker_def Let_def broker_owns_def split: prod.splits sum.splits option.splits
          dest!: opened_others(1,2) declareTopology_opened)
  qed
qed

lemma QueueDepth_opened: "QueueDepth ctxDone amqp url s = (r, s') \<Longrightarrow> opened s' = opened s"
proof -
  assume run: "QueueDepth ctxDone amqp url s = (r, s')"
  obtain a s1 where dial: "amqp (Dial url (Some (2 * Second))) s = (a, s1)" by fastforce
  show ?thesis
  proof (cases a)
    case (Inl e)
    with run dial dial_refused show ?thesis by (auto simp: QueueDepth_def split: if_splits)
  next
    case (Inr c)
    from run dial Inr dialed_new [OF dial [unfolded Inr]] show ?thesis
      by (auto simp: QueueDepth_def Let_def split: prod.splits sum.splits if_splits dest!: opened_others(1,5))
  qed
qed

text \<open>The consumer once both connections are there: \<open>d\<close> is the deferrer's.\<close>

lemma connected_consumer_opened:
  assumes "NewRabbitConsumer amqp url s = (r, s')" and broker: "NewRabbitBroker amqp url s = (Inr deferrer, s1)"
    and dial: "amqp (Dial url None) s1 = (Inr c, s2)"
    and d: "broker_owns deferrer = {d}" "d \<notin> opened s" "opened s1 = insert d (opened s)"
  shows "case r of Inl _ \<Rightarrow> opened s' = opened s
    | Inr link \<Rightarrow> link_owns link = {c, d} \<and> c \<noteq> d \<and> opened s \<inter> {c, d} = {} \<and> opened s' = opened s \<union> {c, d}"
proof -
  note new = dialed_new [OF dial]
  obtain y s3 where open_ch: "amqp (OpenChannel c) s2 = (y, s3)" by fastforce
  note o3 = opened_others(1) [OF open_ch]
  note so_far = assms new open_ch o3
  show ?thesis
  proof (cases y)
    case (Inl e)
    with so_far show ?thesis by (auto simp: NewRabbitConsumer_def Let_def)
  next
    case (Inr ch)
    obtain q s4 m s5 where rest: "amqp (Qos ch 8 0 False) s3 = (q, s4)" "amqp (Consume ch QueueName [] False False False False) s4 = (m, s5)"
      by fastforce
    note o45 = opened_others(3) [OF rest(1)] opened_others(4) [OF rest(2)]
    show ?thesis
    proof (cases "\<exists>e. q = Inl e \<or> m = Inl e")
      case True
      with so_far Inr rest o45 show ?thesis by (cases q; cases m) (auto simp: NewRabbitConsumer_def Let_def)
    next
      case False
      then obtain q' m' where ok: "q = Inr q'" "m = Inr m'" by (cases q; cases m) auto
      with so_far Inr rest have link: "r = Inr \<lparr>cl_connection = Some c, cl_channel = Some ch, cl_messages = m', cl_deferrer = Some deferrer\<rparr>"
        "s' = s5" by (simp_all add: NewRabbitConsumer_def)
      then have "link_owns (projr r) = {c, d}" using d(1) by (auto simp: link_owns_def)
      with link new d o3 o45 show ?thesis by auto
    qed
  qed
qed

lemma NewRabbitConsumer_opened:
  assumes "NewRabbitConsumer amqp url s = (r, s')"
  shows "case r of Inl _ \<Rightarrow> opened s' = opened s
    | Inr link \<Rightarrow> (\<exists>c d. c \<noteq> d \<and> link_owns link = {c, d}) \<and> opened s \<inter> link_owns link = {} \<and> opened s' = opened s \<union> link_owns link"
proof -
  obtain a s1 where broker: "NewRabbitBroker amqp url s = (a, s1)" by fastforce
  note b = NewRabbitBroker_opened [OF broker]
  obtain x s2 where dial: "amqp (Dial url None) s1 = (x, s2)" by fastforce
  show ?thesis
  proof (cases a)
    case (Inl e)
    with assms broker b show ?thesis by (auto simp: NewRabbitConsumer_def)
  next
    case (Inr deferrer)
    with b obtain d where d: "broker_owns deferrer = {d}" "d \<notin> opened s" "opened s1 = insert d (opened s)" by auto
    show ?thesis
    proof (cases x)
      case (Inl e)
      with assms broker Inr dial d dial_refused [OF dial [unfolded Inl]] show ?thesis by (auto simp: NewRabbitConsumer_def Let_def)
    next
      case (Inr c)
      from connected_consumer_opened [OF assms broker [unfolded \<open>a = Inr deferrer\<close>] dial [unfolded Inr] d] show ?thesis
        by (auto split: sum.splits)
    qed
  qed
qed

end

section \<open>A library with any answers\<close>

text \<open>The n-th call is answered as \<open>al_answers\<close> says; a dial gets a handle that is not in use. The log keeps
  every call and whether it succeeded.\<close>

record amqp_world =
  al_open :: "int list"
  al_log :: "(amqp_call \<times> bool) list"
  al_answers :: "nat \<Rightarrow> string + int"

definition fresh_handle :: "int list \<Rightarrow> int" where
  "fresh_handle used = fold max used 0 + 1"

definition world_amqp :: "amqp_world amqp" where
  "world_amqp call w =
     (let answer = al_answers w (length (al_log w));
          w1 = w\<lparr>al_log := al_log w @ [(call, case answer of Inl _ \<Rightarrow> False | Inr _ \<Rightarrow> True)]\<rparr>
      in case (call, answer) of
        (Dial _ _, Inr _) \<Rightarrow> let c = fresh_handle (al_open w) in (Inr c, w1\<lparr>al_open := c # al_open w\<rparr>)
      | (CloseConnection c, _) \<Rightarrow> (answer, w1\<lparr>al_open := removeAll c (al_open w)\<rparr>)
      | _ \<Rightarrow> (answer, w1))"

lemma fresh_handle_notin: "fresh_handle xs \<notin> set xs"
proof -
  have "x \<le> fold max xs a" if "x \<in> set (a # xs)" for x and a :: int
    using that by (subst Max.set_eq_fold [symmetric]) simp
  then show ?thesis unfolding fresh_handle_def by (metis add_le_same_cancel1 list.set_intros(2) not_one_le_zero)
qed

interpretation al: amqp_library world_amqp "\<lambda>w. set (al_open w)"
  by unfold_locales (auto simp: world_amqp_def Let_def is_dial_def is_hangup_def fresh_handle_notin
      split: amqp_call.splits sum.splits)

text \<open>C32. Connections are never leaked, whatever the broker answers: a consumer, a broker or a depth probe
  that cannot be set up has closed every connection it opened; a consumer that is set up holds exactly two new
  connections, and closing it, with or without errors, ends exactly these.\<close>

theorem connections_not_leaked:
  assumes "NewRabbitConsumer world_amqp url w = (consumer, w1)" "NewRabbitBroker world_amqp url w = (broker, w2)"
    "QueueDepth ctxDone world_amqp url w = (depth, w3)"
  shows "(case consumer of
        Inl _ \<Rightarrow> set (al_open w1) = set (al_open w)
      | Inr link \<Rightarrow> card (set (al_open w1) - set (al_open w)) = 2 \<and> set (al_open w) \<subseteq> set (al_open w1) \<and>
          set (al_open (snd (consumer_Close world_amqp link w1))) = set (al_open w)) \<and>
     (case broker of
        Inl _ \<Rightarrow> set (al_open w2) = set (al_open w)
      | Inr b \<Rightarrow> card (set (al_open w2) - set (al_open w)) = 1 \<and> set (al_open w) \<subseteq> set (al_open w2) \<and>
          set (al_open (snd (broker_Close world_amqp b w2))) = set (al_open w)) \<and>
     set (al_open w3) = set (al_open w)"
proof (intro conjI)
  show "case consumer of
        Inl _ \<Rightarrow> set (al_open w1) = set (al_open w)
      | Inr link \<Rightarrow> card (set (al_open w1) - set (al_open w)) = 2 \<and> set (al_open w) \<subseteq> set (al_open w1) \<and>
          set (al_open (snd (consumer_Close world_amqp link w1))) = set (al_open w)"
  proof (cases consumer)
    case (Inr link)
    with al.NewRabbitConsumer_opened [OF assms(1)] obtain c d where cd: "c \<noteq> d" "link_owns link = {c, d}"
      "set (al_open w) \<inter> {c, d} = {}" "set (al_open w1) = set (al_open w) \<union> {c, d}" by auto
    then have "set (al_open w1) - set (al_open w) = {c, d}" "set (al_open w1) - {c, d} = set (al_open w)" by auto
    with cd Inr show ?thesis by (auto simp: card_insert_if al.consumer_Close_opened)
  qed (use al.NewRabbitConsumer_opened [OF assms(1)] in simp)
  show "case broker of
        Inl _ \<Rightarrow> set (al_open w2) = set (al_open w)
      | Inr b \<Rightarrow> card (set (al_open w2) - set (al_open w)) = 1 \<and> set (al_open w) \<subseteq> set (al_open w2) \<and>
          set (al_open (snd (broker_Close world_amqp b w2))) = set (al_open w)"
  proof (cases broker)
    case (Inr b)
    with al.NewRabbitBroker_opened [OF assms(2)] obtain c where c: "broker_owns b = {c}"
      "c \<notin> set (al_open w)" "set (al_open w2) = insert c (set (al_open w))" by auto
    then have "set (al_open w2) - set (al_open w) = {c}" by auto
    with c Inr show ?thesis by (auto simp: al.broker_Close_opened)
  qed (use al.NewRabbitBroker_opened [OF assms(2)] in simp)
  show "set (al_open w3) = set (al_open w)" by (rule al.QueueDepth_opened [OF assms(3)])
qed

definition demo_amqp :: "nat \<Rightarrow> amqp_world" where
  "demo_amqp failing = \<lparr>al_open = [], al_log = [], al_answers = (\<lambda>n. if n = failing then Inl ''refused'' else Inr 7)\<rparr>"

theorem connections_not_leaked_witness:
  "al_open (snd (NewRabbitConsumer world_amqp ''amqp://h'' (demo_amqp 12))) = [] \<and>
   card (set (al_open (snd (NewRabbitConsumer world_amqp ''amqp://h'' (demo_amqp 99))))) = 2"
proof -
  have leak: "case fst (NewRabbitConsumer world_amqp ''amqp://h'' w) of
      Inl _ \<Rightarrow> set (al_open (snd (NewRabbitConsumer world_amqp ''amqp://h'' w))) = set (al_open w)
    | Inr _ \<Rightarrow> card (set (al_open (snd (NewRabbitConsumer world_amqp ''amqp://h'' w))) - set (al_open w)) = 2" for w
    using connections_not_leaked [OF prod.collapse [symmetric] prod.collapse [symmetric] prod.collapse [symmetric],
      of "''amqp://h''" w False] by (auto split: sum.splits)
  have "case fst (NewRabbitConsumer world_amqp ''amqp://h'' (demo_amqp 12)) of Inl _ \<Rightarrow> True | Inr _ \<Rightarrow> False" by code_simp
  moreover have "case fst (NewRabbitConsumer world_amqp ''amqp://h'' (demo_amqp 99)) of Inl _ \<Rightarrow> False | Inr _ \<Rightarrow> True" by code_simp
  ultimately show ?thesis
    using leak [of "demo_amqp 12"] leak [of "demo_amqp 99"] by (simp add: demo_amqp_def split: sum.splits)
qed

section \<open>Routing\<close>

text \<open>How a broker routes (AMQP 0-9-1): the default exchange by the name of a declared queue, a direct exchange to
  the queues bound to it with the message's key; a message refused or expired in a queue goes to the
  queue's dead-letter exchange under its dead-letter key.\<close>

definition route :: "amqp_call list \<Rightarrow> string \<Rightarrow> string \<Rightarrow> string list" where
  "route declared exchange key =
     (if exchange = [] then [q. QueueDeclare _ q _ _ _ _ _ \<leftarrow> declared, q = key]
      else [q. QueueBind _ q k x _ \<leftarrow> declared, x = exchange \<and> k = key])"

definition dead_letter_route :: "amqp_call list \<Rightarrow> string \<Rightarrow> string list" where
  "dead_letter_route declared queue =
     concat [(case (map_of table ''x-dead-letter-exchange'', map_of table ''x-dead-letter-routing-key'') of
         (Some (TableString x), Some (TableString k)) \<Rightarrow> route declared x k | _ \<Rightarrow> []).
       QueueDeclare _ q _ _ _ _ table \<leftarrow> declared, q = queue]"

lemma call_all_log:
  "call_all world_amqp calls w = (r, w') \<Longrightarrow> list_all (\<lambda>(what, call). \<not> is_dial call \<and> \<not> is_hangup call) calls \<Longrightarrow>
   (\<exists>n\<le>length calls. map fst (al_log w') = map fst (al_log w) @ map snd (take n calls)) \<and>
   (r = None \<longrightarrow> al_log w' = al_log w @ map (\<lambda>x. (snd x, True)) calls)"
proof (induction calls arbitrary: w)
  case (Cons x calls)
  obtain what call where x: "x = (what, call)" by fastforce
  obtain a w1 where call: "world_amqp call w = (a, w1)" by fastforce
  then have log: "al_log w1 = al_log w @ [(call, case a of Inl _ \<Rightarrow> False | Inr _ \<Rightarrow> True)]"
    using Cons(3) x by (auto simp: world_amqp_def Let_def is_dial_def is_hangup_def split: amqp_call.splits sum.splits)
  show ?case
  proof (cases a)
    case (Inl e)
    with Cons(2) x call log show ?thesis by (auto intro!: exI [of _ 1])
  next
    case (Inr v)
    with Cons(2) x call have "call_all world_amqp calls w1 = (r, w')" by simp
    from Cons(1) [OF this] Cons(3) obtain n where n: "n \<le> length calls"
      "map fst (al_log w') = map fst (al_log w1) @ map snd (take n calls)" and all: "r = None \<longrightarrow> al_log w' = al_log w1 @ map (\<lambda>x. (snd x, True)) calls"
      by auto
    from n log x have "Suc n \<le> length (x # calls) \<and> map fst (al_log w') = map fst (al_log w) @ map snd (take (Suc n) (x # calls))"
      by simp
    with all log x Inr show ?thesis by (auto intro!: exI [of _ "Suc n"] simp del: take_Suc_Cons)
  qed
qed simp

definition durable :: "amqp_call \<Rightarrow> bool" where
  "durable call = (case call of
     ExchangeDeclare _ _ _ d autoDelete _ _ \<Rightarrow> d \<and> \<not> autoDelete
   | QueueDeclare _ _ d autoDelete exclusive _ _ \<Rightarrow> d \<and> \<not> autoDelete \<and> \<not> exclusive
   | _ \<Rightarrow> True)"

lemma NewRabbitBroker_log:
  assumes "NewRabbitBroker world_amqp url w = (Inr broker, w')"
  shows "\<exists>c ch. al_log w' = al_log w @ map (\<lambda>call. (call, True))
     ([Dial url (Some (5 * Second)), OpenChannel c] @ map snd (topology ch) @ [Confirm ch False])"
proof -
  obtain a w1 where dial: "world_amqp (Dial url (Some (5 * Second))) w = (a, w1)" by fastforce
  with assms obtain c where c: "a = Inr c" by (cases a) (auto simp: NewRabbitBroker_def)
  obtain b w2 where chan: "world_amqp (OpenChannel c) w1 = (b, w2)" by fastforce
  with assms dial c obtain ch where ch: "b = Inr ch" by (cases b) (auto simp: NewRabbitBroker_def)
  obtain e w3 where top: "declareTopology world_amqp ch w2 = (e, w3)" by fastforce
  with assms dial c chan ch have e: "e = None" by (cases e) (auto simp: NewRabbitBroker_def Let_def)
  have "al_log w3 = al_log w2 @ map (\<lambda>x. (snd x, True)) (topology ch)"
    using top call_all_log [of "topology ch" w2 e w3] by (simp add: e declareTopology_def topology_def is_dial_def is_hangup_def)
  moreover have "al_log w2 = al_log w1 @ [(OpenChannel c, True)]" "al_log w1 = al_log w @ [(Dial url (Some (5 * Second)), True)]"
    using dial chan c ch by (auto simp: world_amqp_def Let_def split: sum.splits)
  moreover have "al_log w' = al_log w3 @ [(Confirm ch False, True)]"
    using assms dial c chan ch top e by (auto simp: NewRabbitBroker_def world_amqp_def Let_def split: sum.splits)
  ultimately show ?thesis by (intro exI [of _ c] exI [of _ ch]) simp
qed

text \<open>The topology a broker has declared carries every signal to where it belongs: a published signal is
  persistent and goes to the dispatch queue and nowhere else, a deferred one to the deferral queue, whose
  messages return to the dispatch queue when they expire after 250 ms; a message refused by the consumer goes to the
  dead-letter queue and stays there; all of it survives a restart of the broker. Both publications
  are mandatory, so the broker reports one that reaches no queue.\<close>

theorem topology_carries_signals:
  fixes signal :: Signal and now :: instant and json_text :: "json \<Rightarrow> byte list"
  assumes "NewRabbitBroker world_amqp url w = (Inr broker, w')"
  defines "declared \<equiv> map fst (drop (length (al_log w)) (al_log w'))"
    and "published \<equiv> signal_publishing json_text now ExchangeName RoutingKey ''delivery.dispatch'' signal"
    and "deferred \<equiv> signal_publishing json_text now [] DeferralQueue ''delivery.deferred'' signal"
  shows "list_all snd (drop (length (al_log w)) (al_log w')) \<and> list_all durable declared \<and>
    route declared (pm_Exchange published) (pm_RoutingKey published) = [QueueName] \<and>
    route declared (pm_Exchange deferred) (pm_RoutingKey deferred) = [DeferralQueue] \<and>
    dead_letter_route declared DeferralQueue = [QueueName] \<and> dead_letter_route declared QueueName = [DeadLetterQueue] \<and>
    dead_letter_route declared DeadLetterQueue = [] \<and>
    pm_Mandatory published \<and> pm_Mandatory deferred \<and> pm_Persistent published \<and> pm_Persistent deferred"
proof -
  from NewRabbitBroker_log [OF assms(1)] obtain c ch where log: "al_log w' = al_log w @ map (\<lambda>call. (call, True))
     ([Dial url (Some (5 * Second)), OpenChannel c] @ map snd (topology ch) @ [Confirm ch False])" by blast
  then have declared: "declared = [Dial url (Some (5 * Second)), OpenChannel c] @ map snd (topology ch) @ [Confirm ch False]"
    by (simp add: declared_def comp_def)
  have "list_all snd (drop (length (al_log w)) (al_log w'))" by (simp add: log list_all_iff)
  then show ?thesis unfolding declared published_def deferred_def
    by (simp add: topology_def durable_def route_def dead_letter_route_def signal_publishing_def)
qed

theorem topology_carries_signals_witness:
  "dead_letter_route (map fst (al_log (snd (NewRabbitBroker world_amqp ''amqp://h'' (demo_amqp 99))))) DeferralQueue = [QueueName]"
proof -
  have "NewRabbitBroker world_amqp ''amqp://h'' (demo_amqp 99) =
    (Inr \<lparr>rb_connection = Some 1, rb_channel = Some 7\<rparr>, snd (NewRabbitBroker world_amqp ''amqp://h'' (demo_amqp 99)))"
    unfolding prod_eq_iff fst_conv snd_conv by (intro conjI refl) code_simp
  from topology_carries_signals [OF this] show ?thesis by (simp add: demo_amqp_def)
qed

section \<open>A signal over the queue\<close>

lemma digits_value_append: "digits_value (s @ [c]) = digits_value s * 10 + int (of_char c - 48)"
  by (simp add: digits_value_def)

lemma digits_value_dec_digits: "digits_value (dec_digits n) = int n"
proof (induction n rule: dec_digits.induct)
  case (1 n)
  show ?case
  proof (cases "n < 10")
    case True
    then show ?thesis by (subst dec_digits.simps) (simp add: digits_value_def)
  next
    case False
    moreover have "int (n div 10) * 10 + int (n mod 10) = int n" using div_mult_mod_eq [of n 10] by linarith
    ultimately show ?thesis using 1 by (subst dec_digits.simps) (simp add: digits_value_append)
  qed
qed

lemma dec_digits_ne: "dec_digits n \<noteq> []"
  by (subst dec_digits.simps) simp

lemma ParseInt_FormatInt: "- (2 ^ 63) \<le> v \<Longrightarrow> v < 2 ^ 63 \<Longrightarrow> ParseInt (FormatInt v) = Some v"
proof -
  assume v: "- (2 ^ 63) \<le> v" "v < 2 ^ 63"
  have digits: "list_all is_digit (dec_digits n)" for n
    using dec_digits_range by (auto simp: list_all_iff is_digit_def Let_def)
  have "hd (dec_digits n) \<noteq> CHR ''-'' \<and> hd (dec_digits n) \<noteq> CHR ''+''" for n
    using dec_digits_range [OF hd_in_set [OF dec_digits_ne [of n]]] by auto
  with v digits dec_digits_ne show ?thesis
    by (auto simp: ParseInt_def FormatInt_def Let_def digits_value_dec_digits)
qed

text \<open>A signal survives the queue: for any encoder and decoder of JSON that fit each other, the consumer decodes from
  a published or deferred message exactly the signal that went in.\<close>

theorem signal_survives_queue:
  assumes "json_values (json_text (Marshal_signal signal)) = ([Marshal_signal signal], AtEOF)"
    and "- (2 ^ 63) \<le> sg_Generation signal" "sg_Generation signal < 2 ^ 63"
  shows "decodeSignal json_values (pm_Body (signal_publishing json_text now exchange key kind signal)) = Some signal"
proof -
  have "decode_struct signal_fields \<lparr>sg_DeliveryID = [], sg_Generation = 0, sg_TraceID = []\<rparr> (Marshal_signal signal) = Some signal"
    using ParseInt_FormatInt [OF assms(2,3)]
    by (simp add: Marshal_signal_def decode_struct_def signal_fields_def string_field_def int64_field_def EqualFold_def ToLower_def
        char_lower_def)
  with assms(1) show ?thesis by (simp add: decodeSignal_def signal_publishing_def single_value_def)
qed

definition demo_text :: "json \<Rightarrow> byte list" where
  "demo_text v = (if v = Marshal_signal demo_signal then [7] else [])"

theorem signal_survives_queue_witness:
  "decodeSignal (\<lambda>_. ([Marshal_signal demo_signal], AtEOF))
     (pm_Body (signal_publishing demo_text 0 ExchangeName RoutingKey ''delivery.dispatch'' demo_signal)) = Some demo_signal"
  using signal_survives_queue [of "\<lambda>_. ([Marshal_signal demo_signal], AtEOF)" demo_text demo_signal] by (simp add: demo_signal_def)

section \<open>The receive loop\<close>

text \<open>\<open>Run\<close> as a state machine. \<open>rn_running\<close> holds the messages whose goroutine has not ended, \<open>rn_failures\<close> the
  channel of capacity one, \<open>rn_result\<close> what the loop returned. A goroutine handles its message in one
  step of this machine: what other goroutines and processes do to the store and the limiter between its
  calls is the interference of the Worker's world. A panic in a goroutine ends the process. After the loop
  has returned, the deferred function cancels the context and waits for the goroutines, so \<open>Run\<close>
  has returned when no goroutine is left.\<close>

datatype run_error = RunContext | RunFailed consume_error | RunClosed

record 's run_state =
  rn_running :: "amqp_message list"
  rn_failures :: "consume_error option"
  rn_cancelled :: bool
  rn_result :: "run_error option"
  rn_crashed :: bool
  rn_received :: "amqp_message list"
  rn_handled :: "amqp_message list"
  rn_world :: 's

definition run_start :: "'s \<Rightarrow> 's run_state" where
  "run_start s = \<lparr>rn_running = [], rn_failures = None, rn_cancelled = False, rn_result = None, rn_crashed = False,
     rn_received = [], rn_handled = [], rn_world = s\<rparr>"

text \<open>The end of a goroutine: its error goes to the failure channel if that is empty, and cancels the others.\<close>

definition goroutine_end :: "consume_error option \<Rightarrow> 's run_state \<Rightarrow> 's run_state" where
  "goroutine_end err st =
     (case (err, rn_failures st) of
        (Some e, None) \<Rightarrow> st\<lparr>rn_failures := Some e, rn_cancelled := True\<rparr>
      | _ \<Rightarrow> st)"

inductive run_step :: "(byte list \<Rightarrow> json_stream) \<Rightarrow> 's RabbitConsumer \<Rightarrow> 's run_state \<Rightarrow> 's run_state \<Rightarrow> bool"
  for json_values consumer where
  run_context: "rn_result st = None \<Longrightarrow> \<not> rn_crashed st \<Longrightarrow>
    run_step json_values consumer st (st\<lparr>rn_result := Some RunContext, rn_cancelled := True\<rparr>)"
| run_failure: "rn_result st = None \<Longrightarrow> \<not> rn_crashed st \<Longrightarrow> rn_failures st = Some e \<Longrightarrow>
    run_step json_values consumer st (st\<lparr>rn_result := Some (RunFailed e), rn_failures := None, rn_cancelled := True\<rparr>)"
| run_closed: "rn_result st = None \<Longrightarrow> \<not> rn_crashed st \<Longrightarrow>
    run_step json_values consumer st (st\<lparr>rn_result := Some RunClosed, rn_cancelled := True\<rparr>)"
| run_receive: "rn_result st = None \<Longrightarrow> \<not> rn_crashed st \<Longrightarrow>
    run_step json_values consumer st (st\<lparr>rn_running := rn_running st @ [message], rn_received := rn_received st @ [message]\<rparr>)"
| run_handled: "\<not> rn_crashed st \<Longrightarrow> message \<in> set (rn_running st) \<Longrightarrow>
    processMessage json_values consumer message (rn_world st) = (Handled err, s') \<Longrightarrow>
    run_step json_values consumer st (goroutine_end err (st\<lparr>rn_running := remove1 message (rn_running st),
      rn_handled := rn_handled st @ [message], rn_world := s'\<rparr>))"
| run_crash: "\<not> rn_crashed st \<Longrightarrow> message \<in> set (rn_running st) \<Longrightarrow>
    processMessage json_values consumer message (rn_world st) = (Crashed, s') \<Longrightarrow>
    run_step json_values consumer st (st\<lparr>rn_crashed := True, rn_world := s'\<rparr>)"

inductive run_reaches :: "(byte list \<Rightarrow> json_stream) \<Rightarrow> 's RabbitConsumer \<Rightarrow> 's \<Rightarrow> 's run_state \<Rightarrow> bool"
  for json_values consumer s where
  run_init: "run_reaches json_values consumer s (run_start s)"
| run_next: "run_reaches json_values consumer s st \<Longrightarrow> run_step json_values consumer st st' \<Longrightarrow> run_reaches json_values consumer s st'"

definition Run_returned :: "'s run_state \<Rightarrow> run_error \<Rightarrow> bool" where
  "Run_returned st err \<longleftrightarrow> rn_result st = Some err \<and> rn_running st = [] \<and> \<not> rn_crashed st"

text \<open>How one message may be settled.\<close>

definition settles :: "(byte list \<Rightarrow> json_stream) \<Rightarrow> amqp_message \<Rightarrow> settlement list \<Rightarrow> bool" where
  "settles json_values message entries \<longleftrightarrow>
     (case decodeSignal json_values (mg_Body message) of
        None \<Rightarrow> entries = [Nacked (mg_Tag message) False]
      | Some signal \<Rightarrow>
          if Validate signal \<noteq> None then entries = [Nacked (mg_Tag message) False]
          else entries \<in> {[Nacked (mg_Tag message) True], [Deferred signal, Acked (mg_Tag message)], [Acked (mg_Tag message)]})"

context consumer_world
begin

lemma handled_settles:
  assumes "processMessage json_values consumer message s = (Handled err, s')"
  shows "\<exists>entries. log s' = log s @ entries \<and> settles json_values message entries"
  using message_settlement [OF assms] by (auto simp: settles_def split: option.splits if_splits)

lemma run_reaches_settled:
  "run_reaches json_values consumer s st \<Longrightarrow> \<not> rn_crashed st \<Longrightarrow>
   mset (rn_received st) = mset (rn_handled st) + mset (rn_running st) \<and>
   (\<exists>entries. log (rn_world st) = log s @ concat entries \<and> list_all2 (settles json_values) (rn_handled st) entries)"
proof (induction rule: run_reaches.induct)
  case run_init
  then show ?case by (auto simp: run_start_def intro!: exI [of _ "[]"])
next
  case (run_next st st')
  from run_next(2) show ?case
  proof (cases rule: run_step.cases)
    case (run_handled message err s')
    with run_next(3) obtain entries where e: "mset (rn_received st) = mset (rn_handled st) + mset (rn_running st)"
      "log (rn_world st) = log s @ concat entries" "list_all2 (settles json_values) (rn_handled st) entries" by auto
    obtain entry where "log s' = log (rn_world st) @ entry" "settles json_values message entry"
      using handled_settles [OF run_handled(4)] by blast
    with e have "log s' = log s @ concat (entries @ [entry])"
      "list_all2 (settles json_values) (rn_handled st @ [message]) (entries @ [entry])" by (simp_all add: list_all2_appendI)
    moreover have "mset (rn_received st) = mset (rn_handled st @ [message]) + mset (remove1 message (rn_running st))"
      using e(1) run_handled(3) by (simp add: insert_DiffM)
    ultimately show ?thesis
      unfolding run_handled(1) by (auto simp: goroutine_end_def split: option.splits intro!: exI [of _ "entries @ [entry]"])
  qed (use run_next(3,4) in auto)
qed

end

text \<open>C31. The consumer stops cleanly: whatever happens, the messages received by \<open>Run\<close> are those settled plus those
  still in work, each settled one settled exactly once; so when \<open>Run\<close> has returned, for whatever reason, every
  message it received has been settled and none is in work.\<close>

theorem run_settles_received:
  assumes "run_reaches json_values (world_consumer ParseTime owner lease) s st" "\<not> rn_crashed st"
  shows "mset (rn_received st) = mset (rn_handled st) + mset (rn_running st) \<and>
    (\<exists>entries. cs_log (rn_world st) = cs_log s @ concat entries \<and> list_all2 (settles json_values) (rn_handled st) entries) \<and>
    (Run_returned st err \<longrightarrow> mset (rn_handled st) = mset (rn_received st))"
  using wc.run_reaches_settled [OF assms] by (auto simp: Run_returned_def)

lemma demo_run:
  defines "m \<equiv> \<lparr>mg_Tag = 5, mg_Body = []\<rparr>" and "s' \<equiv> snd (processMessage demo_stream (world_consumer (\<lambda>_. None) ''w'' Second) \<lparr>mg_Tag = 5, mg_Body = []\<rparr> demo_state)"
  shows "run_reaches demo_stream (world_consumer (\<lambda>_. None) ''w'' Second) demo_state
     (run_start s'\<lparr>rn_received := [m], rn_handled := [m], rn_result := Some RunClosed, rn_cancelled := True\<rparr>)"
proof -
  let ?step = "run_step demo_stream (world_consumer (\<lambda>_. None) ''w'' Second)"
  have p: "processMessage demo_stream (world_consumer (\<lambda>_. None) ''w'' Second) m demo_state = (Handled None, s')"
    unfolding m_def s'_def prod_eq_iff fst_conv snd_conv by (intro conjI refl) code_simp
  have 1: "?step (run_start demo_state) (run_start demo_state\<lparr>rn_running := [m], rn_received := [m]\<rparr>)"
    using run_receive [of "run_start demo_state"] by (simp add: run_start_def)
  have 2: "?step (run_start demo_state\<lparr>rn_running := [m], rn_received := [m]\<rparr>) (run_start s'\<lparr>rn_received := [m], rn_handled := [m]\<rparr>)"
    using run_handled [where st = "run_start demo_state\<lparr>rn_running := [m], rn_received := [m]\<rparr>" and message = m
      and json_values = demo_stream and consumer = "world_consumer (\<lambda>_. None) ''w'' Second" and err = None and s' = s'] p
    by (simp add: run_start_def goroutine_end_def)
  have 3: "?step (run_start s'\<lparr>rn_received := [m], rn_handled := [m]\<rparr>)
      (run_start s'\<lparr>rn_received := [m], rn_handled := [m], rn_result := Some RunClosed, rn_cancelled := True\<rparr>)"
    using run_closed [of "run_start s'\<lparr>rn_received := [m], rn_handled := [m]\<rparr>"] by (simp add: run_start_def)
  from run_next [OF run_next [OF run_next [OF run_init 1] 2] 3] show ?thesis .
qed

theorem run_settles_received_witness:
  "\<exists>(st :: consumer_state run_state) entry. Run_returned st RunClosed \<and> length (rn_received st) = 1 \<and> mset (rn_handled st) = mset (rn_received st) \<and>
     cs_log (rn_world st) = entry \<and> settles demo_stream \<lparr>mg_Tag = 5, mg_Body = []\<rparr> entry"
proof -
  let ?s' = "snd (processMessage demo_stream (world_consumer (\<lambda>_. None) ''w'' Second) \<lparr>mg_Tag = 5, mg_Body = []\<rparr> demo_state)"
  let ?m = "\<lparr>mg_Tag = 5, mg_Body = []\<rparr>"
  let ?st = "run_start ?s'\<lparr>rn_received := [?m], rn_handled := [?m], rn_result := Some RunClosed, rn_cancelled := True\<rparr>"
  define st where "st = ?st"
  have st: "rn_received st = [?m]" "rn_handled st = [?m]" "\<not> rn_crashed st" "Run_returned st RunClosed"
    by (simp_all add: st_def run_start_def Run_returned_def)
  have "run_reaches demo_stream (world_consumer (\<lambda>_. None) ''w'' Second) demo_state st" unfolding st_def by (rule demo_run)
  note settled = run_settles_received [OF this st(3), of RunClosed]
  then obtain entry where "cs_log (rn_world st) = cs_log demo_state @ entry" "settles demo_stream ?m entry"
    unfolding st by (auto simp: list_all2_Cons1)
  with st settled show ?thesis by (intro exI [of _ st] exI [of _ entry]) (simp add: demo_state_def)
qed

end
