(* ===== verification/Replay.thy ===== *)
theory Replay
  imports Worker_Store
begin

text \<open>
  Audited operator replay, \<open>Replay\<close> of \<open>internal/delivery/replay.go\<close>: the delivery becomes pending
  in the next generation, an audit row and an Outbox event are written, all in one transaction.
  The timestamp the transaction reads first is used throughout.
\<close>

section \<open>Operation\<close>

definition replay_row :: "instant \<Rightarrow> delivery_row \<Rightarrow> delivery_row" where
  "replay_row replayedAt r =
     r\<lparr>d_status := StatusPending, d_generation := d_generation r + 1, d_next_attempt_at := replayedAt,
       d_retry_deadline := replayedAt + 24 * Hour, d_lease_owner := None, d_lease_token := None,
       d_lease_until := None, d_updated_at := replayedAt\<rparr>"

definition replay_audit :: "string \<Rightarrow> instant \<Rightarrow> string \<Rightarrow> string \<Rightarrow> delivery_row \<Rightarrow> audit_row" where
  "replay_audit auditID replayedAt operatorID reason r =
     \<lparr>r_id = auditID, r_delivery_id = d_id r, r_from_generation = d_generation r,
      r_to_generation = d_generation r + 1, r_operator_id = operatorID, r_reason = reason,
      r_replayed_at = replayedAt\<rparr>"

definition replayable :: "string \<Rightarrow> delivery_row \<Rightarrow> bool" where
  "replayable i r \<longleftrightarrow> d_id r = i \<and> d_status r = StatusFailedPermanent"

text \<open>The transaction after the update found the row: the audit, the event, the commit.\<close>

definition replay_tx ::
  "env \<Rightarrow> db \<Rightarrow> string \<Rightarrow> string \<Rightarrow> string \<Rightarrow> string \<Rightarrow> string \<Rightarrow> delivery_row \<Rightarrow> (store_error + Delivery) \<times> db" where
  "replay_tx E db auditID outboxID traceID operatorID reason r =
     (let replayedAt = clock_timestamp E; replayed = replay_row replayedAt r;
          db1 = db\<lparr>deliveries := update_where (replayable (d_id r)) (replay_row replayedAt) (deliveries db)\<rparr>
      in if stmt_fails E ''record replay audit'' then (Inl (ErrDb ''record replay audit''), db)
         else case insert_audit db1 (replay_audit auditID replayedAt operatorID reason r) of
           None \<Rightarrow> (Inl (ErrDb ''record replay audit''), db)
         | Some db2 \<Rightarrow>
             if stmt_fails E ''record replay Outbox'' then (Inl (ErrDb ''record replay Outbox''), db)
             else case insert_event db2 (new_event outboxID (d_id replayed) (d_generation replayed) traceID
                         replayedAt (clock_timestamp E)) of
               None \<Rightarrow> (Inl (ErrDb ''record replay Outbox''), db)
             | Some db3 \<Rightarrow> commit E ''commit replay'' db db3 (delivery_of_row replayed))"

definition Replay :: "env \<Rightarrow> db \<Rightarrow> string \<Rightarrow> string \<Rightarrow> string \<Rightarrow> (store_error + Delivery) \<times> db" where
  "Replay E db deliveryID operatorID reason =
     (case newUUID (rand_read E 0) of Inl e \<Rightarrow> (Inl e, db) | Inr auditID \<Rightarrow>
      case newUUID (rand_read E 1) of Inl e \<Rightarrow> (Inl e, db) | Inr outboxID \<Rightarrow>
      case newUUID (rand_read E 2) of Inl e \<Rightarrow> (Inl e, db) | Inr traceID \<Rightarrow>
      if stmt_fails E ''begin replay'' then (Inl (ErrDb ''begin replay''), db)
      else if stmt_fails E ''read replay timestamp'' then (Inl (ErrDb ''read replay timestamp''), db)
      else case uuid_in E deliveryID of
        None \<Rightarrow> (Inl (ErrDb ''transition replay delivery''), db)
      | Some i \<Rightarrow>
          if stmt_fails E ''transition replay delivery'' then (Inl (ErrDb ''transition replay delivery''), db)
          else case find (replayable i) (deliveries db) of
            None \<Rightarrow>
              if stmt_fails E ''check replay target'' then (Inl (ErrDb ''check replay target''), db)
              else if \<not> has_delivery db i then (Inl ErrNotFound, db)
              else (Inl ErrReplayConflict, db)
          | Some r \<Rightarrow> replay_tx E db auditID outboxID traceID operatorID reason r)"

section \<open>Replay keeps the invariant\<close>

lemma replay_row_legal: "db_inv db \<Longrightarrow> legal_update (replayable i) (replay_row t) db"
  by (erule legal_updateI) (simp add: replayable_def replay_row_def row_step_defs)

lemma replay_row_simps [simp]:
  "d_id (replay_row t r) = d_id r" "d_generation (replay_row t r) = d_generation r + 1"
  "d_status (replay_row t r) = StatusPending"
  by (simp_all add: replay_row_def)

lemma replay_audit_simps [simp]:
  "r_delivery_id (replay_audit i t op reason r) = d_id r" "r_to_generation (replay_audit i t op reason r) = d_generation r + 1"
  "r_from_generation (replay_audit i t op reason r) = d_generation r" "r_operator_id (replay_audit i t op reason r) = op"
  "r_reason (replay_audit i t op reason r) = reason" "r_id (replay_audit i t op reason r) = i"
  by (simp_all add: replay_audit_def)

lemma replayed_row:
  assumes "db_inv db" "r \<in> set (deliveries db)" "replayable (d_id r) r"
    "x \<in> set (update_where (replayable (d_id r)) (replay_row t) (deliveries db))" "d_id x = d_id r"
  shows "x = replay_row t r"
  by (rule updated_row_unique [OF assms(1-3) _ assms(4,5)]) simp

lemma good_step_replay:
  assumes inv: "db_inv db" and r: "r \<in> set (deliveries db)" "replayable (d_id r) r"
    and aud: "insert_audit (db\<lparr>deliveries := update_where (replayable (d_id r)) (replay_row t) (deliveries db)\<rparr>)
      (replay_audit i t op reason r) = Some db2"
    and ev: "insert_event db2 (new_event j (d_id r) (d_generation r + 1) tr t c) = Some db3"
  shows "good_step db db3"
proof -
  let ?db1 = "db\<lparr>deliveries := update_where (replayable (d_id r)) (replay_row t) (deliveries db)\<rparr>"
  note legal = replay_row_legal [OF inv, of "d_id r" t]
  note db2 = insert_audit_Some [OF aud] and db3 = insert_event_Some [OF ev]
  have one: "schema_ok ?db1" "protocol_ok ?db1"
    using inv legal by (auto simp: db_inv_def schema_ok_update_deliveries protocol_ok_update_deliveries)
  have gen: "d_generation x = d_generation r + 1" if "x \<in> set (deliveries ?db1)" "d_id x = d_id r" for x
    using replayed_row [OF inv r, of x t] that by simp
  have "protocol_ok db2" by (rule protocol_ok_insert_audit [OF one(2) aud]) (use gen in auto)
  then have "protocol_ok db3" using ev by (rule protocol_ok_insert_event) (use gen in \<open>auto simp: db2\<close>)
  moreover have "schema_ok db3"
    using schema_ok_insert_event [OF schema_ok_insert_audit [OF one(1) aud] ev] .
  moreover have "success_recorded ?db1"
    using inv by (intro success_recorded_update_deliveries [OF _ legal]) (auto simp: db_inv_def)
  then have "success_recorded db3" by (rule success_recorded_mono) (simp_all add: db3 db2)
  moreover have "db_evolves db db3" by (rule db_evolves_update [OF legal]) (simp_all add: db3 db2)
  ultimately show ?thesis by (simp add: good_step_def db_inv_def)
qed

lemma Replay_good: "db_inv db \<Longrightarrow> good_step db (snd (Replay E db i op reason))"
proof -
  assume inv: "db_inv db"
  have "good_step db (snd (replay_tx E db a b c op reason r))" if "find (replayable j) (deliveries db) = Some r" for a b c j r
  proof -
    from find_SomeD [OF that] have "r \<in> set (deliveries db)" "replayable (d_id r) r" by (auto simp: replayable_def)
    note step = good_step_replay [OF inv this]
    show ?thesis unfolding replay_tx_def Let_def
      by (auto simp: inv good_step_refl split: option.split intro!: good_step_commit intro: step)
  qed
  then show ?thesis unfolding Replay_def
    by (auto simp: inv good_step_refl split: sum.split option.split)
qed

interpretation replay: store_operation "\<lambda>E (i, op, reason) db. Replay E db i op reason"
  by unfold_locales (auto simp: Replay_good)

section \<open>What a replay does\<close>

lemma Replay_Inr:
  assumes "Replay E db deliveryID op reason = (Inr d, db')"
  obtains r a j tr where "r \<in> set (deliveries db)" "replayable (d_id r) r" "uuid_in E deliveryID = Some (d_id r)"
    "d = delivery_of_row (replay_row (clock_timestamp E) r)"
    "db' = db\<lparr>deliveries := update_where (replayable (d_id r)) (replay_row (clock_timestamp E)) (deliveries db),
       replay_audits := replay_audits db @ [replay_audit a (clock_timestamp E) op reason r],
       outbox_events := outbox_events db @ [new_event j (d_id r) (d_generation r + 1) tr (clock_timestamp E) (clock_timestamp E)]\<rparr>"
proof -
  from assms obtain a j tr i r where u: "uuid_in E deliveryID = Some i" and f: "find (replayable i) (deliveries db) = Some r"
    and tx: "replay_tx E db a j tr op reason r = (Inr d, db')"
    unfolding Replay_def by (auto split: sum.splits option.splits if_splits)
  from find_SomeD [OF f] have r: "r \<in> set (deliveries db)" "replayable (d_id r) r" "i = d_id r" by (auto simp: replayable_def)
  let ?db1 = "db\<lparr>deliveries := update_where (replayable (d_id r)) (replay_row (clock_timestamp E)) (deliveries db)\<rparr>"
  from tx obtain db2 db3 where ins: "insert_audit ?db1 (replay_audit a (clock_timestamp E) op reason r) = Some db2"
      "insert_event db2 (new_event j (d_id r) (d_generation r + 1) tr (clock_timestamp E) (clock_timestamp E)) = Some db3"
    and c: "commit E ''commit replay'' db db3 (delivery_of_row (replay_row (clock_timestamp E) r)) = (Inr d, db')"
    unfolding replay_tx_def Let_def guard_Inr by auto
  from c have "d = delivery_of_row (replay_row (clock_timestamp E) r)" "db' = db3"
    by (auto simp: commit_def split: if_splits)
  moreover have "db3 = db\<lparr>deliveries := update_where (replayable (d_id r)) (replay_row (clock_timestamp E)) (deliveries db),
       replay_audits := replay_audits db @ [replay_audit a (clock_timestamp E) op reason r],
       outbox_events := outbox_events db @ [new_event j (d_id r) (d_generation r + 1) tr (clock_timestamp E) (clock_timestamp E)]\<rparr>"
    using insert_audit_Some [OF ins(1)] insert_event_Some [OF ins(2)] by simp
  ultimately show thesis using that u r by auto
qed

text \<open>C16. A replay changes one permanently failed delivery: it is pending again in the next generation,
  with a fresh 24 hour deadline, the same request, destination version and supplier idempotency value,
  one audit row naming the operator and both generations, and one unpublished event for the new
  generation. A second replay of the same delivery is then a conflict and changes nothing.\<close>

theorem replay_preserves_identity:
  assumes "db_inv db" "Replay E db deliveryID op reason = (Inr d, db')"
  shows "\<exists>r\<in>set (deliveries db). \<exists>r' x e. d_status r = StatusFailedPermanent \<and> same_identity r r' \<and> d = delivery_of_row r' \<and>
      d_status r' = StatusPending \<and> d_generation r' = d_generation r + 1 \<and> d_retry_deadline r' = clock_timestamp E + 24 * Hour \<and>
      set (deliveries db') = insert r' (set (deliveries db) - {r}) \<and>
      replay_audits db' = replay_audits db @ [x] \<and> r_operator_id x = op \<and> r_reason x = reason \<and> r_delivery_id x = d_id r \<and>
      r_from_generation x = d_generation r \<and> r_to_generation x = d_generation r' \<and>
      outbox_events db' = outbox_events db @ [e] \<and> event_key e = (d_id r', d_generation r') \<and> o_published_at e = None \<and>
      (\<forall>E2 op2 reason2. fault_free E2 \<and> uuid_in E2 deliveryID = uuid_in E deliveryID \<and> (\<forall>n. rand_read E2 n \<noteq> None) \<longrightarrow>
         Replay E2 db' deliveryID op2 reason2 = (Inl ErrReplayConflict, db'))"
proof -
  from assms(2) obtain r a j tr where r: "r \<in> set (deliveries db)" "replayable (d_id r) r" "uuid_in E deliveryID = Some (d_id r)"
    "d = delivery_of_row (replay_row (clock_timestamp E) r)"
    and db': "db' = db\<lparr>deliveries := update_where (replayable (d_id r)) (replay_row (clock_timestamp E)) (deliveries db),
       replay_audits := replay_audits db @ [replay_audit a (clock_timestamp E) op reason r],
       outbox_events := outbox_events db @ [new_event j (d_id r) (d_generation r + 1) tr (clock_timestamp E) (clock_timestamp E)]\<rparr>"
    by (rule Replay_Inr)
  let ?r' = "replay_row (clock_timestamp E) r"
  have only: "replayable (d_id r) x \<longleftrightarrow> x = r" if "x \<in> set (deliveries db)" for x
    using delivery_row_unique [OF assms(1) that r(1)] r(2) by (auto simp: replayable_def)
  have rows: "set (deliveries db') = insert ?r' (set (deliveries db) - {r})"
    unfolding db' using r(1) only by (auto simp: set_update_where)
  have "find (replayable (d_id r)) (deliveries db') = None"
    unfolding find_None_iff using rows only by (auto simp: replayable_def)
  moreover have "has_delivery db' (d_id r)" unfolding has_delivery_def rows by simp
  ultimately have again: "Replay E2 db' deliveryID op2 reason2 = (Inl ErrReplayConflict, db')"
    if "fault_free E2" "uuid_in E2 deliveryID = uuid_in E deliveryID" "\<forall>n. rand_read E2 n \<noteq> None" for E2 op2 reason2
  proof -
    have "\<exists>u. newUUID (rand_read E2 n) = Inr u" for n using that(3) by (auto simp: newUUID_def Let_def split: option.split)
    then obtain u where "\<And>n. newUUID (rand_read E2 n) = Inr (u n)" by metis
    then show ?thesis
      using that r(3) \<open>find _ _ = None\<close> \<open>has_delivery db' _\<close> by (simp add: Replay_def)
  qed
  have "same_identity r ?r'" "d_retry_deadline ?r' = clock_timestamp E + 24 * Hour"
    by (simp_all add: same_identity_def replay_row_def)
  moreover have "d_status r = StatusFailedPermanent" using r(2) by (simp add: replayable_def)
  ultimately show ?thesis
    using rows again r(4)
    by (intro bexI [OF _ r(1)] exI [of _ ?r'] exI [of _ "replay_audit a (clock_timestamp E) op reason r"]
        exI [of _ "new_event j (d_id r) (d_generation r + 1) tr (clock_timestamp E) (clock_timestamp E)"])
      (simp add: db')
qed

lemma demo_replay: "Replay (quiet_env 50) demo_db ''f'' ''op'' ''fixed'' =
    (Inr (delivery_of_row (replay_row 50 (demo_delivery ''f'' ''kf'' StatusFailedPermanent 0))),
     snd (Replay (quiet_env 50) demo_db ''f'' ''op'' ''fixed''))"
  by code_simp

theorem replay_preserves_identity_witness:
  "Replay (quiet_env 60) (snd (Replay (quiet_env 50) demo_db ''f'' ''op'' ''fixed'')) ''f'' ''op'' ''again'' =
     (Inl ErrReplayConflict, snd (Replay (quiet_env 50) demo_db ''f'' ''op'' ''fixed''))"
proof -
  have "fault_free (quiet_env 60) \<and> uuid_in (quiet_env 60) ''f'' = uuid_in (quiet_env 50) ''f'' \<and>
    (\<forall>n. rand_read (quiet_env 60) n \<noteq> None)" by (simp add: quiet_env_def fault_free_def)
  then show ?thesis using replay_preserves_identity [OF demo_db_inv demo_replay] by blast
qed

text \<open>Replay never runs into its own uniqueness constraints: on a permanently failed delivery of a
  reachable database, with a known operator, a reason of 1 to 1000 characters and unused random
  identifiers, it succeeds; for any other known delivery it answers a conflict, for an unknown one not
  found.\<close>

theorem replay_total:
  assumes "db_inv db" "fault_free E" "uuid_in E deliveryID = Some i" "op \<in> c_id ` set (callers db)"
    and "1 \<le> sql_length reason" "sql_length reason \<le> 1000"
    and "newUUID (rand_read E 0) = Inr a" "a \<notin> r_id ` set (replay_audits db)"
    and "newUUID (rand_read E 1) = Inr j" "j \<notin> o_id ` set (outbox_events db)" "newUUID (rand_read E 2) = Inr tr"
  shows "(case find (\<lambda>r. d_id r = i) (deliveries db) of
      None \<Rightarrow> Replay E db deliveryID op reason = (Inl ErrNotFound, db)
    | Some r \<Rightarrow> if d_status r = StatusFailedPermanent
        then \<exists>db'. Replay E db deliveryID op reason = (Inr (delivery_of_row (replay_row (clock_timestamp E) r)), db')
        else Replay E db deliveryID op reason = (Inl ErrReplayConflict, db))"
proof (cases "find (\<lambda>r. d_id r = i) (deliveries db)")
  case None
  then have "find (replayable i) (deliveries db) = None" "\<not> has_delivery db i"
    by (auto simp: find_None_iff replayable_def has_delivery_def)
  with None assms show ?thesis by (simp add: Replay_def)
next
  case (Some r)
  from find_SomeD [OF Some] have r: "r \<in> set (deliveries db)" "d_id r = i" by auto
  have has: "has_delivery db i" using r by (auto simp: has_delivery_def)
  show ?thesis
  proof (cases "d_status r = StatusFailedPermanent")
    case False
    have "find (replayable i) (deliveries db) = None"
      using delivery_row_unique [OF assms(1) _ r(1)] r(2) False by (auto simp: find_None_iff replayable_def)
    with False Some has assms show ?thesis by (simp add: Replay_def)
  next
    case True
    have f: "find (replayable i) (deliveries db) = Some r"
      by (rule find_unique [where key = d_id]) (use assms(1) r True in \<open>auto simp: replayable_def db_inv_def schema_ok_def deliveries_ok_def\<close>)
    let ?db1 = "db\<lparr>deliveries := update_where (replayable (d_id r)) (replay_row (clock_timestamp E)) (deliveries db)\<rparr>"
    have has1: "has_delivery ?db1 (d_id r)"
      unfolding has_delivery_legal_update [OF replay_row_legal [OF assms(1)]] using has r(2) by simp
    have ahead: "(d_id r, d_generation r + 1) \<notin> (\<lambda>x. (r_delivery_id x, r_to_generation x)) ` set (replay_audits db)"
      "(d_id r, d_generation r + 1) \<notin> event_key ` set (outbox_events db)"
      using assms(1) r(1) by (fastforce simp: db_inv_def protocol_ok_def audits_not_ahead_def events_not_ahead_def)+
    have "0 \<le> d_generation r" using delivery_checkD [OF assms(1) r(1)] by (simp add: delivery_check_def)
    with has1 ahead assms(4-6,8) have "insert_audit ?db1 (replay_audit a (clock_timestamp E) op reason r) =
        Some (?db1\<lparr>replay_audits := replay_audits db @ [replay_audit a (clock_timestamp E) op reason r]\<rparr>)"
      by (simp add: insert_audit_def audit_check_def)
    moreover have "\<exists>db3. insert_event (?db1\<lparr>replay_audits := replay_audits db @ [replay_audit a (clock_timestamp E) op reason r]\<rparr>)
        (new_event j (d_id r) (d_generation r + 1) tr (clock_timestamp E) (clock_timestamp E)) = Some db3"
      using has1 ahead(2) assms(10) \<open>0 \<le> d_generation r\<close> by (simp add: insert_event_def outbox_check_def new_event_def)
    ultimately have "\<exists>db'. replay_tx E db a j tr op reason r = (Inr (delivery_of_row (replay_row (clock_timestamp E) r)), db')"
      using assms(2) by (auto simp: replay_tx_def Let_def)
    with True Some f assms(2,3,7,9,11) show ?thesis by (simp add: Replay_def)
  qed
qed

theorem replay_total_witness: "Replay (quiet_env 50) demo_db ''p'' ''op'' ''fixed'' = (Inl ErrReplayConflict, demo_db)"
proof -
  have f: "find (\<lambda>r. d_id r = ''p'') (deliveries demo_db) = Some (demo_delivery ''p'' ''kp'' StatusPending 0)" by code_simp
  have "uuid_in (quiet_env 50) ''p'' = Some ''p''" by (simp add: quiet_env_def)
  moreover have "''op'' \<in> c_id ` set (callers demo_db)" "1 \<le> sql_length ''fixed''" "sql_length ''fixed'' \<le> 1000"
    "newUUID (rand_read (quiet_env 50) 0) = Inr ''00000000-0000-4000-8000-000000000000''"
    "''00000000-0000-4000-8000-000000000000'' \<notin> r_id ` set (replay_audits demo_db)"
    "newUUID (rand_read (quiet_env 50) 1) = Inr ''00000000-0000-4000-8000-000000000001''"
    "''00000000-0000-4000-8000-000000000001'' \<notin> o_id ` set (outbox_events demo_db)"
    "newUUID (rand_read (quiet_env 50) 2) = Inr ''00000000-0000-4000-8000-000000000002''" by code_simp+
  ultimately show ?thesis using replay_total [OF demo_db_inv fault_free_quiet] f by (fastforce simp: demo_delivery_def)
qed

end
