(* ===== verification/Http_Api.thy ===== *)
theory Http_Api
  imports Replay Outbound Go_Json
begin

text \<open>
  The HTTP API (\<open>internal/delivery/http.go\<close>, \<open>submission_metrics.go\<close>): authentication, the three
  handlers, the checks of a submission and the submission counters. A handler runs on a world that
  holds the shared database, with an environment per store call and the effect of other processes before
  it, and logs the store calls that matter; it returns the response. SHA-256 and the syntax of JSON are
  parameters.
\<close>

section \<open>Requests and responses\<close>

definition maxDeliveryPayloadBytes :: nat where "maxDeliveryPayloadBytes = 256 * 1024"
definition maxSubmissionJSONBytes :: nat where "maxSubmissionJSONBytes = 512 * 1024"
definition statusAttemptLimit :: int where "statusAttemptLimit = 20"

record http_request =
  hq_Header :: http_header
  hq_Body :: "byte list"
  hq_PathID :: string

record attemptSummaryResponse =
  asr_Generation :: int
  asr_ResultClass :: result_class
  asr_ResponseStatus :: "int option"
  asr_ErrorCategory :: "string option"
  asr_StartedAt :: instant
  asr_FinishedAt :: instant

record deliveryResponse =
  dr_ID :: string
  dr_Status :: status
  dr_DestinationID :: string
  dr_DestinationVersion :: int
  dr_Generation :: int
  dr_AcceptedAt :: instant
  dr_NextAttemptAt :: instant
  dr_RetryDeadline :: instant
  dr_Attempts :: "attemptSummaryResponse list option"

datatype response_body = ErrorBody string string | DeliveryBody deliveryResponse

record http_response =
  rp_Status :: int
  rp_RetryAfter :: "string option"
  rp_Body :: response_body

definition writeError :: "int \<Rightarrow> string \<Rightarrow> string \<Rightarrow> http_response" where
  "writeError status code message = \<lparr>rp_Status = status, rp_RetryAfter = None, rp_Body = ErrorBody code message\<rparr>"

definition writeJSON :: "int \<Rightarrow> deliveryResponse \<Rightarrow> http_response" where
  "writeJSON status payload = \<lparr>rp_Status = status, rp_RetryAfter = None, rp_Body = DeliveryBody payload\<rparr>"

definition internalError :: http_response where
  "internalError = writeError 503 ''service_unavailable'' ''service is temporarily unavailable''"

definition responseFromDelivery :: "Delivery \<Rightarrow> deliveryResponse" where
  "responseFromDelivery delivery =
     \<lparr>dr_ID = dl_ID delivery, dr_Status = dl_Status delivery, dr_DestinationID = dl_DestinationID delivery,
      dr_DestinationVersion = dl_DestinationVersion delivery, dr_Generation = dl_Generation delivery,
      dr_AcceptedAt = dl_AcceptedAt delivery, dr_NextAttemptAt = dl_NextAttemptAt delivery,
      dr_RetryDeadline = dl_RetryDeadline delivery, dr_Attempts = None\<rparr>"

definition summary_response :: "AttemptSummary \<Rightarrow> attemptSummaryResponse" where
  "summary_response attempt =
     \<lparr>asr_Generation = as_Generation attempt, asr_ResultClass = as_ResultClass attempt,
      asr_ResponseStatus = as_ResponseStatus attempt, asr_ErrorCategory = as_ErrorCategory attempt,
      asr_StartedAt = as_StartedAt attempt, asr_FinishedAt = as_FinishedAt attempt\<rparr>"

section \<open>Checks of a submission\<close>

text \<open>\<open>base64.StdEncoding.DecodeString\<close>: line breaks are skipped, padding is required.\<close>

definition b64_value :: "char \<Rightarrow> nat option" where
  "b64_value c =
     (let n = (of_char c :: nat) in
      if 65 \<le> n \<and> n \<le> 90 then Some (n - 65)
      else if 97 \<le> n \<and> n \<le> 122 then Some (n - 71)
      else if 48 \<le> n \<and> n \<le> 57 then Some (n + 4)
      else if n = 43 then Some 62 else if n = 47 then Some 63 else None)"

fun b64_quads :: "string \<Rightarrow> byte list option" where
  "b64_quads [] = Some []"
| "b64_quads (a # b # c # d # rest) =
     (case (b64_value a, b64_value b) of
        (Some x, Some y) \<Rightarrow>
          if c = CHR ''='' then
            (if d = CHR ''='' \<and> rest = [] then Some [of_nat (x * 4 + y div 16)] else None)
          else (case b64_value c of
             None \<Rightarrow> None
           | Some z \<Rightarrow>
               if d = CHR ''='' then
                 (if rest = [] then Some [of_nat (x * 4 + y div 16), of_nat (y mod 16 * 16 + z div 4)] else None)
               else (case (b64_value d, b64_quads rest) of
                  (Some u, Some others) \<Rightarrow>
                    Some (of_nat (x * 4 + y div 16) # of_nat (y mod 16 * 16 + z div 4) # of_nat (z mod 4 * 64 + u) # others)
                | _ \<Rightarrow> None))
      | _ \<Rightarrow> None)"
| "b64_quads _ = None"

definition DecodeString :: "string \<Rightarrow> byte list option" where
  "DecodeString s = b64_quads (filter (\<lambda>c. c \<noteq> CHR 0x0D \<and> c \<noteq> CHR 0x0A) s)"

record submissionRequest =
  si_DestinationID :: string
  si_Method :: string
  si_Headers :: "json option"
  si_BodyBase64 :: string

definition submission_fields :: "(string \<times> (json \<Rightarrow> submissionRequest \<Rightarrow> submissionRequest option)) list" where
  "submission_fields =
     [(''destination_id'', string_field (\<lambda>s x. x\<lparr>si_DestinationID := s\<rparr>)),
      (''method'', string_field (\<lambda>s x. x\<lparr>si_Method := s\<rparr>)),
      (''headers'', \<lambda>v x. Some (x\<lparr>si_Headers := Some v\<rparr>)),
      (''body_base64'', string_field (\<lambda>s x. x\<lparr>si_BodyBase64 := s\<rparr>))]"

text \<open>A body read through \<open>http.MaxBytesReader\<close>: beyond the limit the reader fails instead of ending, so that
  a scalar which reaches to the limit is never completed.\<close>

definition byte_space :: "byte \<Rightarrow> bool" where
  "byte_space b \<longleftrightarrow> b = 32 \<or> b = 9 \<or> b = 10 \<or> b = 13"

definition read_limited :: "nat \<Rightarrow> (byte list \<Rightarrow> json_stream) \<Rightarrow> byte list \<Rightarrow> json_stream" where
  "read_limited limit json_values body =
     (if length body \<le> limit then json_values body
      else case json_values (take limit body) of
        (vs, SyntaxError) \<Rightarrow> (vs, SyntaxError)
      | (vs, Incomplete) \<Rightarrow> (vs, OverLimit)
      | (vs, _) \<Rightarrow>
          (if vs \<noteq> [] \<and> open_ended (last vs) \<and> \<not> byte_space (last (take limit body)) then butlast vs else vs, OverLimit))"

text \<open>\<open>ensureJSONEOF\<close> and \<open>isRequestTooLarge\<close>, and with them the two calls on the decoder in \<open>submit\<close>.\<close>

definition ensureJSONEOF :: "json_stream \<Rightarrow> decode_error option" where
  "ensureJSONEOF decoder =
     (case Decode decoder of
        Inl e \<Rightarrow> if e = EOF then None else Some e
      | Inr _ \<Rightarrow> Some MultipleValues)"

definition isRequestTooLarge :: "decode_error \<Rightarrow> bool" where
  "isRequestTooLarge e \<longleftrightarrow> e = MaxBytesError"

definition decode_submission :: "json_stream \<Rightarrow> http_response + submissionRequest" where
  "decode_submission stream =
     (case Decode stream of
        Inl e \<Rightarrow>
          if isRequestTooLarge e then Inl (writeError 413 ''payload_too_large'' ''request exceeds size limit'')
          else Inl (writeError 400 ''invalid_request'' ''request body is invalid'')
      | Inr (v, rest) \<Rightarrow>
          (case decode_struct submission_fields \<lparr>si_DestinationID = [], si_Method = [], si_Headers = None, si_BodyBase64 = []\<rparr> v of
             None \<Rightarrow> Inl (writeError 400 ''invalid_request'' ''request body is invalid'')
           | Some input \<Rightarrow>
               if ensureJSONEOF rest \<noteq> None
               then Inl (writeError 400 ''invalid_request'' ''request body must contain one JSON value'')
               else Inr input))"

fun header_members :: "string list \<Rightarrow> (string, string) go_map \<Rightarrow> (string \<times> json) list \<Rightarrow> (string, string) go_map option" where
  "header_members seen headers [] = Some headers"
| "header_members seen headers ((name, v) # members) =
     (let canonical = ToLower (TrimSpace name) in
      if canonical \<in> set seen then None
      else case v of
        JStr val \<Rightarrow> header_members (canonical # seen) (headers @ [(name, val)]) members
      | JNull \<Rightarrow> header_members (canonical # seen) (headers @ [(name, [])]) members
      | _ \<Rightarrow> None)"

definition decodeCallerHeaders :: "json option \<Rightarrow> (string, string) go_map option" where
  "decodeCallerHeaders raw =
     (case raw of
        None \<Rightarrow> Some []
      | Some JNull \<Rightarrow> Some []
      | Some (JObj members) \<Rightarrow> header_members [] [] members
      | _ \<Rightarrow> None)"

definition payloadSize :: "(string, string) go_map \<Rightarrow> byte list \<Rightarrow> nat" where
  "payloadSize headers body = foldl (\<lambda>size (name, val). size + (length name + length val)) (length body) headers"

definition api_containsFold :: "string list \<Rightarrow> string \<Rightarrow> bool" where
  "api_containsFold values candidate \<longleftrightarrow> list_ex (\<lambda>v. EqualFold (TrimSpace v) candidate) values"

fun caller_headers_loop :: "string list \<Rightarrow> string list \<Rightarrow> (string, string) go_map \<Rightarrow> string option" where
  "caller_headers_loop protected allowed [] = None"
| "caller_headers_loop protected allowed ((name, val) # headers) =
     (if name \<in> set protected then Some ''caller attempted to set a protected Header''
      else if name \<notin> set allowed then Some ''caller Header is not allowlisted''
      else caller_headers_loop protected allowed headers)"

definition api_protected :: "DestinationVersion \<Rightarrow> string list" where
  "api_protected destination =
     [''authorization'', ''proxy-authorization'', ''host'', ''connection'', ''keep-alive'', ''proxy-authenticate'',
      ''te'', ''trailer'', ''transfer-encoding'', ''upgrade'', ''cookie'', ''set-cookie'', ''content-length'',
      ToLower (dv_IdempotencyHeader destination), ToLower (dv_CredentialHeader destination)]"

definition validateCallerHeaders :: "(string, string) go_map \<Rightarrow> DestinationVersion \<Rightarrow> string option" where
  "validateCallerHeaders headers destination =
     caller_headers_loop (api_protected destination)
       (map (\<lambda>name. ToLower (TrimSpace name)) (dv_AllowedHeaders destination)) headers"

section \<open>The world of the handlers\<close>

record submissionMetrics =
  sm_accepted :: "64 word"
  sm_rejected :: "64 word"

datatype api_action =
    Authenticated Principal
  | Authorized DestinationVersion
  | Submitted Submission "store_error + Delivery"
  | Replayed string string string "store_error + Delivery"

record api_world =
  aw_db :: db
  aw_calls :: nat
  aw_log :: "api_action list"
  aw_metrics :: submissionMetrics
  aw_env :: "nat \<Rightarrow> env"
  aw_others :: "nat \<Rightarrow> db \<Rightarrow> db"
  aw_now :: "nat \<Rightarrow> instant"

definition api_call :: "(env \<Rightarrow> db \<Rightarrow> 'r \<times> db) \<Rightarrow> ('r \<Rightarrow> api_action list) \<Rightarrow> api_world \<Rightarrow> 'r \<times> api_world" where
  "api_call op acts w =
     (let (r, db') = op (aw_env w (aw_calls w)) (aw_others w (aw_calls w) (aw_db w)) in
      (r, w\<lparr>aw_db := db', aw_calls := Suc (aw_calls w), aw_log := aw_log w @ acts r\<rparr>))"

definition when_ok :: "('a \<Rightarrow> api_action list) \<Rightarrow> store_error + 'a \<Rightarrow> api_action list" where
  "when_ok acts r = (case r of Inr x \<Rightarrow> acts x | Inl _ \<Rightarrow> [])"

definition bearer :: string where "bearer = ''Bearer ''"

definition authenticatePrincipal ::
  "(byte list \<Rightarrow> byte list) \<Rightarrow> http_request \<Rightarrow> api_world \<Rightarrow> (http_response + Principal) \<times> api_world" where
  "authenticatePrincipal sha256 request w =
     (let authorization = header_get ''Authorization'' (hq_Header request);
          denied = writeError 401 ''unauthorized'' ''valid caller authentication is required'' in
      if \<not> HasPrefix authorization bearer \<or> length authorization = length bearer then (Inl denied, w)
      else case api_call (\<lambda>E db. (AuthenticatePrincipal E sha256 db (drop (length bearer) authorization), db))
             (when_ok (\<lambda>p. [Authenticated p])) w of
        (Inl e, w1) \<Rightarrow> (Inl (if e = ErrUnauthorized then denied else internalError), w1)
      | (Inr prin, w1) \<Rightarrow> (Inr prin, w1))"

definition authenticate ::
  "(byte list \<Rightarrow> byte list) \<Rightarrow> http_request \<Rightarrow> api_world \<Rightarrow> (http_response + string) \<times> api_world" where
  "authenticate sha256 request w =
     (case authenticatePrincipal sha256 request w of
        (Inl rp, w1) \<Rightarrow> (Inl rp, w1)
      | (Inr prin, w1) \<Rightarrow> (Inr (pr_CallerID prin), w1))"

section \<open>Handlers\<close>

text \<open>What \<open>submit\<close> reads from the request before it looks at the destination: key, destination, method,
  canonical headers and body.\<close>

definition parse_submission ::
  "(byte list \<Rightarrow> json_stream) \<Rightarrow> http_request \<Rightarrow>
   http_response + string \<times> string \<times> string \<times> (string, string) go_map \<times> byte list" where
  "parse_submission json_values request =
     (let idempotencyKey = TrimSpace (header_get ''Idempotency-Key'' (hq_Header request)) in
      if idempotencyKey = [] \<or> length idempotencyKey > 200
      then Inl (writeError 400 ''invalid_idempotency_key'' ''Idempotency-Key is required'')
      else case decode_submission (read_limited maxSubmissionJSONBytes json_values (hq_Body request)) of
        Inl rp \<Rightarrow> Inl rp
      | Inr input \<Rightarrow>
      case decodeCallerHeaders (si_Headers input) of
        None \<Rightarrow> Inl (writeError 400 ''invalid_headers'' ''caller Header names must be unique'')
      | Some callerHeaders \<Rightarrow>
      case DecodeString (si_BodyBase64 input) of
        None \<Rightarrow> Inl (writeError 400 ''invalid_body_encoding'' ''body_base64 is invalid'')
      | Some body \<Rightarrow>
      case CanonicalCallerHeaders callerHeaders of
        Inl _ \<Rightarrow> Inl (writeError 400 ''invalid_headers'' ''caller Header names must be unique'')
      | Inr canonicalHeaders \<Rightarrow>
      if payloadSize canonicalHeaders body > maxDeliveryPayloadBytes
      then Inl (writeError 413 ''payload_too_large'' ''Header and Body payload exceeds 256 KiB'')
      else Inr (idempotencyKey, si_DestinationID input, si_Method input, canonicalHeaders, body))"

text \<open>The checks against the destination, and the submission built from a request that passes them.\<close>

definition build_submission ::
  "(byte list \<Rightarrow> byte list) \<Rightarrow> string \<Rightarrow> string \<Rightarrow> string \<Rightarrow> (string, string) go_map \<Rightarrow> byte list \<Rightarrow> DestinationVersion \<Rightarrow>
   instant \<Rightarrow> http_response + Submission" where
  "build_submission sha256 callerID idempotencyKey rawMethod canonicalHeaders body destination acceptedAt =
     (let method = ToUpper (TrimSpace rawMethod) in
      if \<not> IsSupportedOutboundMethod method \<or> \<not> api_containsFold (dv_AllowedMethods destination) method
      then Inl (writeError 400 ''method_not_allowed'' ''method is not allowed for destination'')
      else case validateCallerHeaders canonicalHeaders destination of
        Some e \<Rightarrow> Inl (writeError 400 ''header_not_allowed'' e)
      | None \<Rightarrow>
      case RequestHash sha256 \<lparr>hi_DestinationID = dv_DestinationID destination, hi_DestinationVersion = dv_Version destination,
             hi_Method = method, hi_CallerHeaders = canonicalHeaders, hi_Body = body\<rparr> of
        Inl _ \<Rightarrow> Inl (writeError 400 ''invalid_request'' ''request cannot be canonicalized'')
      | Inr requestHash \<Rightarrow>
          Inr \<lparr>sub_CallerID = callerID, sub_IdempotencyKey = idempotencyKey, sub_RequestHash = requestHash,
            sub_DestinationID = dv_DestinationID destination, sub_DestinationVersion = dv_Version destination,
            sub_Method = method, sub_CallerHeaders = canonicalHeaders, sub_Body = body, sub_SupplierIdempotencyValue = [],
            sub_AcceptedAt = acceptedAt, sub_RetryDeadline = acceptedAt + 24 * Hour\<rparr>)"

definition submit_response :: "store_error + Delivery \<Rightarrow> http_response" where
  "submit_response r =
     (case r of
        Inl e \<Rightarrow>
          if e = ErrIdempotencyConflict
          then writeError 409 ''idempotency_conflict'' ''Idempotency-Key was reused with different content''
          else if e = ErrBacklogCapacity
          then (writeError 503 ''backlog_capacity_exceeded'' ''active delivery backlog is full'')\<lparr>rp_RetryAfter := Some ''60''\<rparr>
          else internalError
      | Inr delivery \<Rightarrow> writeJSON 202 (responseFromDelivery delivery))"

definition submit ::
  "(byte list \<Rightarrow> byte list) \<Rightarrow> (byte list \<Rightarrow> json_stream) \<Rightarrow> Store \<Rightarrow> http_request \<Rightarrow> api_world \<Rightarrow> http_response \<times> api_world" where
  "submit sha256 json_values store request w =
     (case authenticate sha256 request w of
        (Inl rp, w1) \<Rightarrow> (rp, w1)
      | (Inr callerID, w1) \<Rightarrow>
     (case parse_submission json_values request of
        Inl rp \<Rightarrow> (rp, w1)
      | Inr (idempotencyKey, destinationID, rawMethod, canonicalHeaders, body) \<Rightarrow>
     (case api_call (\<lambda>E db. (AuthorizedDestination E db callerID destinationID, db)) (when_ok (\<lambda>d. [Authorized d])) w1 of
        (Inl e, w2) \<Rightarrow>
          (if e = ErrDestinationDenied then writeError 403 ''destination_forbidden'' ''destination is not authorized'' else internalError, w2)
      | (Inr destination, w2) \<Rightarrow>
     (case build_submission sha256 callerID idempotencyKey rawMethod canonicalHeaders body destination (aw_now w2 (aw_calls w2)) of
        Inl rp \<Rightarrow> (rp, w2)
      | Inr submission \<Rightarrow>
          (case api_call (\<lambda>E db. Submit E store db submission) (\<lambda>r. [Submitted submission r]) w2 of
             (r, w3) \<Rightarrow> (submit_response r, w3))))))"

definition get :: "(byte list \<Rightarrow> byte list) \<Rightarrow> http_request \<Rightarrow> api_world \<Rightarrow> http_response \<times> api_world" where
  "get sha256 request w =
     (case authenticate sha256 request w of
        (Inl rp, w1) \<Rightarrow> (rp, w1)
      | (Inr callerID, w1) \<Rightarrow>
     (case api_call (\<lambda>E db. (Get E db callerID (hq_PathID request), db)) (\<lambda>_. []) w1 of
        (Inl e, w2) \<Rightarrow> (if e = ErrNotFound then writeError 404 ''delivery_not_found'' ''delivery was not found'' else internalError, w2)
      | (Inr delivery, w2) \<Rightarrow>
     (case api_call (\<lambda>E db. (ListAttemptSummaries E db callerID (dl_ID delivery) statusAttemptLimit, db)) (\<lambda>_. []) w2 of
        (Inl e, w3) \<Rightarrow> (internalError, w3)
      | (Inr attempts, w3) \<Rightarrow>
          (writeJSON 200 ((responseFromDelivery delivery)\<lparr>dr_Attempts := Some (map summary_response attempts)\<rparr>), w3))))"

record replayRequest =
  rr_Reason :: string

definition decode_replay :: "json_stream \<Rightarrow> replayRequest option" where
  "decode_replay stream =
     (case Decode stream of
        Inl _ \<Rightarrow> None
      | Inr (v, rest) \<Rightarrow>
          (case decode_struct [(''reason'', string_field (\<lambda>s x. x\<lparr>rr_Reason := s\<rparr>))] \<lparr>rr_Reason = []\<rparr> v of
             None \<Rightarrow> None
           | Some input \<Rightarrow> if ensureJSONEOF rest \<noteq> None then None else Some input))"

definition replay ::
  "(byte list \<Rightarrow> byte list) \<Rightarrow> (byte list \<Rightarrow> json_stream) \<Rightarrow> http_request \<Rightarrow> api_world \<Rightarrow> http_response \<times> api_world" where
  "replay sha256 json_values request w =
     (case authenticatePrincipal sha256 request w of
        (Inl rp, w1) \<Rightarrow> (rp, w1)
      | (Inr prin, w1) \<Rightarrow>
     if \<not> pr_IsOperator prin then (writeError 403 ''operator_required'' ''operator authorization is required'', w1)
     else case decode_replay (read_limited 4096 json_values (hq_Body request)) of
        None \<Rightarrow> (writeError 400 ''invalid_replay'' ''replay request is invalid'', w1)
      | Some input \<Rightarrow>
     let reason = TrimSpace (rr_Reason input) in
     if reason = [] \<or> length reason > 1000
     then (writeError 400 ''invalid_replay_reason'' ''reason must contain 1 to 1000 bytes'', w1)
     else case api_call (\<lambda>E db. Replay E db (hq_PathID request) (pr_CallerID prin) reason)
            (\<lambda>r. [Replayed (hq_PathID request) (pr_CallerID prin) reason r]) w1 of
        (Inl e, w2) \<Rightarrow>
          (if e = ErrNotFound then writeError 404 ''delivery_not_found'' ''delivery was not found''
           else if e = ErrReplayConflict then writeError 409 ''delivery_not_replayable'' ''delivery is not permanently failed''
           else internalError, w2)
      | (Inr replayed, w2) \<Rightarrow> (writeJSON 202 (responseFromDelivery replayed), w2))"

section \<open>Counting submissions\<close>

definition observe_metrics :: "int \<Rightarrow> submissionMetrics \<Rightarrow> submissionMetrics" where
  "observe_metrics status metrics =
     (if status = 202 then metrics\<lparr>sm_accepted := sm_accepted metrics + 1\<rparr>
      else metrics\<lparr>sm_rejected := sm_rejected metrics + 1\<rparr>)"

text \<open>The writer that remembers the first status and forwards only that one.\<close>

record statusResponseWriter =
  sw_status :: int
  sw_forwarded :: "int list"
  sw_written :: "response_body list"

definition WriteHeader :: "int \<Rightarrow> statusResponseWriter \<Rightarrow> statusResponseWriter" where
  "WriteHeader status writer =
     (if sw_status writer \<noteq> 0 then writer
      else writer\<lparr>sw_status := status, sw_forwarded := sw_forwarded writer @ [status]\<rparr>)"

definition Write :: "response_body \<Rightarrow> statusResponseWriter \<Rightarrow> statusResponseWriter" where
  "Write body writer =
     (let writer1 = (if sw_status writer = 0 then WriteHeader 200 writer else writer)
      in writer1\<lparr>sw_written := sw_written writer1 @ [body]\<rparr>)"

definition post_deliveries ::
  "(byte list \<Rightarrow> byte list) \<Rightarrow> (byte list \<Rightarrow> json_stream) \<Rightarrow> Store \<Rightarrow> http_request \<Rightarrow> api_world \<Rightarrow> statusResponseWriter \<times> api_world" where
  "post_deliveries sha256 json_values store request w =
     (let (rp, w1) = submit sha256 json_values store request w;
          observed = Write (rp_Body rp) (WriteHeader (rp_Status rp) \<lparr>sw_status = 0, sw_forwarded = [], sw_written = []\<rparr>)
      in (observed, w1\<lparr>aw_metrics := observe_metrics (sw_status observed) (aw_metrics w1)\<rparr>))"

definition snapshot :: "submissionMetrics \<Rightarrow> (string \<times> 64 word) list" where
  "snapshot metrics = [(''accepted'', sm_accepted metrics), (''rejected'', sm_rejected metrics)]"

definition SubmissionCounts :: "api_world \<Rightarrow> (string \<times> 64 word) list" where
  "SubmissionCounts w = snapshot (aw_metrics w)"

text \<open>The routes \<open>Register\<close> sets up, by method and path segments: a wildcard takes one segment that is not empty,
  and a GET pattern serves HEAD as well. A request no pattern matches is the mux's to answer.\<close>

datatype endpoint = PostDeliveries | GetDelivery string | ReplayDelivery string

fun Register :: "string \<Rightarrow> string list \<Rightarrow> endpoint option" where
  "Register verb [a] = (if verb = ''POST'' \<and> a = ''deliveries'' then Some PostDeliveries else None)"
| "Register verb [a, i] =
     (if verb \<in> {''GET'', ''HEAD''} \<and> a = ''deliveries'' \<and> i \<noteq> [] then Some (GetDelivery i) else None)"
| "Register verb [a, i, b] =
     (if verb = ''POST'' \<and> a = ''deliveries'' \<and> i \<noteq> [] \<and> b = ''replay'' then Some (ReplayDelivery i) else None)"
| "Register verb _ = None"

datatype api_answer = Unrouted | Observed statusResponseWriter | Direct http_response

definition ServeHTTP ::
  "(byte list \<Rightarrow> byte list) \<Rightarrow> (byte list \<Rightarrow> json_stream) \<Rightarrow> Store \<Rightarrow> string \<times> string list \<times> http_request \<Rightarrow> api_world \<Rightarrow> api_answer \<times> api_world" where
  "ServeHTTP sha256 json_values store = (\<lambda>(verb, path, request) w.
     (case Register verb path of
        None \<Rightarrow> (Unrouted, w)
      | Some PostDeliveries \<Rightarrow> apfst Observed (post_deliveries sha256 json_values store request w)
      | Some (GetDelivery i) \<Rightarrow> apfst Direct (get sha256 (request\<lparr>hq_PathID := i\<rparr>) w)
      | Some (ReplayDelivery i) \<Rightarrow> apfst Direct (replay sha256 json_values (request\<lparr>hq_PathID := i\<rparr>) w)))"

section \<open>What a handler did\<close>

lemma api_call_log: "aw_log (snd (api_call op acts w)) = aw_log w @ acts (fst (api_call op acts w))"
  by (simp add: api_call_def Let_def split: prod.split)

lemma api_call_eq:
  assumes "api_call op acts w = (r, w')"
  shows "op (aw_env w (aw_calls w)) (aw_others w (aw_calls w) (aw_db w)) = (r, aw_db w')" "aw_log w' = aw_log w @ acts r"
    "aw_env w' = aw_env w" "aw_others w' = aw_others w" "aw_now w' = aw_now w" "aw_calls w' = Suc (aw_calls w)" "aw_metrics w' = aw_metrics w"
  using assms by (auto simp: api_call_def Let_def split: prod.splits)

definition api_token :: "http_request \<Rightarrow> string" where
  "api_token request = drop (length bearer) (header_get ''Authorization'' (hq_Header request))"

lemma writeError_Status [simp]: "rp_Status (writeError status code message) = status"
  "rp_Status internalError = 503" "rp_Status (writeJSON status payload) = status"
  by (simp_all add: writeError_def internalError_def writeJSON_def)

lemma authenticatePrincipal_cases:
  assumes "authenticatePrincipal sha256 request w = (r, w1)"
  obtains (denied) rp where "r = Inl rp" "rp_Status rp = 401 \<or> rp_Status rp = 503" "aw_log w1 = aw_log w"
  | (known) p where "r = Inr p" "aw_log w1 = aw_log w @ [Authenticated p]"
      "AuthenticatePrincipal (aw_env w (aw_calls w)) sha256 (aw_others w (aw_calls w) (aw_db w)) (api_token request) = Inr p"
proof (cases "api_call (\<lambda>E db. (AuthenticatePrincipal E sha256 db (api_token request), db)) (when_ok (\<lambda>p. [Authenticated p])) w")
  case (Pair r0 w0)
  note c = api_call_eq [OF Pair]
  show thesis
  proof (cases r0)
    case (Inl e)
    with assms Pair c show thesis
      by (intro denied [of "case r of Inl rp \<Rightarrow> rp | Inr _ \<Rightarrow> internalError"])
        (auto simp: authenticatePrincipal_def api_token_def when_ok_def Let_def split: if_splits)
  next
    case (Inr p)
    with assms Pair c denied known show thesis
      by (auto simp: authenticatePrincipal_def api_token_def when_ok_def Let_def split: if_splits)
  qed
qed

lemma decode_submission_error: "decode_submission stream = Inl rp \<Longrightarrow> rp_Status rp = 400 \<or> rp_Status rp = 413"
  by (auto simp: decode_submission_def split: sum.splits option.splits if_splits)

text \<open>Only a body of exactly one value is decoded, by either handler.\<close>

lemma ensureJSONEOF_None: "ensureJSONEOF (vs, ending) = None \<longleftrightarrow> vs = [] \<and> ending = AtEOF"
  by (cases vs) (auto simp: ensureJSONEOF_def end_error_def split: json_end.splits)

lemma decoded_single_value:
  "decode_submission stream = Inr input \<Longrightarrow> \<exists>v. stream = ([v], AtEOF)"
  "decode_replay stream = Some q \<Longrightarrow> \<exists>v. stream = ([v], AtEOF)"
  by (cases stream rule: Decode.cases; force simp: decode_submission_def decode_replay_def ensureJSONEOF_None
      split: option.splits if_splits)+

text \<open>A body over the limit is never decoded.\<close>

lemma over_limit_refused:
  assumes "limit < length body"
  shows "isl (decode_submission (read_limited limit json_values body))" "decode_replay (read_limited limit json_values body) = None"
proof -
  have "snd (read_limited limit json_values body) \<noteq> AtEOF"
    using assms by (auto simp: read_limited_def split: prod.splits json_end.splits)
  then have single: "read_limited limit json_values body \<noteq> ([v], AtEOF)" for v by (metis snd_conv)
  show "isl (decode_submission (read_limited limit json_values body))"
    using decoded_single_value(1) [of "read_limited limit json_values body"] single
    by (cases "decode_submission (read_limited limit json_values body)") simp_all
  show "decode_replay (read_limited limit json_values body) = None"
    using decoded_single_value(2) [of "read_limited limit json_values body"] single
    by (cases "decode_replay (read_limited limit json_values body)") simp_all
qed

lemma parse_submission_error: "parse_submission json_values request = Inl rp \<Longrightarrow> rp_Status rp = 400 \<or> rp_Status rp = 413"
  by (auto simp: parse_submission_def Let_def decode_submission_error split: if_splits sum.splits option.splits)

lemma parse_submission_Inr:
  assumes "parse_submission json_values request = Inr (key, dest, m, headers, body)"
  shows "key = TrimSpace (header_get ''Idempotency-Key'' (hq_Header request))" "key \<noteq> []" "length key \<le> 200"
    "\<exists>input. CanonicalCallerHeaders input = Inr headers" "payloadSize headers body \<le> maxDeliveryPayloadBytes"
  using assms by (auto simp: parse_submission_def Let_def split: if_splits sum.splits option.splits)

lemma build_submission_error:
  "build_submission sha256 c key m headers body dest t = Inl rp \<Longrightarrow> rp_Status rp = 400"
  by (auto simp: build_submission_def Let_def split: if_splits option.splits sum.splits)

lemma build_submission_Inr:
  assumes "build_submission sha256 c key m headers body dest t = Inr s"
  shows "sub_CallerID s = c" "sub_IdempotencyKey s = key" "sub_Method s = ToUpper (TrimSpace m)" "sub_CallerHeaders s = headers"
    "sub_Body s = body" "sub_DestinationID s = dv_DestinationID dest" "sub_DestinationVersion s = dv_Version dest"
    "sub_AcceptedAt s = t" "sub_RetryDeadline s = t + 24 * Hour"
    "IsSupportedOutboundMethod (sub_Method s)" "api_containsFold (dv_AllowedMethods dest) (sub_Method s)"
    "validateCallerHeaders headers dest = None"
    "RequestHash sha256 \<lparr>hi_DestinationID = dv_DestinationID dest, hi_DestinationVersion = dv_Version dest,
       hi_Method = sub_Method s, hi_CallerHeaders = headers, hi_Body = body\<rparr> = Inr (sub_RequestHash s)"
  using assms by (auto simp: build_submission_def Let_def split: if_splits option.splits sum.splits)

text \<open>The two shapes of a submission request: refused before the store is asked to accept it, or one call
  of \<open>Submit\<close> whose result decides the response.\<close>

text \<open>The part of \<open>submit\<close> after a request was read and its caller known.\<close>

lemma submit_known_cases:
  assumes run: "submit sha256 json_values store request w = (rp, w')"
    and a: "authenticate sha256 request w = (Inr c, w1)"
    and q: "parse_submission json_values request = Inr (key, d0, m, headers, body)"
  obtains (refused) tail where "rp_Status rp \<noteq> 202" "aw_log w' = aw_log w1 @ tail" "\<And>s r. Submitted s r \<notin> set tail"
  | (asked) dest t s r E db E0 db0 where
      "aw_log w' = aw_log w1 @ [Authorized dest, Submitted s r]" "rp = submit_response r" "Submit E store db s = (r, aw_db w')"
      "build_submission sha256 c key m headers body dest t = Inr s" "AuthorizedDestination E0 db0 c d0 = Inr dest"
proof -
  obtain r2 w2 where call2: "api_call (\<lambda>E db. (AuthorizedDestination E db c d0, db)) (when_ok (\<lambda>d. [Authorized d])) w1 = (r2, w2)"
    by fastforce
  note c2 = api_call_eq [OF call2]
  show thesis
  proof (cases r2)
    case (Inl e)
    with run a q call2 c2(2) show thesis
      by (intro refused [of "[]"]) (auto simp: submit_def when_ok_def split: if_splits)
  next
    case r2: (Inr dest)
    show thesis
    proof (cases "build_submission sha256 c key m headers body dest (aw_now w2 (aw_calls w2))")
      case (Inl rp1)
      with run a q call2 c2(2) r2 build_submission_error [OF Inl] show thesis
        by (intro refused [of "[Authorized dest]"]) (auto simp: submit_def when_ok_def)
    next
      case b: (Inr s)
      obtain r3 w3 where call3: "api_call (\<lambda>E db. Submit E store db s) (\<lambda>r. [Submitted s r]) w2 = (r3, w3)" by fastforce
      note c3 = api_call_eq [OF call3]
      have "w' = w3" "rp = submit_response r3" using run a q call2 r2 b call3 by (simp_all add: submit_def)
      with c3 c2 r2 b show thesis by (intro asked) (auto simp: when_ok_def)
    qed
  qed
qed

lemma submit_cases:
  assumes "submit sha256 json_values store request w = (rp, w')"
  obtains (refused) tail where "rp_Status rp \<noteq> 202" "aw_log w' = aw_log w @ tail" "\<And>s r. Submitted s r \<notin> set tail"
  | (asked) p dest key d0 m headers body t s r E db where
      "aw_log w' = aw_log w @ [Authenticated p, Authorized dest, Submitted s r]" "rp = submit_response r"
      "Submit E store db s = (r, aw_db w')"
      "parse_submission json_values request = Inr (key, d0, m, headers, body)"
      "build_submission sha256 (pr_CallerID p) key m headers body dest t = Inr s"
      "AuthenticatePrincipal (aw_env w (aw_calls w)) sha256 (aw_others w (aw_calls w) (aw_db w)) (api_token request) = Inr p"
      "\<exists>E db. AuthorizedDestination E db (pr_CallerID p) d0 = Inr dest"
proof -
  obtain r1 w1 where auth: "authenticatePrincipal sha256 request w = (r1, w1)" by fastforce
  from auth show thesis
  proof (cases rule: authenticatePrincipal_cases)
    case (denied rp1)
    with assms auth show thesis by (intro refused [of "[]"]) (auto simp: submit_def authenticate_def)
  next
    case (known p)
    have a: "authenticate sha256 request w = (Inr (pr_CallerID p), w1)" by (simp add: authenticate_def auth known(1))
    show thesis
    proof (cases "parse_submission json_values request")
      case (Inl rp1)
      with assms a known(2) parse_submission_error [OF Inl] show thesis
        by (intro refused [of "[Authenticated p]"]) (auto simp: submit_def)
    next
      case (Inr q)
      obtain key d0 m headers body where q: "parse_submission json_values request = Inr (key, d0, m, headers, body)"
        using Inr by (cases q) auto
      from assms a q show thesis
      proof (cases rule: submit_known_cases)
        case (refused tail)
        with known(2) show thesis by (intro that(1) [of "Authenticated p # tail"]) auto
      next
        case (asked dest t s r E db E0 db0)
        with known q show thesis by (intro that(2)) auto
      qed
    qed
  qed
qed

lemma submit_response_202: "rp_Status (submit_response r) = 202 \<longleftrightarrow> (\<exists>d. r = Inr d)"
  by (auto simp: submit_response_def writeError_def writeJSON_def internalError_def split: sum.split)

section \<open>Properties of the API\<close>

text \<open>What the other processes alone did to the database between two states of the handler, and a stretch of
  the handler's calls in which it did not change the database itself.\<close>

definition left_by_others :: "api_world \<Rightarrow> api_world \<Rightarrow> db" where
  "left_by_others w w' = fold (aw_others w) [aw_calls w..<aw_calls w'] (aw_db w)"

definition reads_only :: "api_world \<Rightarrow> api_world \<Rightarrow> bool" where
  "reads_only w w' \<longleftrightarrow> aw_env w' = aw_env w \<and> aw_others w' = aw_others w \<and> aw_calls w \<le> aw_calls w' \<and> aw_db w' = left_by_others w w'"

lemma reads_only_refl [simp]: "reads_only w w"
  by (simp add: reads_only_def left_by_others_def)

lemma left_by_others_call:
  assumes "reads_only w w1" "aw_calls w' = Suc (aw_calls w1)"
  shows "left_by_others w w' = aw_others w1 (aw_calls w1) (aw_db w1)"
  using assms by (simp add: reads_only_def left_by_others_def)

lemma reads_only_call:
  assumes "reads_only w w1" "api_call (\<lambda>E db. (f E db, db)) acts w1 = (r, w')"
  shows "reads_only w w'"
  using assms api_call_eq [OF assms(2)] left_by_others_call [OF assms(1), of w'] by (simp add: reads_only_def)

lemma authenticatePrincipal_reads:
  assumes "authenticatePrincipal sha256 request w = (r, w1)"
  shows "reads_only w w1"
  using assms unfolding authenticatePrincipal_def Let_def
  by (auto split: if_splits prod.splits sum.splits intro: reads_only_call [OF reads_only_refl])

text \<open>The handler only reads until its one call of \<open>Submit\<close>.\<close>

lemma submit_reads:
  assumes "submit sha256 json_values store request w = (rp, w')"
  shows "reads_only w w' \<or> (\<exists>w2 s r. reads_only w w2 \<and> api_call (\<lambda>E db. Submit E store db s) (\<lambda>r. [Submitted s r]) w2 = (r, w') \<and>
    rp = submit_response r)"
proof -
  obtain r1 w1 where auth: "authenticate sha256 request w = (r1, w1)" by fastforce
  then have r1: "reads_only w w1"
    by (auto simp: authenticate_def split: prod.splits sum.splits dest: authenticatePrincipal_reads)
  have r2: "reads_only w w2" if "api_call (\<lambda>E db. (AuthorizedDestination E db c d, db)) acts w1 = (r2, w2)" for c d acts r2 w2
    using r1 that by (rule reads_only_call)
  show ?thesis using assms auth r1 unfolding submit_def
    by (auto split: prod.splits sum.splits dest!: r2)
qed

lemma Submit_stored:
  assumes "Submit E store db s = (Inr d, db')"
  obtains r where "r \<in> set (deliveries db')" "as_stored d = as_stored (delivery_of_row r)" "idem_key r = (sub_CallerID s, sub_IdempotencyKey s)"
    "d_request_hash r = sub_RequestHash s"
proof -
  have "fst (Submit E store db s) = Inr d" "snd (Submit E store db s) = db'" using assms by simp_all
  then show thesis
    by (cases rule: Submit_Inr_cases) (auto simp: accepts_def intro: that)
qed

text \<open>The database after a submission that was not answered with 202.\<close>

definition submission_lost :: "api_world \<Rightarrow> api_world \<Rightarrow> bool" where
  "submission_lost w w' \<longleftrightarrow> (let E = aw_env w (aw_calls w' - 1); db = left_by_others w w' in
     stmt_fails E ''commit submission'' \<and> commit_lost E \<and>
     (\<exists>s r e. accepts db s r e \<and> last (aw_log w') = Submitted s (Inl (ErrDb ''commit submission'')) \<and>
        aw_db w' = db\<lparr>deliveries := deliveries db @ [r], outbox_events := outbox_events db @ [e]\<rparr>))"

lemma submit_refused_effect:
  assumes "submit sha256 json_values store request w = (rp, w')" "rp_Status rp \<noteq> 202"
  shows "aw_db w' = left_by_others w w' \<or> rp = internalError \<and> submission_lost w w'"
proof (cases "reads_only w w'")
  case True
  then show ?thesis by (simp add: reads_only_def)
next
  case False
  with submit_reads [OF assms(1)] obtain w2 s r where w2: "reads_only w w2"
    "api_call (\<lambda>E db. Submit E store db s) (\<lambda>r. [Submitted s r]) w2 = (r, w')" "rp = submit_response r" by blast
  note c = api_call_eq [OF w2(2)]
  from w2(3) assms(2) obtain x where x: "r = Inl x" by (cases r) (auto simp: submit_response_def)
  have left: "left_by_others w w' = aw_others w2 (aw_calls w2) (aw_db w2)" by (rule left_by_others_call [OF w2(1) c(6)])
  have "Submit (aw_env w (aw_calls w' - 1)) store (left_by_others w w') s = (Inl x, aw_db w')"
    using c(1,6) w2(1) by (simp add: left x reads_only_def)
  from submit_error_leaves_no_trace [OF this] show ?thesis
    using c(2) w2(3) x by (auto simp: submission_lost_def Let_def submit_response_def)
qed

text \<open>C36. A submission is answered with 202 only if the store durably holds its delivery: then the
  caller was authenticated by its bearer token and the destination authorised for it, and the database holds
  a delivery of that caller under that idempotency key with the hash of this very request, which is the
  one the response describes (its times to the microsecond). With any other status the database is exactly
  what the other processes left (the fold of their changes over the handler's calls), with one exception: the
  commit of the submission was reported failed and yet took effect; then the whole acceptance is there, one
  pending delivery and its event, the answer is 503, and the caller has to retry under the same key to learn
  of it.\<close>

theorem accepted_submission_durable:
  assumes "submit sha256 json_values store request w = (rp, w')"
  shows "if rp_Status rp = 202
    then \<exists>p dest s d r. aw_log w' = aw_log w @ [Authenticated p, Authorized dest, Submitted s (Inr d)] \<and>
      AuthenticatePrincipal (aw_env w (aw_calls w)) sha256 (aw_others w (aw_calls w) (aw_db w)) (api_token request) = Inr p \<and>
      rp_Body rp = DeliveryBody (responseFromDelivery d) \<and> r \<in> set (deliveries (aw_db w')) \<and> as_stored d = as_stored (delivery_of_row r) \<and>
      idem_key r = (pr_CallerID p, TrimSpace (header_get ''Idempotency-Key'' (hq_Header request))) \<and>
      RequestHash sha256 \<lparr>hi_DestinationID = dv_DestinationID dest, hi_DestinationVersion = dv_Version dest,
        hi_Method = sub_Method s, hi_CallerHeaders = sub_CallerHeaders s, hi_Body = sub_Body s\<rparr> = Inr (d_request_hash r)
    else (\<forall>s d. Submitted s (Inr d) \<notin> set (drop (length (aw_log w)) (aw_log w'))) \<and>
      (aw_db w' = left_by_others w w' \<or> rp = internalError \<and> submission_lost w w')"
  using assms
proof (cases rule: submit_cases)
  case (refused tail)
  with submit_refused_effect [OF assms] show ?thesis by auto
next
  case (asked p dest key d0 m headers body t s r E db)
  show ?thesis
  proof (cases r)
    case (Inl e)
    with asked submit_response_202 [of r] submit_refused_effect [OF assms] show ?thesis by auto
  next
    case (Inr d)
    from asked(3) [unfolded Inr] obtain row where row: "row \<in> set (deliveries (aw_db w'))" "as_stored d = as_stored (delivery_of_row row)"
      "idem_key row = (sub_CallerID s, sub_IdempotencyKey s)" "d_request_hash row = sub_RequestHash s"
      by (rule Submit_stored)
    note b = build_submission_Inr [OF asked(5)] and pk = parse_submission_Inr(1) [OF asked(4)]
    have "rp_Status rp = 202" "rp_Body rp = DeliveryBody (responseFromDelivery d)"
      using asked(2) Inr by (simp_all add: submit_response_def writeJSON_def)
    moreover have "idem_key row = (pr_CallerID p, TrimSpace (header_get ''Idempotency-Key'' (hq_Header request)))"
      using row(3) b(1,2) pk by simp
    moreover have "RequestHash sha256 \<lparr>hi_DestinationID = dv_DestinationID dest, hi_DestinationVersion = dv_Version dest,
        hi_Method = sub_Method s, hi_CallerHeaders = sub_CallerHeaders s, hi_Body = sub_Body s\<rparr> = Inr (d_request_hash row)"
      using b(13) b(4,5) row(4) by simp
    ultimately show ?thesis using asked(1,6) Inr row(1,2) by auto
  qed
qed

section \<open>The API and the outbound client agree\<close>

lemma is_space_char_upper: "is_space (char_upper c) = is_space c"
  by (auto simp: is_space_def char_upper_def Let_def)

lemma TrimSpace_ToUpper: "TrimSpace (ToUpper s) = ToUpper (TrimSpace s)"
  by (simp add: TrimSpace_def ToUpper_def trim_by_def dropWhile_map rev_map comp_def is_space_char_upper)

lemma caller_headers_loop_None:
  "caller_headers_loop protected allowed headers = None \<longleftrightarrow> (\<forall>(n, v)\<in>set headers. n \<notin> set protected \<and> n \<in> set allowed)"
  by (induction protected allowed headers rule: caller_headers_loop.induct) auto

lemma api_protected_same: "set (api_protected d) = set (protected_headers d)"
  by (simp add: api_protected_def protected_headers_def hop_headers_def)

lemma canonical_headers_entries:
  assumes "CanonicalCallerHeaders input = Inr headers"
  shows "distinct (map fst headers)" "list_all (\<lambda>(n, v). validHeaderName n \<and> canonical_name n = n \<and> validHeaderValue v) headers"
proof -
  have c: "list_all header_entry_ok input" "distinct (map (canonical_name \<circ> fst) input)" "headers = map canonical_entry input"
    using assms canonical_loop_Inr [of "[]" input headers] by (auto simp: CanonicalCallerHeaders_def)
  have "map fst headers = map (canonical_name \<circ> fst) input" by (simp add: c(3) case_prod_beta comp_def)
  with c(2) show "distinct (map fst headers)" by simp
  have idem: "canonical_name (canonical_name n) = canonical_name n" for n
    by (simp add: canonical_name_def TrimSpace_ToLower)
  show "list_all (\<lambda>(n, v). validHeaderName n \<and> canonical_name n = n \<and> validHeaderValue v) headers"
    using c(1) by (auto simp: c(3) list_all_iff header_entry_ok_def idem validHeaderValue_trim)
qed

lemma valid_name_unbroken: "validHeaderName n \<Longrightarrow> n \<noteq> [] \<and> \<not> contains_any n name_breakers"
proof -
  assume v: "validHeaderName n"
  have "list_all (\<lambda>c. (of_char c :: nat) < 33 \<or> c \<in> set separators) name_breakers" by code_simp
  then have "(of_char c :: nat) < 33 \<or> c \<in> set separators" if "c \<in> set name_breakers" for c
    using that unfolding list_all_iff by blast
  moreover have "\<not> ((of_char c :: nat) < 33 \<or> c \<in> set separators)" if "c \<in> set n" for c
    using v that unfolding validHeaderName_def list_all_iff by blast
  ultimately have "\<not> contains_any n name_breakers" unfolding contains_any_def list_ex_iff by blast
  with v show ?thesis by (simp add: validHeaderName_def)
qed

lemma valid_value_unbroken: "validHeaderValue v \<Longrightarrow> \<not> contains_any v line_breakers"
proof -
  assume v: "validHeaderValue v"
  have "\<not> ((of_char c :: nat) = 13 \<or> (of_char c :: nat) = 10)" if "c \<in> set v" for c
    using v that unfolding validHeaderValue_def list_all_iff Let_def by blast
  moreover have "(of_char c :: nat) = 13 \<or> (of_char c :: nat) = 10" if "c \<in> set line_breakers" for c
    using that by (auto simp: line_breakers_def)
  ultimately show ?thesis unfolding contains_any_def list_ex_iff by blast
qed

text \<open>C38. Nothing in a request that the API lets through can make the outbound client refuse its delivery: the
  method of every submission that reaches the store passes the client's own checks, its payload is at most
  256 KiB, and the client's verdict on the headers depends on the destination alone. It refuses them exactly if
  the names of the destination's credential and idempotency headers are unusable or equal, which neither the
  API nor \<open>Bootstrap\<close> nor the schema rules out; every delivery to such a destination fails permanently.\<close>

theorem accepted_request_deliverable:
  assumes "submit sha256 json_values store request w = (rp, w')"
    and "aw_log w' = aw_log w @ [Authenticated p, Authorized dest, Submitted s r]"
  shows "IsSupportedOutboundMethod (sub_Method s) \<and> containsFold (dv_AllowedMethods dest) (sub_Method s) \<and>
    payloadSize (sub_CallerHeaders s) (sub_Body s) \<le> maxDeliveryPayloadBytes \<and>
    validateStoredHeaders (sub_CallerHeaders s) dest =
      (if validInjectedHeader (dv_CredentialHeader dest) \<and> validInjectedHeader (dv_IdempotencyHeader dest) \<and>
          \<not> EqualFold (dv_CredentialHeader dest) (dv_IdempotencyHeader dest)
       then None else Some ''destination injection Header configuration is invalid'')"
  using assms(1)
proof (cases rule: submit_cases)
  case (refused tail)
  with assms(2) show ?thesis by auto
next
  case (asked p' dest' key d0 m headers body t s' r' E db)
  with assms(2) have same: "dest' = dest" "s' = s" by auto
  note b = build_submission_Inr [OF asked(5), unfolded same]
  from parse_submission_Inr(4) [OF asked(4)] obtain input where "CanonicalCallerHeaders input = Inr headers" ..
  note h = canonical_headers_entries [OF this]
  have "TrimSpace (sub_Method s) = sub_Method s"
    unfolding b(3) by (simp add: TrimSpace_ToUpper)
  then have allowed: "containsFold (dv_AllowedMethods dest) (sub_Method s)"
    using b(11) by (simp add: containsFold_def api_containsFold_def)
  have entries: "\<forall>(n, v)\<in>set headers. n \<notin> set (protected_headers dest) \<and> n \<in> set (map (\<lambda>name. ToLower (TrimSpace name)) (dv_AllowedHeaders dest))"
    using b(12) unfolding validateCallerHeaders_def caller_headers_loop_None api_protected_same .
  have "list_all (stored_entry_ok (map (\<lambda>name. ToLower (TrimSpace name)) (dv_AllowedHeaders dest)) (protected_headers dest)) headers"
    using h(2) entries valid_name_unbroken valid_value_unbroken by (fastforce simp: list_all_iff stored_entry_ok_def)
  moreover have "map (canonical_name \<circ> fst) headers = map fst headers" using h(2) by (auto simp: list_all_iff)
  then have "distinct (map (canonical_name \<circ> fst) headers)" using h(1) by (simp only:)
  ultimately have "stored_headers_loop (map (\<lambda>name. ToLower (TrimSpace name)) (dv_AllowedHeaders dest))
      (protected_headers dest) [] headers = None"
    using h(1) by (simp add: stored_headers_loop_None)
  then have stored: "validateStoredHeaders headers dest =
      (if validInjectedHeader (dv_CredentialHeader dest) \<and> validInjectedHeader (dv_IdempotencyHeader dest) \<and>
          \<not> EqualFold (dv_CredentialHeader dest) (dv_IdempotencyHeader dest)
       then None else Some ''destination injection Header configuration is invalid'')"
    by (auto simp: validateStoredHeaders_def)
  show ?thesis using b allowed stored parse_submission_Inr(5) [OF asked(4)] by simp
qed

section \<open>The properties on an example\<close>

definition demo_sha :: "byte list \<Rightarrow> byte list" where
  "demo_sha bytes = (if bytes = bytes_of ''k'' then [1] else if bytes = bytes_of ''root'' then [2] else replicate 32 5)"

definition demo_json :: "byte list \<Rightarrow> json_stream" where
  "demo_json body =
     (if body = [0] then ([JObj [(''reason'', JStr ''fixed'')]], AtEOF)
      else ([JObj [(''destination_id'', JStr ''s''), (''method'', JStr '' post''),
        (''headers'', JObj [(''X-A'', JStr '' 1'')]), (''body_base64'', JStr ''e30='')]], AtEOF))"

definition demo_request :: "string \<Rightarrow> byte list \<Rightarrow> http_request" where
  "demo_request token body =
     \<lparr>hq_Header = [''Authorization'' \<mapsto> ''Bearer '' @ token, ''Idempotency-Key'' \<mapsto> ''new''], hq_Body = body, hq_PathID = ''f''\<rparr>"

definition demo_api :: api_world where
  "demo_api = \<lparr>aw_db = demo_db, aw_calls = 0, aw_log = [], aw_metrics = \<lparr>sm_accepted = 0, sm_rejected = 0\<rparr>,
     aw_env = (\<lambda>_. quiet_env 10), aw_others = (\<lambda>_. id), aw_now = (\<lambda>_. 10)\<rparr>"

abbreviation demo_submit :: "http_response \<times> api_world" where
  "demo_submit \<equiv> submit demo_sha demo_json \<lparr>st_backlogLimit = 10\<rparr> (demo_request ''k'' []) demo_api"

lemma demo_parse:
  "parse_submission demo_json (demo_request ''k'' []) = Inr (''new'', ''s'', '' post'', [(''x-a'', ''1'')], [123, 125])"
proof -
  let ?input = "\<lparr>si_DestinationID = ''s'', si_Method = '' post'', si_Headers = Some (JObj [(''X-A'', JStr '' 1'')]), si_BodyBase64 = ''e30=''\<rparr>"
  have "TrimSpace (header_get ''Idempotency-Key'' (hq_Header (demo_request ''k'' []))) = ''new''" by code_simp
  moreover have "decode_submission (demo_json []) = Inr ?input" by code_simp
  moreover have "read_limited maxSubmissionJSONBytes demo_json [] = demo_json []" by (simp add: read_limited_def)
  moreover have "decodeCallerHeaders (si_Headers ?input) = Some [(''X-A'', '' 1'')]" by code_simp
  moreover have "DecodeString (si_BodyBase64 ?input) = Some [123, 125]" by code_simp
  moreover have "CanonicalCallerHeaders [(''X-A'', '' 1'')] = Inr [(''x-a'', ''1'')]" by code_simp
  ultimately show ?thesis
    by (simp add: parse_submission_def demo_request_def payloadSize_def maxDeliveryPayloadBytes_def)
qed

definition demo_accepted :: Submission where
  "demo_accepted = \<lparr>sub_CallerID = ''c'', sub_IdempotencyKey = ''new'', sub_RequestHash = replicate 32 5, sub_DestinationID = ''s'',
     sub_DestinationVersion = 1, sub_Method = ''POST'', sub_CallerHeaders = [(''x-a'', ''1'')], sub_Body = [123, 125],
     sub_SupplierIdempotencyValue = [], sub_AcceptedAt = 10, sub_RetryDeadline = 10 + 24 * Hour\<rparr>"

lemma demo_build:
  "build_submission demo_sha ''c'' ''new'' '' post'' [(''x-a'', ''1'')] [123, 125] (destination_of_row demo_version) 10 = Inr demo_accepted"
  by code_simp

lemma demo_store_calls:
  "AuthenticatePrincipal (quiet_env 10) demo_sha demo_db ''k'' = Inr \<lparr>pr_CallerID = ''c'', pr_IsOperator = False\<rparr>"
  "AuthorizedDestination (quiet_env 10) demo_db ''c'' ''s'' = Inr (destination_of_row demo_version)"
  "isl (fst (Submit (quiet_env 10) \<lparr>st_backlogLimit = 10\<rparr> demo_db demo_accepted)) = False"
  by code_simp+

lemma demo_submit_log:
  "\<exists>d. fst demo_submit = submit_response (Inr d) \<and>
     aw_log (snd demo_submit) = [Authenticated \<lparr>pr_CallerID = ''c'', pr_IsOperator = False\<rparr>, Authorized (destination_of_row demo_version),
       Submitted demo_accepted (Inr d)]"
proof -
  obtain d db' where sub: "Submit (quiet_env 10) \<lparr>st_backlogLimit = 10\<rparr> demo_db demo_accepted = (Inr d, db')"
    using demo_store_calls(3) by (cases "Submit (quiet_env 10) \<lparr>st_backlogLimit = 10\<rparr> demo_db demo_accepted")
      (auto simp: isl_def split: sum.splits, metis sum.collapse(2) isl_def)
  have tok: "header_get ''Authorization'' (hq_Header (demo_request ''k'' [])) = ''Bearer k''" by code_simp
  have pre: "HasPrefix ''Bearer k'' bearer" "length ''Bearer k'' \<noteq> length bearer" "drop (length bearer) ''Bearer k'' = ''k''"
    by code_simp+
  show ?thesis
    using demo_parse demo_build demo_store_calls(1,2) sub pre
    by (auto simp: submit_def authenticate_def authenticatePrincipal_def tok api_call_def demo_api_def when_ok_def Let_def)
qed

theorem accepted_submission_durable_witness:
  "\<exists>r\<in>set (deliveries (aw_db (snd demo_submit))). idem_key r = (''c'', ''new'')"
proof -
  from demo_submit_log obtain d where d: "fst demo_submit = submit_response (Inr d)"
    "aw_log (snd demo_submit) = [Authenticated \<lparr>pr_CallerID = ''c'', pr_IsOperator = False\<rparr>, Authorized (destination_of_row demo_version),
       Submitted demo_accepted (Inr d)]" by blast
  have st: "rp_Status (fst demo_submit) = 202" unfolding d(1) by (simp add: submit_response_def)
  have log: "aw_log demo_api = []" by (simp add: demo_api_def)
  have key: "TrimSpace (header_get ''Idempotency-Key'' (hq_Header (demo_request ''k'' []))) = ''new''" by code_simp
  show ?thesis
    using accepted_submission_durable [OF prod.collapse [symmetric], of demo_sha demo_json "\<lparr>st_backlogLimit = 10\<rparr>" "demo_request ''k'' []" demo_api]
    unfolding key log d(2) by (simp only: st if_True) auto
qed

theorem accepted_request_deliverable_witness:
  "validateStoredHeaders (sub_CallerHeaders demo_accepted) (destination_of_row demo_version) = None"
proof -
  from demo_submit_log obtain d where log: "aw_log (snd demo_submit) = aw_log demo_api @
    [Authenticated \<lparr>pr_CallerID = ''c'', pr_IsOperator = False\<rparr>, Authorized (destination_of_row demo_version), Submitted demo_accepted (Inr d)]"
    by (auto simp: demo_api_def)
  have "validInjectedHeader (dv_CredentialHeader (destination_of_row demo_version))"
    "validInjectedHeader (dv_IdempotencyHeader (destination_of_row demo_version))"
    "\<not> EqualFold (dv_CredentialHeader (destination_of_row demo_version)) (dv_IdempotencyHeader (destination_of_row demo_version))"
    by code_simp+
  with accepted_request_deliverable [OF prod.collapse [symmetric] log] show ?thesis by simp
qed

section \<open>Replay and counters\<close>

text \<open>C39. Only an authenticated operator can replay: whenever the replay handler asks the store for a replay,
  the request's bearer token belongs to an operator, the audit names that operator, and the reason has 1 to
  1000 bytes; and the answer is 202 exactly when the store carried the replay out. Otherwise the handler
  changes nothing at all.\<close>

theorem replay_requires_operator:
  assumes "replay sha256 json_values request w = (rp, w')"
  shows "(\<exists>p reason r. aw_log w' = aw_log w @ [Authenticated p, Replayed (hq_PathID request) (pr_CallerID p) reason r] \<and>
       AuthenticatePrincipal (aw_env w (aw_calls w)) sha256 (aw_others w (aw_calls w) (aw_db w)) (api_token request) = Inr p \<and>
       pr_IsOperator p \<and> 1 \<le> length reason \<and> length reason \<le> 1000 \<and> (rp_Status rp = 202 \<longleftrightarrow> (\<exists>d. r = Inr d))) \<or>
     rp_Status rp \<noteq> 202 \<and> (aw_db w' = aw_db w \<or> aw_db w' = aw_others w (aw_calls w) (aw_db w)) \<and>
       (\<forall>i operator reason r. Replayed i operator reason r \<notin> set (drop (length (aw_log w)) (aw_log w')))"
proof -
  obtain r1 w1 where auth: "authenticatePrincipal sha256 request w = (r1, w1)" by fastforce
  have db1: "aw_db w1 = aw_db w \<or> aw_db w1 = aw_others w (aw_calls w) (aw_db w)"
    using auth by (auto simp: authenticatePrincipal_def api_call_def Let_def split: if_splits sum.splits prod.splits)
  from auth show ?thesis
  proof (cases rule: authenticatePrincipal_cases)
    case (denied rp1)
    with assms auth db1 show ?thesis by (auto simp: replay_def)
  next
    case (known p)
    let ?reason = "\<lambda>raw. TrimSpace raw"
    show ?thesis
    proof (cases "\<exists>raw. pr_IsOperator p \<and> decode_replay (read_limited 4096 json_values (hq_Body request)) = Some raw \<and>
        TrimSpace (rr_Reason raw) \<noteq> [] \<and> length (TrimSpace (rr_Reason raw)) \<le> 1000")
      case False
      then have "w' = w1" "rp_Status rp \<noteq> 202"
        using assms auth known(1) by (auto simp: replay_def Let_def split: if_splits option.splits)
      with db1 known(2) show ?thesis by auto
    next
      case True
      then obtain raw where raw: "pr_IsOperator p" "decode_replay (read_limited 4096 json_values (hq_Body request)) = Some raw"
        "TrimSpace (rr_Reason raw) \<noteq> []" "length (TrimSpace (rr_Reason raw)) \<le> 1000" by blast
      obtain r2 w2 where call: "api_call (\<lambda>E db. Replay E db (hq_PathID request) (pr_CallerID p) (TrimSpace (rr_Reason raw)))
          (\<lambda>r. [Replayed (hq_PathID request) (pr_CallerID p) (TrimSpace (rr_Reason raw)) r]) w1 = (r2, w2)" by fastforce
      have "w' = w2" "rp_Status rp = 202 \<longleftrightarrow> (\<exists>d. r2 = Inr d)"
        using assms auth known(1) raw call by (auto simp: replay_def Let_def split: sum.splits if_splits)
      with api_call_eq(2) [OF call] known raw show ?thesis by (intro disjI1 exI [of _ p] exI [of _ "TrimSpace (rr_Reason raw)"] exI [of _ r2]) (auto simp: Suc_le_eq)
    qed
  qed
qed

theorem replay_requires_operator_witness:
  "rp_Status (fst (replay demo_sha demo_json (demo_request ''k'' [0]) demo_api)) \<noteq> 202"
proof
  assume accepted: "rp_Status (fst (replay demo_sha demo_json (demo_request ''k'' [0]) demo_api)) = 202"
  have tok: "api_token (demo_request ''k'' [0]) = ''k''" by code_simp
  show False
    using replay_requires_operator [OF prod.collapse [symmetric], of demo_sha demo_json "demo_request ''k'' [0]" demo_api] accepted
      demo_store_calls(1) by (auto simp: tok demo_api_def)
qed

fun serve ::
  "(byte list \<Rightarrow> byte list) \<Rightarrow> (byte list \<Rightarrow> json_stream) \<Rightarrow> Store \<Rightarrow> (string \<times> string list \<times> http_request) list \<Rightarrow> api_world
   \<Rightarrow> api_answer list \<times> api_world" where
  "serve sha256 json_values store [] w = ([], w)"
| "serve sha256 json_values store (q # qs) w =
     (let (answer, w1) = ServeHTTP sha256 json_values store q w; (answers, w2) = serve sha256 json_values store qs w1
      in (answer # answers, w2))"

lemma submit_keeps_metrics: "aw_metrics (snd (submit sha256 json_values store request w)) = aw_metrics w"
  by (simp add: submit_def authenticate_def authenticatePrincipal_def api_call_def Let_def split: sum.split prod.split if_split)

lemma submit_status_nonzero: "rp_Status (fst (submit sha256 json_values store request w)) \<noteq> 0"
proof -
  obtain rp w' where run: "submit sha256 json_values store request w = (rp, w')" by fastforce
  have "rp_Status rp \<noteq> 0"
    using run parse_submission_error build_submission_error
    by (force simp: submit_def authenticate_def authenticatePrincipal_def Let_def submit_response_def writeError_def writeJSON_def
        internalError_def split: sum.splits prod.splits if_splits)
  then show ?thesis by (simp add: run)
qed

lemma authenticatePrincipal_metrics: "authenticatePrincipal sha256 request w = (r, w') \<Longrightarrow> aw_metrics w' = aw_metrics w"
  by (auto simp: authenticatePrincipal_def Let_def dest!: api_call_eq(7) split: if_splits sum.splits prod.splits)

lemma reads_keep_metrics:
  "get sha256 request w = (rp, w') \<Longrightarrow> aw_metrics w' = aw_metrics w"
  "replay sha256 json_values request w = (rp, w') \<Longrightarrow> aw_metrics w' = aw_metrics w"
  unfolding get_def replay_def authenticate_def
  by (auto simp: Let_def dest!: api_call_eq(7) authenticatePrincipal_metrics split: prod.splits sum.splits option.splits if_splits)

text \<open>The counters count the answers to submissions, modulo the width of the counter, whatever else is served between
  them, and each such answer sends its status once.\<close>

definition answered :: "(int \<Rightarrow> bool) \<Rightarrow> api_answer \<Rightarrow> bool" where
  "answered p a = (case a of Observed writer \<Rightarrow> p (sw_status writer) | _ \<Rightarrow> False)"

lemma post_deliveries_counts:
  assumes "post_deliveries sha256 json_values store q w = (observed, w')"
  shows "aw_metrics w' = observe_metrics (sw_status observed) (aw_metrics w) \<and> sw_forwarded observed = [sw_status observed]"
proof -
  obtain rp w1 where sub: "submit sha256 json_values store q w = (rp, w1)" by fastforce
  have "aw_metrics w1 = aw_metrics w" "rp_Status rp \<noteq> 0"
    using submit_keeps_metrics [of sha256 json_values store q w] submit_status_nonzero [of sha256 json_values store q w] by (simp_all add: sub)
  with assms show ?thesis by (auto simp: post_deliveries_def sub Write_def WriteHeader_def)
qed

lemma ServeHTTP_counts:
  assumes "ServeHTTP sha256 json_values store q w = (a, w')"
  shows "(\<exists>observed. a = Observed observed \<and> aw_metrics w' = observe_metrics (sw_status observed) (aw_metrics w) \<and>
      sw_forwarded observed = [sw_status observed]) \<or>
    (\<forall>p. \<not> answered p a) \<and> aw_metrics w' = aw_metrics w"
proof -
  obtain verb path request where q: "q = (verb, path, request)" by (cases q)
  consider (none) "Register verb path = None" | (post) "Register verb path = Some PostDeliveries"
    | (get) i where "Register verb path = Some (GetDelivery i)" | (replay) i where "Register verb path = Some (ReplayDelivery i)"
    by (metis endpoint.exhaust option.exhaust)
  then show ?thesis
  proof cases
    case post
    obtain observed w1 where run: "post_deliveries sha256 json_values store request w = (observed, w1)" by fastforce
    with assms post have "a = Observed observed" "w' = w1" by (simp_all add: ServeHTTP_def q)
    with post_deliveries_counts [OF run] show ?thesis by blast
  next
    case (get i)
    obtain rp w1 where run: "Http_Api.get sha256 (request\<lparr>hq_PathID := i\<rparr>) w = (rp, w1)" by fastforce
    with assms get reads_keep_metrics(1) [OF run] show ?thesis by (auto simp: ServeHTTP_def q answered_def)
  next
    case (replay i)
    obtain rp w1 where run: "Http_Api.replay sha256 json_values (request\<lparr>hq_PathID := i\<rparr>) w = (rp, w1)" by fastforce
    with assms replay reads_keep_metrics(2) [OF run] show ?thesis by (auto simp: ServeHTTP_def q answered_def)
  qed (use assms in \<open>simp add: ServeHTTP_def q answered_def\<close>)
qed

lemma submission_counts:
  "serve sha256 json_values store qs w = (outs, w') \<Longrightarrow>
     sm_accepted (aw_metrics w') = sm_accepted (aw_metrics w) + of_nat (length (filter (answered (\<lambda>status. status = 202)) outs)) \<and>
     sm_rejected (aw_metrics w') = sm_rejected (aw_metrics w) + of_nat (length (filter (answered (\<lambda>status. status \<noteq> 202)) outs)) \<and>
     (\<forall>a. Observed a \<in> set outs \<longrightarrow> sw_forwarded a = [sw_status a])"
proof (induction qs arbitrary: w outs)
  case (Cons q qs)
  obtain a w1 where step: "ServeHTTP sha256 json_values store q w = (a, w1)" by fastforce
  obtain rest w2 where rest: "serve sha256 json_values store qs w1 = (rest, w2)" by fastforce
  with Cons.prems step have "outs = a # rest" "w' = w2" by auto
  with Cons.IH [of w1 rest] rest ServeHTTP_counts [OF step] show ?case by (auto simp: observe_metrics_def answered_def)
qed simp

section \<open>Bodies travel as base64\<close>

text \<open>The standard encoding, as a client produces it.\<close>

definition b64_char :: "nat \<Rightarrow> char" where
  "b64_char n = char_of (if n < 26 then n + 65 else if n < 52 then n + 71 else if n < 62 then n - 4 else if n = 62 then 43 else (47 :: nat))"

fun b64_encode :: "byte list \<Rightarrow> string" where
  "b64_encode [] = []"
| "b64_encode [a] = [b64_char (unat a div 4), b64_char (unat a mod 4 * 16), CHR ''='', CHR ''='']"
| "b64_encode [a, b] = [b64_char (unat a div 4), b64_char (unat a mod 4 * 16 + unat b div 16), b64_char (unat b mod 16 * 4), CHR ''='']"
| "b64_encode (a # b # c # rest) =
     b64_char (unat a div 4) # b64_char (unat a mod 4 * 16 + unat b div 16) # b64_char (unat b mod 16 * 4 + unat c div 64) #
     b64_char (unat c mod 64) # b64_encode rest"

lemma b64_char_value:
  assumes "n < 64"
  shows "b64_value (b64_char n) = Some n" "b64_char n \<noteq> CHR ''=''" "b64_char n \<noteq> CHR 0x0D" "b64_char n \<noteq> CHR 0x0A"
proof -
  have code: "(of_char (b64_char n) :: nat) = (if n < 26 then n + 65 else if n < 52 then n + 71 else if n < 62 then n - 4 else if n = 62 then 43 else 47)"
    using assms by (simp add: b64_char_def)
  show "b64_value (b64_char n) = Some n" unfolding b64_value_def Let_def code using assms by auto
  have "(of_char (b64_char n) :: nat) \<noteq> 61 \<and> (of_char (b64_char n) :: nat) \<noteq> 13 \<and> (of_char (b64_char n) :: nat) \<noteq> 10"
    unfolding code by auto
  then show "b64_char n \<noteq> CHR ''=''" "b64_char n \<noteq> CHR 0x0D" "b64_char n \<noteq> CHR 0x0A" by auto
qed

lemma b64_bits:
  fixes a b c :: byte
  shows "unat a div 4 < 64" "unat a mod 4 * 16 + unat b div 16 < 64" "unat b mod 16 * 4 + unat c div 64 < 64" "unat c mod 64 < 64"
    "unat a mod 4 * 16 < 64" "unat b mod 16 * 4 < 64"
    "of_nat (unat a div 4 * 4 + (unat a mod 4 * 16 + unat b div 16) div 16) = a"
    "of_nat ((unat a mod 4 * 16 + unat b div 16) mod 16 * 16 + (unat b mod 16 * 4 + unat c div 64) div 4) = b"
    "of_nat ((unat b mod 16 * 4 + unat c div 64) mod 4 * 64 + unat c mod 64) = c"
proof -
  have l: "unat a < 256" "unat b < 256" "unat c < 256" by simp_all
  then have d: "unat b div 16 < 16" "unat c div 64 < 4" "unat a div 4 < 64" by linarith+
  show "unat a div 4 < 64" "unat c mod 64 < 64" using d by simp_all
  have m: "unat a mod 4 < 4" "unat b mod 16 < 16" by simp_all
  show "unat a mod 4 * 16 + unat b div 16 < 64" "unat b mod 16 * 4 + unat c div 64 < 64" "unat a mod 4 * 16 < 64" "unat b mod 16 * 4 < 64"
    using d m by linarith+
  have "(unat a mod 4 * 16 + unat b div 16) div 16 = unat a mod 4" "(unat a mod 4 * 16 + unat b div 16) mod 16 = unat b div 16"
    "(unat b mod 16 * 4 + unat c div 64) div 4 = unat b mod 16" "(unat b mod 16 * 4 + unat c div 64) mod 4 = unat c div 64"
    using d by simp_all
  moreover have "unat a div 4 * 4 + unat a mod 4 = unat a" "unat b div 16 * 16 + unat b mod 16 = unat b" "unat c div 64 * 64 + unat c mod 64 = unat c"
    by simp_all
  ultimately show "of_nat (unat a div 4 * 4 + (unat a mod 4 * 16 + unat b div 16) div 16) = a"
    "of_nat ((unat a mod 4 * 16 + unat b div 16) mod 16 * 16 + (unat b mod 16 * 4 + unat c div 64) div 4) = b"
    "of_nat ((unat b mod 16 * 4 + unat c div 64) mod 4 * 64 + unat c mod 64) = c" by simp_all
qed

lemma b64_quads_encode: "b64_quads (b64_encode bytes) = Some bytes"
proof (induction bytes rule: b64_encode.induct)
  case (2 a)
  show ?case using b64_bits(7) [of a 0] by (simp add: b64_char_value b64_bits)
next
  case (3 a b)
  show ?case using b64_bits(7) [of a b] b64_bits(8) [of a b 0] by (simp add: b64_char_value b64_bits)
next
  case (4 a b c rest)
  then show ?case using b64_bits(7) [of a b] b64_bits(8) [of a b c] b64_bits(9) [of b c] by (simp add: b64_char_value b64_bits(1-6))
qed simp

lemma b64_encode_no_breaks: "filter (\<lambda>c. c \<noteq> CHR 0x0D \<and> c \<noteq> CHR 0x0A) (b64_encode bytes) = b64_encode bytes"
proof (induction bytes rule: b64_encode.induct)
  case (2 a)
  show ?case by (simp add: b64_char_value b64_bits)
next
  case (3 a b)
  show ?case by (simp add: b64_char_value b64_bits)
next
  case (4 a b c rest)
  then show ?case by (simp add: b64_char_value b64_bits)
qed simp

text \<open>Every body can be submitted, and arrives as it was: decoding the standard base64 text of any bytes
  gives those bytes back, also when the text is broken into lines anywhere.\<close>

theorem body_base64_roundtrip:
  assumes "filter (\<lambda>c. c \<noteq> CHR 0x0D \<and> c \<noteq> CHR 0x0A) text = b64_encode body"
  shows "DecodeString text = Some body"
  unfolding DecodeString_def assms by (rule b64_quads_encode)

theorem body_base64_roundtrip_witness:
  "DecodeString (''e3'' @ [CHR 0x0A] @ ''0='') = Some [123, 125]"
proof (rule body_base64_roundtrip)
  have "b64_encode [123, 125] = ''e30=''" by code_simp
  then show "filter (\<lambda>c. c \<noteq> CHR 0x0D \<and> c \<noteq> CHR 0x0A) (''e3'' @ [CHR 0x0A] @ ''0='') = b64_encode [123, 125]" by simp
qed

end
