(* ===== verification/Scheduling.thy ===== *)
theory Scheduling
  imports Worker_Store
begin

text \<open>
  \<open>ScheduleDueRetries\<close> and \<open>RecoverExpiredDeliveries\<close> (\<open>internal/delivery/scheduling.go\<close>). Each is
  one SQL statement with data-modifying CTEs, all of which read the snapshot the statement
  starts from; an INSERT that violates a constraint other than its ON CONFLICT target fails
  the whole statement. The n-th \<open>gen_random_uuid()\<close> of the statement is \<open>gen_random_uuid E n\<close>.
\<close>

section \<open>Operations\<close>

text \<open>INSERT INTO outbox_events ... ON CONFLICT (delivery_id, generation) DO NOTHING, with the
  number of rows inserted.\<close>

fun insert_signals :: "env \<Rightarrow> nat \<Rightarrow> (string \<times> int \<times> instant) list \<Rightarrow> db \<Rightarrow> (nat \<times> db) option" where
  "insert_signals E n [] db = Some (0, db)"
| "insert_signals E n ((did, g, available) # rest) db =
     (if (did, g) \<in> event_key ` set (outbox_events db) then insert_signals E (n + 2) rest db
      else case insert_event db (new_event (gen_random_uuid E n) did g (gen_random_uuid E (n + 1)) available
                  (clock_timestamp E)) of
             None \<Rightarrow> None
           | Some db1 \<Rightarrow> map_option (\<lambda>(c, db2). (Suc c, db2)) (insert_signals E (n + 2) rest db1))"

definition retry_expired :: "env \<Rightarrow> delivery_row \<Rightarrow> bool" where
  "retry_expired E r \<longleftrightarrow> d_status r = StatusPending \<and> d_retry_deadline r \<le> statement_timestamp E"

definition expire_row :: "env \<Rightarrow> delivery_row \<Rightarrow> delivery_row" where
  "expire_row E r = r\<lparr>d_status := StatusFailedPermanent, d_updated_at := clock_timestamp E\<rparr>"

definition retry_due :: "env \<Rightarrow> db \<Rightarrow> delivery_row \<Rightarrow> bool" where
  "retry_due E db r \<longleftrightarrow> d_status r = StatusPending \<and> d_generation r > 0 \<and>
     d_next_attempt_at r \<le> clock_timestamp E \<and> d_retry_deadline r > statement_timestamp E \<and>
     (d_id r, d_generation r) \<notin> event_key ` set (outbox_events db)"

definition due_retries :: "env \<Rightarrow> db \<Rightarrow> int \<Rightarrow> delivery_row list" where
  "due_retries E db limit =
     select_limit (retry_due E db) (\<lambda>r. row_locked E (d_id r)) (\<lambda>r. (d_next_attempt_at r, d_created_at r)) limit
       (deliveries db)"

definition ScheduleDueRetries :: "env \<Rightarrow> db \<Rightarrow> int \<Rightarrow> (store_error + nat) \<times> db" where
  "ScheduleDueRetries E db limit =
     (if limit \<le> 0 then (Inl (ErrConfig ''retry schedule limit must be positive''), db)
      else let db1 = db\<lparr>deliveries := update_where (retry_expired E) (expire_row E) (deliveries db)\<rparr>
           in case insert_signals E 0
                (map (\<lambda>r. (d_id r, d_generation r, d_next_attempt_at r)) (due_retries E db limit)) db1 of
                None \<Rightarrow> (Inl (ErrDb ''schedule due retries''), db)
              | Some (n, db2) \<Rightarrow> commit E ''schedule due retries'' db db2 n)"

definition lease_expired :: "env \<Rightarrow> delivery_row \<Rightarrow> bool" where
  "lease_expired E r \<longleftrightarrow> d_status r = StatusDelivering \<and>
     (case d_lease_until r of None \<Rightarrow> False | Some u \<Rightarrow> u \<le> statement_timestamp E)"

definition expired_leases :: "env \<Rightarrow> db \<Rightarrow> int \<Rightarrow> delivery_row list" where
  "expired_leases E db limit =
     select_limit (lease_expired E) (\<lambda>r. row_locked E (d_id r))
       (\<lambda>r. (case d_lease_until r of None \<Rightarrow> 0 | Some u \<Rightarrow> u, d_created_at r)) limit (deliveries db)"

definition recover_row :: "env \<Rightarrow> delivery_row \<Rightarrow> delivery_row" where
  "recover_row E r =
     (let exhausted = d_retry_deadline r \<le> statement_timestamp E in
      r\<lparr>d_status := (if exhausted then StatusFailedPermanent else StatusPending),
        d_generation := (if exhausted then d_generation r else d_generation r + 1),
        d_next_attempt_at := clock_timestamp E, d_lease_owner := None, d_lease_token := None,
        d_lease_until := None, d_updated_at := clock_timestamp E\<rparr>)"

definition recovered_attempt :: "env \<Rightarrow> nat \<Rightarrow> delivery_row \<Rightarrow> attempt_row" where
  "recovered_attempt E n r =
     (let failed = d_status (recover_row E r) = StatusFailedPermanent in
      \<lparr>a_id = gen_random_uuid E n, a_delivery_id = d_id r, a_generation = d_generation r,
       a_lease_token = (case d_lease_token r of None \<Rightarrow> [] | Some t \<Rightarrow> t),
       a_result_class = (if failed then RcPermanentFailure else RcRetryableFailure),
       a_response_status = None,
       a_error_category = Some (if failed then ''retry_deadline_exhausted'' else ''lease_expired''),
       a_started_at = d_updated_at r, a_finished_at = d_updated_at (recover_row E r)\<rparr>)"

fun insert_attempts :: "env \<Rightarrow> nat \<Rightarrow> delivery_row list \<Rightarrow> db \<Rightarrow> db option" where
  "insert_attempts E n [] db = Some db"
| "insert_attempts E n (r # rs) db =
     (case insert_attempt db (recovered_attempt E n r) of
        None \<Rightarrow> None
      | Some db1 \<Rightarrow> insert_attempts E (Suc n) rs db1)"

definition recovered_signals :: "env \<Rightarrow> delivery_row list \<Rightarrow> (string \<times> int \<times> instant) list" where
  "recovered_signals E rs =
     map (\<lambda>r. (d_id r, d_generation r, d_updated_at r))
       (filter (\<lambda>r. d_status r = StatusPending) (map (recover_row E) rs))"

text \<open>The statement: the recovered rows, their attempts, their signals.\<close>

definition recover_statement :: "env \<Rightarrow> delivery_row list \<Rightarrow> db \<Rightarrow> db option" where
  "recover_statement E expired db =
     (let db1 = db\<lparr>deliveries := update_where (\<lambda>r. r \<in> set expired) (recover_row E) (deliveries db)\<rparr>
      in case insert_attempts E 0 expired db1 of
           None \<Rightarrow> None
         | Some db2 \<Rightarrow> map_option snd (insert_signals E (length expired) (recovered_signals E expired) db2))"

definition RecoverExpiredDeliveries :: "env \<Rightarrow> db \<Rightarrow> int \<Rightarrow> (store_error + nat) \<times> db" where
  "RecoverExpiredDeliveries E db limit =
     (if limit \<le> 0 then (Inl (ErrConfig ''lease recovery limit must be positive''), db)
      else if stmt_fails E ''begin expired lease recovery'' then (Inl (ErrDb ''begin expired lease recovery''), db)
      else if stmt_fails E ''recover expired leases'' then (Inl (ErrDb ''recover expired leases''), db)
      else let expired = expired_leases E db limit in
        case recover_statement E expired db of
          None \<Rightarrow> (Inl (ErrDb ''recover expired leases''), db)
        | Some db' \<Rightarrow>
            if stmt_fails E ''scan recovered lease'' then (Inl (ErrDb ''scan recovered lease''), db)
            else if stmt_fails E ''iterate recovered leases'' then (Inl (ErrDb ''iterate recovered leases''), db)
            else commit E ''commit expired lease recovery'' db db' (length expired))"

section \<open>Inserting signals\<close>

abbreviation signal_key :: "string \<times> int \<times> instant \<Rightarrow> string \<times> int" where
  "signal_key s \<equiv> (fst s, fst (snd s))"

text \<open>Every requested signal is there afterwards, the old events stay, and each new one was requested.\<close>

definition signals_added :: "(string \<times> int \<times> instant) list \<Rightarrow> outbox_row list \<Rightarrow> outbox_row list \<Rightarrow> bool" where
  "signals_added sigs old es \<longleftrightarrow>
     event_key ` set (old @ es) = event_key ` set old \<union> signal_key ` set sigs \<and>
     (\<forall>e\<in>set es. o_published_at e = None \<and> (o_delivery_id e, o_generation e, o_available_at e) \<in> set sigs \<and>
        event_key e \<notin> event_key ` set old)"

lemma signals_added_known:
  assumes "(did, g) \<in> event_key ` set old" "signals_added sigs old es"
  shows "signals_added ((did, g, available) # sigs) old es"
proof -
  have eq: "event_key ` set old \<union> signal_key ` set ((did, g, available) # sigs) = event_key ` set old \<union> signal_key ` set sigs"
    using assms(1) unfolding list.set image_insert fst_conv snd_conv by blast
  show ?thesis using assms(2) unfolding signals_added_def eq by auto
qed

lemma signals_added_new:
  assumes "(did, g) \<notin> event_key ` set old" "signals_added sigs (old @ [new_event i did g t available c]) es"
  shows "signals_added ((did, g, available) # sigs) old (new_event i did g t available c # es)"
  using assms by (auto simp: signals_added_def)

lemma insert_signals_added:
  assumes "insert_signals E n sigs db = Some (c, db')"
  shows "\<exists>es. db' = db\<lparr>outbox_events := outbox_events db @ es\<rparr> \<and> length es = c \<and> signals_added sigs (outbox_events db) es"
  using assms
proof (induction E n sigs db arbitrary: c db' rule: insert_signals.induct)
  case (1 E n db)
  then show ?case by (auto simp: signals_added_def)
next
  case (2 E n did g available rest db)
  show ?case
  proof (cases "(did, g) \<in> event_key ` set (outbox_events db)")
    case True
    with 2(1) [OF True, of c db'] 2(3) show ?thesis using signals_added_known [OF True] by fastforce
  next
    case False
    let ?e = "new_event (gen_random_uuid E n) did g (gen_random_uuid E (n + 1)) available (clock_timestamp E)"
    from False 2(3) obtain db1 c1 where ins: "insert_event db ?e = Some db1"
      and rest: "insert_signals E (n + 2) rest db1 = Some (c1, db')" "c = Suc c1"
      by (auto split: option.splits)
    have db1: "db1 = db\<lparr>outbox_events := outbox_events db @ [?e]\<rparr>" using insert_event_Some [OF ins] by simp
    from 2(2) [OF False ins rest(1)] obtain es where es: "db' = db1\<lparr>outbox_events := outbox_events db1 @ es\<rparr>"
      "length es = c1" "signals_added rest (outbox_events db1) es" by blast
    have "signals_added ((did, g, available) # rest) (outbox_events db) (?e # es)"
      by (rule signals_added_new [OF False]) (use es(3) in \<open>simp add: db1\<close>)
    with es(1,2) rest(2) show ?thesis by (intro exI [of _ "?e # es"]) (simp add: db1)
  qed
qed

lemma insert_signals_events:
  assumes "insert_signals E n sigs db = Some (c, db')"
  obtains es where "db' = db\<lparr>outbox_events := outbox_events db @ es\<rparr>" "length es = c"
    "event_key ` set (outbox_events db @ es) = event_key ` set (outbox_events db) \<union> signal_key ` set sigs"
    "\<forall>e\<in>set es. o_published_at e = None \<and> (o_delivery_id e, o_generation e, o_available_at e) \<in> set sigs \<and>
       event_key e \<notin> event_key ` set (outbox_events db)"
  using insert_signals_added [OF assms] unfolding signals_added_def by blast

lemma insert_signals_ok:
  assumes "schema_ok db" "protocol_ok db" "insert_signals E n sigs db = Some (c, db')"
    and "\<And>d g t r. (d, g, t) \<in> set sigs \<Longrightarrow> r \<in> set (deliveries db) \<Longrightarrow> d_id r = d \<Longrightarrow> g \<le> d_generation r"
  shows "schema_ok db' \<and> protocol_ok db'"
  using assms
proof (induction E n sigs db arbitrary: c rule: insert_signals.induct)
  case (2 E n did g available rest db)
  show ?case
  proof (cases "(did, g) \<in> event_key ` set (outbox_events db)")
    case True
    with 2 show ?thesis by (auto intro!: 2(1))
  next
    case False
    let ?e = "new_event (gen_random_uuid E n) did g (gen_random_uuid E (n + 1)) available (clock_timestamp E)"
    from False 2(5) obtain db1 c1 where ins: "insert_event db ?e = Some db1"
      and rest: "insert_signals E (n + 2) rest db1 = Some (c1, db')"
      by (auto split: option.splits)
    have "deliveries db1 = deliveries db" using insert_event_Some [OF ins] by simp
    moreover have "schema_ok db1" using 2(3) ins by (rule schema_ok_insert_event)
    moreover have "protocol_ok db1" using 2(4) ins by (rule protocol_ok_insert_event) (use 2(6) in auto)
    ultimately show ?thesis by (intro 2(2) [OF False ins _ _ rest]) (auto intro: 2(6))
  qed
qed simp

section \<open>The scheduler keeps the invariant\<close>

lemma expire_row_legal: "db_inv db \<Longrightarrow> legal_update (retry_expired E) (expire_row E) db"
  by (erule legal_updateI) (simp add: retry_expired_def expire_row_def row_step_defs)

lemma retry_dueD:
  assumes "r \<in> set (due_retries E db limit)"
  shows "r \<in> set (deliveries db)" "retry_due E db r" "\<not> row_locked E (d_id r)"
  using select_limitD [OF assms [unfolded due_retries_def]] by simp_all

abbreviation scheduled :: "env \<Rightarrow> db \<Rightarrow> db" where
  "scheduled E db \<equiv> db\<lparr>deliveries := update_where (retry_expired E) (expire_row E) (deliveries db)\<rparr>"

abbreviation due_signals :: "env \<Rightarrow> db \<Rightarrow> int \<Rightarrow> (string \<times> int \<times> instant) list" where
  "due_signals E db limit \<equiv> map (\<lambda>r. (d_id r, d_generation r, d_next_attempt_at r)) (due_retries E db limit)"

lemma expire_row_simps [simp]:
  "d_id (expire_row E r) = d_id r" "d_generation (expire_row E r) = d_generation r"
  "d_status (expire_row E r) = StatusFailedPermanent"
  by (simp_all add: expire_row_def)

lemma good_step_schedule:
  assumes inv: "db_inv db" and ins: "insert_signals E 0 (due_signals E db limit) (scheduled E db) = Some (n, db')"
  shows "good_step db db'"
proof -
  note legal = expire_row_legal [OF inv, of E]
  have one: "schema_ok (scheduled E db)" "protocol_ok (scheduled E db)"
    using inv legal by (auto simp: db_inv_def schema_ok_update_deliveries protocol_ok_update_deliveries)
  have "schema_ok db' \<and> protocol_ok db'"
  proof (rule insert_signals_ok [OF one ins])
    fix d g t x assume s: "(d, g, t) \<in> set (due_signals E db limit)" and x: "x \<in> set (deliveries (scheduled E db))" "d_id x = d"
    from s obtain r where r: "r \<in> set (due_retries E db limit)" "d = d_id r" "g = d_generation r" by auto
    from x(1) legal obtain r0 where "r0 \<in> set (deliveries db)" "evolves r0 x" by (auto elim: in_legal_update)
    moreover from this have "r0 = r"
      using delivery_row_unique [OF inv _ retry_dueD(1) [OF r(1)]] x(2) r(2) by (metis evolves_id)
    ultimately show "g \<le> d_generation x" using r(3) evolves_generation by blast
  qed
  moreover from ins obtain es where db': "db' = (scheduled E db)\<lparr>outbox_events := outbox_events (scheduled E db) @ es\<rparr>"
    by (rule insert_signals_events)
  have "success_recorded (scheduled E db)"
    using inv by (intro success_recorded_update_deliveries [OF _ legal]) (auto simp: db_inv_def)
  then have "success_recorded db'" by (rule success_recorded_mono) (simp_all add: db')
  moreover have "db_evolves db db'" by (rule db_evolves_update [OF legal]) (simp_all add: db')
  ultimately show ?thesis by (simp add: good_step_def db_inv_def)
qed

lemma ScheduleDueRetries_good: "db_inv db \<Longrightarrow> good_step db (snd (ScheduleDueRetries E db limit))"
  by (auto simp: ScheduleDueRetries_def Let_def good_step_refl split: option.split
      intro!: good_step_commit intro: good_step_schedule)

section \<open>Lease recovery keeps the invariant\<close>

lemma expired_leasesD:
  assumes "r \<in> set (expired_leases E db limit)"
  shows "r \<in> set (deliveries db)" "lease_expired E r" "\<not> row_locked E (d_id r)"
  using select_limitD [OF assms [unfolded expired_leases_def]] by simp_all

lemma distinct_expired_leases: "db_inv db \<Longrightarrow> distinct (map d_id (expired_leases E db limit))"
  unfolding expired_leases_def
  by (rule distinct_select_limit) (simp add: db_inv_def schema_ok_def deliveries_ok_def)

lemma recovered_attempt_simps [simp]:
  "a_delivery_id (recovered_attempt E n r) = d_id r" "a_generation (recovered_attempt E n r) = d_generation r"
  "a_result_class (recovered_attempt E n r) \<noteq> RcSucceeded"
  by (simp_all add: recovered_attempt_def Let_def)

lemma d_id_recover_row [simp]: "d_id (recover_row E r) = d_id r"
  by (simp add: recover_row_def Let_def)

lemma recover_row_bound:
  "if active_status (d_status (recover_row E r)) then d_generation r < d_generation (recover_row E r)
   else d_generation r \<le> d_generation (recover_row E r)"
  by (simp add: recover_row_def Let_def)

lemma insert_attempts_rows:
  assumes "insert_attempts E n rs db = Some db'"
  obtains as where "db' = db\<lparr>delivery_attempts := delivery_attempts db @ as\<rparr>" "length as = length rs"
    "\<forall>i<length rs. as ! i = recovered_attempt E (n + i) (rs ! i)"
  using assms
proof (induction rs arbitrary: n db thesis)
  case (Cons r rs)
  from Cons(3) obtain db1 where ins: "insert_attempt db (recovered_attempt E n r) = Some db1"
    "insert_attempts E (Suc n) rs db1 = Some db'" by (auto split: option.splits)
  from Cons(1) [OF _ ins(2)] obtain as where as: "db' = db1\<lparr>delivery_attempts := delivery_attempts db1 @ as\<rparr>"
    "length as = length rs" "\<forall>i<length rs. as ! i = recovered_attempt E (Suc n + i) (rs ! i)" by blast
  show ?case
  proof (rule Cons(2))
    show "db' = db\<lparr>delivery_attempts := delivery_attempts db @ recovered_attempt E n r # as\<rparr>"
      using as(1) insert_attempt_Some [OF ins(1)] by simp
  qed (use as in \<open>auto simp: nth_Cons split: nat.split\<close>)
qed simp

lemma insert_attempts_ok:
  assumes "schema_ok db" "protocol_ok db" "insert_attempts E n rs db = Some db'" "distinct (map d_id rs)"
    and "\<And>r x. r \<in> set rs \<Longrightarrow> x \<in> set (deliveries db) \<Longrightarrow> d_id x = d_id r \<Longrightarrow>
      (if active_status (d_status x) then d_generation r < d_generation x else d_generation r \<le> d_generation x)"
    and "\<And>r a. r \<in> set rs \<Longrightarrow> a \<in> set (delivery_attempts db) \<Longrightarrow> a_delivery_id a = d_id r \<Longrightarrow> a_generation a < d_generation r"
  shows "schema_ok db' \<and> protocol_ok db'"
  using assms
proof (induction rs arbitrary: n db)
  case (Cons r rs)
  from Cons(4) obtain db1 where ins: "insert_attempt db (recovered_attempt E n r) = Some db1"
    "insert_attempts E (Suc n) rs db1 = Some db'" by (auto split: option.splits)
  note db1 = insert_attempt_Some [OF ins(1)]
  have "schema_ok db1" using Cons(2) ins(1) by (rule schema_ok_insert_attempt)
  moreover have "protocol_ok db1"
    using Cons(3) ins(1)
  proof (rule protocol_ok_insert_attempt)
    show "(a_delivery_id (recovered_attempt E n r), a_generation (recovered_attempt E n r))
        \<notin> (\<lambda>a. (a_delivery_id a, a_generation a)) ` set (delivery_attempts db)"
      using Cons(7) [of r] by force
  qed (use Cons(6) [of r] in auto)
  ultimately show ?case
  proof (rule Cons.IH [OF _ _ ins(2)])
    show "distinct (map d_id rs)" using Cons(5) by simp
    show "if active_status (d_status x) then d_generation q < d_generation x else d_generation q \<le> d_generation x"
      if "q \<in> set rs" "x \<in> set (deliveries db1)" "d_id x = d_id q" for q x
      using that by (intro Cons(6)) (auto simp: db1)
    show "a_generation a < d_generation q"
      if q: "q \<in> set rs" "a \<in> set (delivery_attempts db1)" "a_delivery_id a = d_id q" for q a
    proof (cases "a = recovered_attempt E n r")
      case True
      with q(1,3) Cons(5) show ?thesis by (metis distinct.simps(2) imageI list.set_map list.simps(9) recovered_attempt_simps(1))
    next
      case False
      with q show ?thesis by (intro Cons(7)) (auto simp: db1)
    qed
  qed
qed simp

lemma recover_row_legal: "db_inv db \<Longrightarrow> legal_update (\<lambda>r. r \<in> set (expired_leases E db limit)) (recover_row E) db"
  by (erule legal_updateI) (auto dest!: expired_leasesD(2) simp: lease_expired_def recover_row_def Let_def row_step_defs)

lemma good_step_recover:
  assumes inv: "db_inv db" and rec: "recover_statement E (expired_leases E db limit) db = Some db'"
  shows "good_step db db'"
proof -
  let ?X = "expired_leases E db limit"
  let ?db1 = "db\<lparr>deliveries := update_where (\<lambda>r. r \<in> set ?X) (recover_row E) (deliveries db)\<rparr>"
  note legal = recover_row_legal [OF inv, of E limit]
  from rec obtain db2 c where att: "insert_attempts E 0 ?X ?db1 = Some db2"
    and sig: "insert_signals E (length ?X) (recovered_signals E ?X) db2 = Some (c, db')"
    by (auto simp: recover_statement_def Let_def split: option.splits)
  have one: "schema_ok ?db1" "protocol_ok ?db1"
    using inv legal by (auto simp: db_inv_def schema_ok_update_deliveries protocol_ok_update_deliveries)
  from att obtain as where db2: "db2 = ?db1\<lparr>delivery_attempts := delivery_attempts ?db1 @ as\<rparr>" by (rule insert_attempts_rows)
  from sig obtain es where db': "db' = db2\<lparr>outbox_events := outbox_events db2 @ es\<rparr>" by (rule insert_signals_events)
  have rows: "x = recover_row E r" if "r \<in> set ?X" "x \<in> set (deliveries ?db1)" "d_id x = d_id r" for r x
    by (rule updated_row_unique [where p = "\<lambda>r. r \<in> set ?X", OF inv expired_leasesD(1) [OF that(1)] that(1)]) (use that in simp_all)
  have two: "schema_ok db2 \<and> protocol_ok db2"
  proof (rule insert_attempts_ok [OF one att distinct_expired_leases [OF inv]])
    show "if active_status (d_status x) then d_generation r < d_generation x else d_generation r \<le> d_generation x"
      if "r \<in> set ?X" "x \<in> set (deliveries ?db1)" "d_id x = d_id r" for r x
      using recover_row_bound [of E r] rows [OF that] by simp
    show "a_generation a < d_generation r"
      if "r \<in> set ?X" "a \<in> set (delivery_attempts ?db1)" "a_delivery_id a = d_id r" for r a
      using that delivering_unattempted [OF inv expired_leasesD(1)] expired_leasesD(2) by (auto simp: lease_expired_def)
  qed
  have "schema_ok db' \<and> protocol_ok db'"
  proof (rule insert_signals_ok [OF two [THEN conjunct1] two [THEN conjunct2] sig])
    fix d g t x assume s: "(d, g, t) \<in> set (recovered_signals E ?X)" and x: "x \<in> set (deliveries db2)" "d_id x = d"
    from s obtain r where "r \<in> set ?X" "d = d_id r" "g = d_generation (recover_row E r)"
      by (auto simp: recovered_signals_def)
    with rows [of r x] x show "g \<le> d_generation x" by (simp add: db2)
  qed
  moreover have "success_recorded ?db1"
    using inv by (intro success_recorded_update_deliveries [OF _ legal]) (auto simp: db_inv_def recover_row_def Let_def split: if_splits)
  then have "success_recorded db'" by (rule success_recorded_mono) (auto simp: db' db2)
  moreover have "db_evolves db db'" by (rule db_evolves_update [OF legal]) (auto simp: db' db2)
  ultimately show ?thesis by (simp add: good_step_def db_inv_def)
qed

lemma RecoverExpiredDeliveries_good: "db_inv db \<Longrightarrow> good_step db (snd (RecoverExpiredDeliveries E db limit))"
  by (auto simp: RecoverExpiredDeliveries_def Let_def good_step_refl split: option.split
      intro!: good_step_commit intro: good_step_recover)

interpretation schedule: store_operation "\<lambda>E limit db. ScheduleDueRetries E db limit"
  by unfold_locales (rule ScheduleDueRetries_good)

interpretation recover: store_operation "\<lambda>E limit db. RecoverExpiredDeliveries E db limit"
  by unfold_locales (rule RecoverExpiredDeliveries_good)

section \<open>What the scheduler creates\<close>

lemma insert_signals_count: "insert_signals E n sigs db = Some (c, db') \<Longrightarrow> c \<le> length sigs"
  by (induction E n sigs db arbitrary: c db' rule: insert_signals.induct) (fastforce split: if_splits option.splits)+

lemma ScheduleDueRetries_Inr:
  assumes "ScheduleDueRetries E db limit = (Inr n, db')"
  obtains es where "db' = (scheduled E db)\<lparr>outbox_events := outbox_events db @ es\<rparr>" "length es = n" "int n \<le> limit"
    "event_key ` set (outbox_events db') =
       event_key ` set (outbox_events db) \<union> (\<lambda>r. (d_id r, d_generation r)) ` set (due_retries E db limit)"
    "\<forall>e\<in>set es. o_published_at e = None \<and> (\<exists>r\<in>set (due_retries E db limit).
       event_key e = (d_id r, d_generation r) \<and> o_available_at e = d_next_attempt_at r)"
proof -
  from assms have limit: "limit > 0"
    and "\<exists>m d. insert_signals E 0 (due_signals E db limit) (scheduled E db) = Some (m, d) \<and>
      commit E ''schedule due retries'' db d m = (Inr n, db')"
    unfolding ScheduleDueRetries_def Let_def guard_Inr by auto
  then have ins: "insert_signals E 0 (due_signals E db limit) (scheduled E db) = Some (n, db')"
    by (auto simp: commit_def split: if_splits)
  have "length (due_retries E db limit) \<le> nat limit" unfolding due_retries_def by (rule length_select_limit)
  with insert_signals_count [OF ins] limit have n: "int n \<le> limit" by simp
  from ins obtain es where es: "db' = (scheduled E db)\<lparr>outbox_events := outbox_events (scheduled E db) @ es\<rparr>" "length es = n"
    "event_key ` set (outbox_events (scheduled E db) @ es) =
       event_key ` set (outbox_events (scheduled E db)) \<union> signal_key ` set (due_signals E db limit)"
    "\<forall>e\<in>set es. o_published_at e = None \<and> (o_delivery_id e, o_generation e, o_available_at e) \<in> set (due_signals E db limit) \<and>
       event_key e \<notin> event_key ` set (outbox_events (scheduled E db))"
    by (rule insert_signals_events)
  show thesis
  proof (rule that [OF _ es(2) n])
    show "event_key ` set (outbox_events db') =
       event_key ` set (outbox_events db) \<union> (\<lambda>r. (d_id r, d_generation r)) ` set (due_retries E db limit)"
      using es(1,3) by (simp add: image_image)
  qed (use es in auto)
qed

lemma due_retries_all:
  assumes "int (count_where (\<lambda>r. retry_due E db r \<and> \<not> row_locked E (d_id r)) (deliveries db)) \<le> limit"
  shows "set (due_retries E db limit) = {r \<in> set (deliveries db). retry_due E db r \<and> \<not> row_locked E (d_id r)}"
  unfolding due_retries_def by (rule select_limit_all [OF assms])

text \<open>C14. One successful scheduler run that has room for every due retry on a row not locked by another
  transaction leaves exactly one Outbox event for the current generation of each, the new ones available from the next attempt time, and creates no event for anything else;
  it fails exactly the pending deliveries whose retry deadline has passed and changes no other
  delivery, so it never advances a generation.\<close>

theorem scheduler_signals_due_retries:
  assumes "db_inv db" "ScheduleDueRetries E db limit = (Inr n, db')"
    and "int (count_where (\<lambda>r. retry_due E db r \<and> \<not> row_locked E (d_id r)) (deliveries db)) \<le> limit"
  shows "(\<forall>r\<in>set (deliveries db). retry_due E db r \<and> \<not> row_locked E (d_id r) \<longrightarrow>
       (\<exists>!e. e \<in> set (outbox_events db') \<and> event_key e = (d_id r, d_generation r))) \<and>
     (\<exists>es. outbox_events db' = outbox_events db @ es \<and> length es = n \<and>
        (\<forall>e\<in>set es. o_published_at e = None \<and> (\<exists>r\<in>set (deliveries db). retry_due E db r \<and>
           event_key e = (d_id r, d_generation r) \<and> o_available_at e = d_next_attempt_at r))) \<and>
     deliveries db' = map (\<lambda>r. if d_status r = StatusPending \<and> d_retry_deadline r \<le> statement_timestamp E
        then r\<lparr>d_status := StatusFailedPermanent, d_updated_at := clock_timestamp E\<rparr> else r) (deliveries db)"
proof -
  from assms(2) obtain es where es: "db' = (scheduled E db)\<lparr>outbox_events := outbox_events db @ es\<rparr>" "length es = n"
    "event_key ` set (outbox_events db') =
       event_key ` set (outbox_events db) \<union> (\<lambda>r. (d_id r, d_generation r)) ` set (due_retries E db limit)"
    "\<forall>e\<in>set es. o_published_at e = None \<and> (\<exists>r\<in>set (due_retries E db limit).
       event_key e = (d_id r, d_generation r) \<and> o_available_at e = d_next_attempt_at r)"
    by (rule ScheduleDueRetries_Inr)
  have "db_inv db'" using schedule.call_inv [OF assms(1), of E limit] assms(2) by simp
  then have uniq: "distinct (map event_key (outbox_events db'))" by (simp add: db_inv_def schema_ok_def outbox_ok_def)
  have "\<exists>!e. e \<in> set (outbox_events db') \<and> event_key e = (d_id r, d_generation r)"
    if "r \<in> set (deliveries db)" "retry_due E db r \<and> \<not> row_locked E (d_id r)" for r
  proof -
    have "r \<in> set (due_retries E db limit)" unfolding due_retries_all [OF assms(3)] using that by simp
    then have "(d_id r, d_generation r) \<in> event_key ` set (outbox_events db')" unfolding es(3) by blast
    then show ?thesis using distinct_map_in_eq [OF uniq] by (smt (verit) imageE)
  qed
  moreover have "\<exists>r\<in>set (deliveries db). retry_due E db r \<and> event_key e = (d_id r, d_generation r) \<and>
      o_available_at e = d_next_attempt_at r" if "e \<in> set es" for e
    using es(4) that retry_dueD(1,2) by metis
  moreover have "outbox_events db' = outbox_events db @ es" by (simp add: es(1))
  moreover have "deliveries db' = map (\<lambda>r. if d_status r = StatusPending \<and> d_retry_deadline r \<le> statement_timestamp E
        then r\<lparr>d_status := StatusFailedPermanent, d_updated_at := clock_timestamp E\<rparr> else r) (deliveries db)"
    by (simp add: es(1) update_where_def retry_expired_def expire_row_def)
  ultimately show ?thesis using es(2,4) by blast
qed

lemma demo_schedule: "ScheduleDueRetries (quiet_env 10) demo_db 100 =
    (Inr 1, snd (ScheduleDueRetries (quiet_env 10) demo_db 100))"
  by code_simp

theorem scheduler_signals_due_retries_witness:
  "\<exists>!e. e \<in> set (outbox_events (snd (ScheduleDueRetries (quiet_env 10) demo_db 100))) \<and> event_key e = (''r'', 1)"
proof -
  have "int (count_where (\<lambda>r. retry_due (quiet_env 10) demo_db r \<and> \<not> row_locked (quiet_env 10) (d_id r)) (deliveries demo_db)) \<le> 100"
    by code_simp
  note run = scheduler_signals_due_retries [OF demo_db_inv demo_schedule this]
  have "demo_delivery ''r'' ''kr'' StatusPending 1 \<in> set (deliveries demo_db)"
    "retry_due (quiet_env 10) demo_db (demo_delivery ''r'' ''kr'' StatusPending 1) \<and>
     \<not> row_locked (quiet_env 10) (d_id (demo_delivery ''r'' ''kr'' StatusPending 1))" by code_simp+
  with conjunct1 [OF run]
  have "\<exists>!e. e \<in> set (outbox_events (snd (ScheduleDueRetries (quiet_env 10) demo_db 100))) \<and>
    event_key e = (d_id (demo_delivery ''r'' ''kr'' StatusPending 1), d_generation (demo_delivery ''r'' ''kr'' StatusPending 1))"
    by blast
  then show ?thesis by (simp add: demo_delivery_def)
qed

text \<open>The scheduler is idempotent: a second run at the same time, on any replica, adds no event and
  changes no delivery.\<close>

theorem scheduler_idempotent:
  assumes "db_inv db" "ScheduleDueRetries E db limit = (Inr n, db')"
    and "int (count_where (retry_due E db) (deliveries db)) \<le> limit" "\<And>i. \<not> row_locked E i"
    and "fault_free E'" "statement_timestamp E' = statement_timestamp E" "clock_timestamp E' = clock_timestamp E"
    and "limit' > 0"
  shows "ScheduleDueRetries E' db' limit' = (Inr 0, db')"
proof -
  from assms(2) obtain es where es: "db' = (scheduled E db)\<lparr>outbox_events := outbox_events db @ es\<rparr>"
    "event_key ` set (outbox_events db') =
       event_key ` set (outbox_events db) \<union> (\<lambda>r. (d_id r, d_generation r)) ` set (due_retries E db limit)"
    by (rule ScheduleDueRetries_Inr)
  have due: "set (due_retries E db limit) = {r \<in> set (deliveries db). retry_due E db r}"
    using due_retries_all [of E db limit] assms(3,4) by simp
  have rows: "r \<in> set (deliveries db) \<and> \<not> retry_expired E r" if "r \<in> set (deliveries db')" "d_status r = StatusPending" for r
  proof -
    have "r \<in> set (update_where (retry_expired E) (expire_row E) (deliveries db))" using that(1) by (simp add: es(1))
    then show ?thesis using that(2) by (cases rule: in_update_whereE) simp_all
  qed
  have "\<not> retry_expired E' r" if "r \<in> set (deliveries db')" for r
    using rows [OF that] assms(6) by (auto simp: retry_expired_def)
  then have none: "scheduled E' db' = db'" by (simp add: update_where_none)
  have "\<not> retry_due E' db' r" if r: "r \<in> set (deliveries db')" for r
  proof
    assume d: "retry_due E' db' r"
    then have "r \<in> set (deliveries db)" using rows [OF r] by (simp add: retry_due_def)
    moreover have "retry_due E db r" using d assms(6,7) es(2) by (auto simp: retry_due_def)
    ultimately have "(d_id r, d_generation r) \<in> event_key ` set (outbox_events db')"
      unfolding es(2) due by blast
    with d show False by (simp add: retry_due_def)
  qed
  then have "due_retries E' db' limit' = []"
    unfolding due_retries_def select_limit_def by (simp add: filter_empty_conv)
  then show ?thesis using none assms(5,8) by (simp add: ScheduleDueRetries_def Let_def)
qed

theorem scheduler_idempotent_witness:
  "ScheduleDueRetries (quiet_env 10) (snd (ScheduleDueRetries (quiet_env 10) demo_db 100)) 5 =
     (Inr 0, snd (ScheduleDueRetries (quiet_env 10) demo_db 100))"
proof -
  have "int (count_where (retry_due (quiet_env 10) demo_db) (deliveries demo_db)) \<le> 100" by code_simp
  moreover have "\<And>i. \<not> row_locked (quiet_env 10) i" by (simp add: quiet_env_def)
  ultimately show ?thesis
    using scheduler_idempotent [OF demo_db_inv demo_schedule, of "quiet_env 10" 5] by simp
qed

section \<open>What recovery does to an expired lease\<close>

lemma RecoverExpiredDeliveries_Inr:
  assumes "RecoverExpiredDeliveries E db limit = (Inr n, db')"
  obtains as es where
    "db' = db\<lparr>deliveries := update_where (\<lambda>r. r \<in> set (expired_leases E db limit)) (recover_row E) (deliveries db),
       delivery_attempts := delivery_attempts db @ as, outbox_events := outbox_events db @ es\<rparr>"
    "\<forall>r\<in>set (expired_leases E db limit). \<exists>i. recovered_attempt E i r \<in> set as"
    "event_key ` set (outbox_events db @ es) = event_key ` set (outbox_events db) \<union>
       signal_key ` set (recovered_signals E (expired_leases E db limit))"
    "\<forall>e\<in>set es. o_published_at e = None" "n = length (expired_leases E db limit)"
proof -
  let ?X = "expired_leases E db limit"
  let ?db1 = "db\<lparr>deliveries := update_where (\<lambda>r. r \<in> set ?X) (recover_row E) (deliveries db)\<rparr>"
  from assms have rec: "recover_statement E ?X db = Some db'" "n = length ?X"
    unfolding RecoverExpiredDeliveries_def Let_def guard_Inr by (auto simp: commit_def split: if_splits)
  from rec(1) obtain db2 c where att: "insert_attempts E 0 ?X ?db1 = Some db2"
    and sig: "insert_signals E (length ?X) (recovered_signals E ?X) db2 = Some (c, db')"
    by (auto simp: recover_statement_def Let_def split: option.splits)
  from att obtain as where as: "db2 = ?db1\<lparr>delivery_attempts := delivery_attempts ?db1 @ as\<rparr>" "length as = length ?X"
    "\<forall>i<length ?X. as ! i = recovered_attempt E (0 + i) (?X ! i)" by (rule insert_attempts_rows)
  from sig obtain es where es: "db' = db2\<lparr>outbox_events := outbox_events db2 @ es\<rparr>"
    "event_key ` set (outbox_events db2 @ es) = event_key ` set (outbox_events db2) \<union> signal_key ` set (recovered_signals E ?X)"
    "\<forall>e\<in>set es. o_published_at e = None \<and> (o_delivery_id e, o_generation e, o_available_at e) \<in> set (recovered_signals E ?X) \<and>
      event_key e \<notin> event_key ` set (outbox_events db2)" by (rule insert_signals_events)
  have "\<exists>i. recovered_attempt E i r \<in> set as" if "r \<in> set ?X" for r
    using that as(2,3) by (metis in_set_conv_nth)
  then show thesis using es by (intro that) (auto simp: as(1) rec(2))
qed

lemma expired_leases_all:
  assumes "int (count_where (\<lambda>r. lease_expired E r \<and> \<not> row_locked E (d_id r)) (deliveries db)) \<le> limit"
  shows "set (expired_leases E db limit) = {r \<in> set (deliveries db). lease_expired E r \<and> \<not> row_locked E (d_id r)}"
  unfolding expired_leases_def by (rule select_limit_all [OF assms])

lemma recovered_signal_in:
  assumes "r \<in> set rs" "\<not> d_retry_deadline r \<le> statement_timestamp E"
  shows "(d_id r, d_generation r + 1, clock_timestamp E) \<in> set (recovered_signals E rs)"
  unfolding recovered_signals_def set_map set_filter
  by (rule image_eqI [where x = "recover_row E r"]) (use assms in \<open>auto simp: recover_row_def Let_def\<close>)

text \<open>A recovered delivery left the state every result of its old claim needs.\<close>

lemma recovered_fences:
  assumes "db_inv db'" "recover_row E r \<in> set (deliveries db')" "ar_DeliveryID result = d_id r"
  shows "completeResult E' db' result cls next \<noteq> (Inr (), x)"
proof
  assume "completeResult E' db' result cls next = (Inr (), x)"
  then obtain q where q: "q \<in> set (deliveries db')" "fenced (clock_timestamp E') result cls next q"
    by (rule completeResult_Inr)
  then have "q = recover_row E r"
    using delivery_row_unique [OF assms(1) q(1) assms(2)] assms(3) by (simp add: fenced_def)
  with q(2) show False by (simp add: fenced_def recover_row_def Let_def split: if_splits)
qed

text \<open>C13. Recovery of an expired lease, in a successful run with room for all those on rows that no other transaction
  has locked: the delivery loses its lease and, unless its retry deadline has
  passed, becomes pending in the next generation with an unpublished Outbox event for it (otherwise
  it fails permanently); the lost attempt is recorded; no result of the Worker that held the lease,
  nor any other result for the delivery, can be recorded on the recovered state, whatever the clocks
  say; and no delivery whose lease still runs is touched.\<close>

theorem recovery_requeues_and_fences:
  assumes "db_inv db" "RecoverExpiredDeliveries E db limit = (Inr n, db')"
    and "int (count_where (\<lambda>r. lease_expired E r \<and> \<not> row_locked E (d_id r)) (deliveries db)) \<le> limit"
    and "r \<in> set (deliveries db)" "lease_expired E r" "\<not> row_locked E (d_id r)"
  shows "(\<exists>r'\<in>set (deliveries db'). d_id r' = d_id r \<and> d_lease_token r' = None \<and>
       (if d_retry_deadline r \<le> statement_timestamp E
        then d_status r' = StatusFailedPermanent \<and> d_generation r' = d_generation r
        else d_status r' = StatusPending \<and> d_generation r' = d_generation r + 1 \<and>
          (\<exists>e\<in>set (outbox_events db'). event_key e = (d_id r, d_generation r + 1) \<and> o_published_at e = None))) \<and>
     (\<exists>a\<in>set (delivery_attempts db'). a_delivery_id a = d_id r \<and> a_generation a = d_generation r \<and> a_result_class a \<noteq> RcSucceeded) \<and>
     (\<forall>E' result cls next x. ar_DeliveryID result = d_id r \<longrightarrow> completeResult E' db' result cls next \<noteq> (Inr (), x)) \<and>
     (\<forall>q\<in>set (deliveries db). \<not> lease_expired E q \<longrightarrow> q \<in> set (deliveries db'))"
proof -
  let ?X = "expired_leases E db limit"
  from assms(2) obtain as es where db': "db' = db\<lparr>deliveries := update_where (\<lambda>r. r \<in> set ?X) (recover_row E) (deliveries db),
       delivery_attempts := delivery_attempts db @ as, outbox_events := outbox_events db @ es\<rparr>"
    and as: "\<forall>r\<in>set ?X. \<exists>i. recovered_attempt E i r \<in> set as"
    and keys: "event_key ` set (outbox_events db @ es) = event_key ` set (outbox_events db) \<union> signal_key ` set (recovered_signals E ?X)"
    and es: "\<forall>e\<in>set es. o_published_at e = None"
    by (rule RecoverExpiredDeliveries_Inr)
  have rX: "r \<in> set ?X" using assms(3-6) expired_leases_all by simp
  have inv': "db_inv db'" using recover.call_inv [OF assms(1), of E limit] assms(2) by simp
  have row: "recover_row E r \<in> set (deliveries db')" using assms(4) rX by (auto simp: db' set_update_where)
  have "\<exists>e\<in>set (outbox_events db'). event_key e = (d_id r, d_generation r + 1) \<and> o_published_at e = None"
    if "\<not> d_retry_deadline r \<le> statement_timestamp E"
  proof -
    have "(d_id r, d_generation r + 1) \<in> signal_key ` set (recovered_signals E ?X)"
      using image_eqI [OF _ recovered_signal_in [OF rX that], of _ signal_key] by simp
    moreover have "(d_id r, d_generation r + 1) \<notin> event_key ` set (outbox_events db)"
      using assms(1,4) by (fastforce simp: db_inv_def protocol_ok_def events_not_ahead_def)
    ultimately have "(d_id r, d_generation r + 1) \<in> event_key ` set es"
      using keys by (metis (no_types, lifting) UnCI UnE image_Un set_append)
    then show ?thesis using es by (force simp: db')
  qed
  then have "\<exists>r'\<in>set (deliveries db'). d_id r' = d_id r \<and> d_lease_token r' = None \<and>
       (if d_retry_deadline r \<le> statement_timestamp E
        then d_status r' = StatusFailedPermanent \<and> d_generation r' = d_generation r
        else d_status r' = StatusPending \<and> d_generation r' = d_generation r + 1 \<and>
          (\<exists>e\<in>set (outbox_events db'). event_key e = (d_id r, d_generation r + 1) \<and> o_published_at e = None))"
    using row by (intro bexI [OF _ row]) (simp add: recover_row_def Let_def)
  moreover have "\<exists>a\<in>set (delivery_attempts db'). a_delivery_id a = d_id r \<and> a_generation a = d_generation r \<and> a_result_class a \<noteq> RcSucceeded"
    using as rX recovered_attempt_simps by (fastforce simp: db')
  moreover have "q \<in> set (deliveries db')" if "q \<in> set (deliveries db)" "\<not> lease_expired E q" for q
    using that expired_leasesD(2) by (force simp: db' set_update_where)
  ultimately show ?thesis using recovered_fences [OF inv' row] by blast
qed

theorem recovery_requeues_and_fences_witness:
  "\<exists>r'\<in>set (deliveries (snd (RecoverExpiredDeliveries (quiet_env 95) demo_db 10))).
     d_id r' = ''d'' \<and> d_status r' = StatusPending \<and> d_generation r' = 1"
proof -
  have run: "RecoverExpiredDeliveries (quiet_env 95) demo_db 10 =
    (Inr 1, snd (RecoverExpiredDeliveries (quiet_env 95) demo_db 10))" by code_simp
  have "int (count_where (\<lambda>r. lease_expired (quiet_env 95) r \<and> \<not> row_locked (quiet_env 95) (d_id r)) (deliveries demo_db)) \<le> 10"
    "demo_delivery ''d'' ''kd'' StatusDelivering 0 \<in> set (deliveries demo_db)"
    "lease_expired (quiet_env 95) (demo_delivery ''d'' ''kd'' StatusDelivering 0)"
    "\<not> row_locked (quiet_env 95) (d_id (demo_delivery ''d'' ''kd'' StatusDelivering 0))" by code_simp+
  from recovery_requeues_and_fences [OF demo_db_inv run this, THEN conjunct1] show ?thesis
    by (auto simp: demo_delivery_def quiet_env_def)
qed

end
