(* ===== verification/Maintenance.thy ===== *)
theory Maintenance
  imports Outbox Scheduling
begin

text \<open>
  Reconciliation of stalled signals, retention and the operational snapshot
  (\<open>internal/delivery/maintenance.go\<close>). Deleting a delivery deletes its Outbox events, attempts and
  replay audits with it (ON DELETE CASCADE). The floating-point ages of the snapshot are exact
  rationals.
\<close>

section \<open>Operations\<close>

definition stalled :: "env \<Rightarrow> db \<Rightarrow> int \<Rightarrow> outbox_row \<Rightarrow> bool" where
  "stalled E db watchdogMs e \<longleftrightarrow>
     (let threshold = clock_timestamp E - watchdogMs * Millisecond in
      list_ex (\<lambda>r. d_id r = o_delivery_id e \<and> d_generation r = o_generation e \<and> d_status r = StatusPending \<and>
          d_next_attempt_at r \<le> clock_timestamp E \<and> d_retry_deadline r > statement_timestamp E) (deliveries db) \<and>
      (case o_published_at e of None \<Rightarrow> False | Some p \<Rightarrow> p \<le> threshold) \<and>
      (case o_observed_at e of None \<Rightarrow> True | Some p \<Rightarrow> p \<le> threshold) \<and>
      o_lease_owner e = None \<and> o_lease_token e = None \<and> o_lease_until e = None)"

definition stalled_signals :: "env \<Rightarrow> db \<Rightarrow> int \<Rightarrow> int \<Rightarrow> outbox_row list" where
  "stalled_signals E db watchdogMs limit =
     select_limit (stalled E db watchdogMs) (\<lambda>e. row_locked E (o_id e))
       (\<lambda>e. (case o_published_at e of None \<Rightarrow> 0 | Some p \<Rightarrow> p, o_created_at e)) limit (outbox_events db)"

definition republish_event :: "env \<Rightarrow> outbox_row list \<Rightarrow> outbox_row \<Rightarrow> outbox_row" where
  "republish_event E candidates e =
     e\<lparr>o_trace_id := gen_random_uuid E (length (takeWhile (\<lambda>c. o_id c \<noteq> o_id e) candidates)),
       o_available_at := clock_timestamp E, o_published_at := None, o_observed_at := None\<rparr>"

definition ReconcileStalledSignals :: "env \<Rightarrow> db \<Rightarrow> duration \<Rightarrow> int \<Rightarrow> (store_error + nat) \<times> db" where
  "ReconcileStalledSignals E db watchdog limit =
     (if watchdog \<le> 0 \<or> limit \<le> 0
      then (Inl (ErrConfig ''signal reconciliation requires a positive watchdog and limit''), db)
      else let candidates = stalled_signals E db (Milliseconds watchdog) limit;
               p = (\<lambda>e. o_id e \<in> o_id ` set candidates \<and> o_published_at e \<noteq> None)
           in commit E ''reconcile stalled delivery signals'' db
                (db\<lparr>outbox_events := update_where p (republish_event E candidates) (outbox_events db)\<rparr>)
                (count_where p (outbox_events db)))"

definition retention_expired :: "env \<Rightarrow> int \<Rightarrow> int \<Rightarrow> delivery_row \<Rightarrow> bool" where
  "retention_expired E successMs failureMs r \<longleftrightarrow>
     (d_status r = StatusSucceeded \<and> d_updated_at r \<le> clock_timestamp E - successMs * Millisecond) \<or>
     (d_status r = StatusFailedPermanent \<and> d_updated_at r \<le> clock_timestamp E - failureMs * Millisecond)"

definition expired_terminal :: "env \<Rightarrow> db \<Rightarrow> int \<Rightarrow> int \<Rightarrow> int \<Rightarrow> delivery_row list" where
  "expired_terminal E db successMs failureMs limit =
     select_limit (retention_expired E successMs failureMs) (\<lambda>r. row_locked E (d_id r))
       (\<lambda>r. (d_updated_at r, d_created_at r)) limit (deliveries db)"

text \<open>DELETE FROM deliveries with its cascades.\<close>

definition delete_deliveries :: "(delivery_row \<Rightarrow> bool) \<Rightarrow> db \<Rightarrow> db" where
  "delete_deliveries p db =
     (let gone = (\<lambda>i. list_ex (\<lambda>r. d_id r = i \<and> p r) (deliveries db)) in
      db\<lparr>deliveries := filter (\<lambda>r. \<not> p r) (deliveries db),
         outbox_events := filter (\<lambda>e. \<not> gone (o_delivery_id e)) (outbox_events db),
         delivery_attempts := filter (\<lambda>a. \<not> gone (a_delivery_id a)) (delivery_attempts db),
         replay_audits := filter (\<lambda>x. \<not> gone (r_delivery_id x)) (replay_audits db)\<rparr>)"

definition DeleteExpiredTerminal :: "env \<Rightarrow> db \<Rightarrow> duration \<Rightarrow> duration \<Rightarrow> int \<Rightarrow> (store_error + nat) \<times> db" where
  "DeleteExpiredTerminal E db successRetention failureRetention limit =
     (if successRetention \<le> 0 \<or> failureRetention \<le> 0 \<or> limit \<le> 0
      then (Inl (ErrConfig ''retention durations and limit must be positive''), db)
      else let expired = expired_terminal E db (Milliseconds successRetention) (Milliseconds failureRetention) limit;
               p = (\<lambda>r. d_id r \<in> d_id ` set expired \<and> (d_status r = StatusSucceeded \<or> d_status r = StatusFailedPermanent))
           in commit E ''delete expired terminal deliveries'' db (delete_deliveries p db) (count_where p (deliveries db)))"

record OperationalSnapshot =
  os_OldestPendingSeconds :: rat
  os_OldestOutboxSeconds :: rat
  os_ExpiredLeases :: nat
  os_PermanentFailures :: nat
  os_ResultClasses :: "(result_class, nat) go_map"

text \<open>\<open>COALESCE(GREATEST(0, EXTRACT(EPOCH FROM now - MIN(t))), 0)\<close>.\<close>

definition oldest_seconds :: "instant \<Rightarrow> instant list \<Rightarrow> rat" where
  "oldest_seconds now ts =
     (case ts of [] \<Rightarrow> 0 | t # ts' \<Rightarrow> max 0 (of_int (now - fold min ts' t) / of_int Second))"

definition class_counts :: "attempt_row list \<Rightarrow> (result_class, nat) go_map" where
  "class_counts as =
     filter (\<lambda>(c, n). n > 0) (map (\<lambda>c. (c, count_where (\<lambda>a. a_result_class a = c) as))
       [RcSucceeded, RcRetryableFailure, RcPermanentFailure])"

definition OperationalMetrics :: "env \<Rightarrow> db \<Rightarrow> store_error + OperationalSnapshot" where
  "OperationalMetrics E db =
     (let now = clock_timestamp E in
      if stmt_fails E ''read operational delivery metrics'' then Inl (ErrDb ''read operational delivery metrics'')
      else case find (stmt_fails E) [''read delivery result metrics'', ''scan delivery result metrics'', ''iterate delivery result metrics''] of
        Some msg \<Rightarrow> Inl (ErrDb msg)
      | None \<Rightarrow> Inr
         \<lparr>os_OldestPendingSeconds = oldest_seconds now (map d_next_attempt_at
            (filter (\<lambda>r. d_status r = StatusPending \<and> d_next_attempt_at r \<le> now) (deliveries db))),
          os_OldestOutboxSeconds = oldest_seconds now (map o_available_at
            (filter (\<lambda>e. o_published_at e = None) (outbox_events db))),
          os_ExpiredLeases = count_where (\<lambda>r. d_status r = StatusDelivering \<and>
            (case d_lease_until r of None \<Rightarrow> False | Some u \<Rightarrow> u \<le> now)) (deliveries db),
          os_PermanentFailures = count_where (\<lambda>r. d_status r = StatusFailedPermanent) (deliveries db),
          os_ResultClasses = class_counts (delivery_attempts db)\<rparr>)"

section \<open>The operations keep the invariant\<close>

lemma ReconcileStalledSignals_good: "db_inv db \<Longrightarrow> good_step db (snd (ReconcileStalledSignals E db w limit))"
  by (auto simp: ReconcileStalledSignals_def Let_def good_step_refl legal_event_update_def republish_event_def
      outbox_check_def intro!: good_step_commit good_step_update_events)

lemma delete_deliveries_simps [simp]:
  "deliveries (delete_deliveries p db) = filter (\<lambda>r. \<not> p r) (deliveries db)"
  "destination_versions (delete_deliveries p db) = destination_versions db"
  "callers (delete_deliveries p db) = callers db" "destinations (delete_deliveries p db) = destinations db"
  "caller_destinations (delete_deliveries p db) = caller_destinations db"
  by (simp_all add: delete_deliveries_def Let_def)

lemma has_delivery_delete:
  assumes "db_inv db"
  shows "has_delivery (delete_deliveries p db) i \<longleftrightarrow>
    has_delivery db i \<and> \<not> list_ex (\<lambda>r. d_id r = i \<and> p r) (deliveries db)"
  using delivery_row_unique [OF assms] by (force simp: has_delivery_def list_ex_iff)

lemma schema_ok_delete:
  assumes "db_inv db"
  shows "schema_ok (delete_deliveries p db)"
proof -
  let ?db' = "delete_deliveries p db"
  have sub: "deliveries ?db' = filter (\<lambda>r. \<not> p r) (deliveries db)" by simp
  have fk: "delivery_fk ?db' = delivery_fk db" by (simp add: delivery_fk_def fun_eq_iff)
  have s: "schema_ok db" using assms by (simp add: db_inv_def)
  then have "config_ok ?db'" by (simp add: schema_ok_def config_ok_def)
  moreover have "deliveries_ok ?db'"
    using s unfolding schema_ok_def deliveries_ok_def fk sub by (auto simp: list_all_iff intro: distinct_map_filter)
  moreover have "outbox_ok ?db'" "attempts_ok ?db'" "audits_ok ?db'"
    using s has_delivery_delete [OF assms, of p]
    by (auto simp: schema_ok_def outbox_ok_def attempts_ok_def audits_ok_def delete_deliveries_def Let_def list_all_iff
        intro: distinct_map_filter)
  ultimately show ?thesis by (simp add: schema_ok_def)
qed

lemma accepted_signalledD:
  assumes "accepted_signalled db" "r \<in> set (deliveries db)" "d_status r = StatusPending \<and> d_generation r = 0"
  shows "(d_id r, 0) \<in> event_key ` set (outbox_events db)"
proof -
  from assms(1,2) have "d_status r = StatusPending \<and> d_generation r = 0 \<longrightarrow> (d_id r, 0) \<in> event_key ` set (outbox_events db)"
    unfolding accepted_signalled_def by (rule bspec)
  then show ?thesis using assms(3) by (rule mp)
qed

lemma protocol_ok_delete:
  assumes "db_inv db"
  shows "protocol_ok (delete_deliveries p db)"
proof -
  let ?db' = "delete_deliveries p db"
  have pr: "protocol_ok db" using assms by (simp add: db_inv_def)
  have "events_not_ahead ?db'" "attempts_behind ?db'" "audits_not_ahead ?db'" "attempts_unique ?db'"
    using pr by (auto simp: protocol_defs delete_deliveries_def Let_def intro: distinct_map_filter)
  moreover have "accepted_signalled ?db'"
    unfolding accepted_signalled_def
  proof (intro ballI impI)
    fix r assume r: "r \<in> set (deliveries ?db')" "d_status r = StatusPending \<and> d_generation r = 0"
    from r(1) have "r \<in> set (deliveries db)" by simp
    have "accepted_signalled db" using pr by (simp add: protocol_ok_def)
    then have "(d_id r, 0) \<in> event_key ` set (outbox_events db)"
      using \<open>r \<in> set (deliveries db)\<close> r(2) by (rule accepted_signalledD)
    then obtain e where e: "(d_id r, 0) = event_key e" "e \<in> set (outbox_events db)" by (rule imageE)
    moreover have "\<not> list_ex (\<lambda>q. d_id q = d_id r \<and> p q) (deliveries db)"
      using r(1) delivery_row_unique [OF assms] by (auto simp: list_ex_iff)
    ultimately have "e \<in> set (outbox_events ?db')" by (simp add: delete_deliveries_def Let_def)
    with e(1) show "(d_id r, 0) \<in> event_key ` set (outbox_events ?db')" by (rule image_eqI)
  qed
  ultimately show ?thesis by (simp add: protocol_ok_def)
qed

lemma good_step_delete:
  assumes inv: "db_inv db" and terminal: "\<And>r. r \<in> set (deliveries db) \<Longrightarrow> p r \<Longrightarrow> \<not> active_status (d_status r)"
  shows "good_step db (delete_deliveries p db)"
proof -
  let ?db' = "delete_deliveries p db"
  have keep: "a \<in> set (delivery_attempts ?db')" if "a \<in> set (delivery_attempts db)" "has_delivery ?db' (a_delivery_id a)" for a
    using that has_delivery_delete [OF inv] by (simp add: delete_deliveries_def Let_def)
  have gone: "\<not> has_delivery ?db' (d_id r)" if "r \<in> set (deliveries db)" "p r" for r
    using that has_delivery_delete [OF inv] by (auto simp: list_ex_iff)
  have "success_recorded ?db'"
    unfolding success_recorded_def
  proof (intro ballI impI)
    fix r assume r: "r \<in> set (deliveries ?db')" "d_status r = StatusSucceeded"
    then obtain a where a: "a \<in> set (delivery_attempts db)" "a_delivery_id a = d_id r \<and> a_generation a = d_generation r \<and>
        a_result_class a = RcSucceeded"
      using inv by (auto simp: db_inv_def success_recorded_def)
    moreover have "has_delivery ?db' (d_id r)" using r(1) unfolding has_delivery_def by (rule imageI)
    ultimately show "\<exists>a\<in>set (delivery_attempts ?db'). a_delivery_id a = d_id r \<and> a_generation a = d_generation r \<and>
        a_result_class a = RcSucceeded" using keep [of a] by auto
  qed
  moreover have "db_evolves db ?db'"
    unfolding db_evolves_def
  proof (intro conjI ballI impI)
    fix r assume r: "r \<in> set (deliveries db)"
    show "(\<exists>r'\<in>set (deliveries ?db'). evolves r r') \<or> (\<not> active_status (d_status r) \<and> \<not> has_delivery ?db' (d_id r))"
      using r gone [OF r] terminal [OF r] by (cases "p r") (auto intro: bexI [of _ r])
  next
    fix r' assume "r' \<in> set (deliveries ?db')"
    then show "(\<exists>r\<in>set (deliveries db). evolves r r') \<or>
        (\<not> has_delivery db (d_id r') \<and> d_status r' = StatusPending \<and> d_generation r' = 0)" by (auto intro: bexI [of _ r'])
  qed (use keep in auto)
  ultimately show ?thesis
    using schema_ok_delete [OF inv] protocol_ok_delete [OF inv] by (simp add: good_step_def db_inv_def)
qed

lemma DeleteExpiredTerminal_good: "db_inv db \<Longrightarrow> good_step db (snd (DeleteExpiredTerminal E db s f limit))"
  by (auto simp: DeleteExpiredTerminal_def Let_def good_step_refl intro!: good_step_commit good_step_delete)

interpretation reconcile: store_operation "\<lambda>E (watchdog, limit) db. ReconcileStalledSignals E db watchdog limit"
  by unfold_locales (auto simp: ReconcileStalledSignals_good)

interpretation retention: store_operation "\<lambda>E (success, failure, limit) db. DeleteExpiredTerminal E db success failure limit"
  by unfold_locales (auto simp: DeleteExpiredTerminal_good)

section \<open>Reconciliation\<close>

lemma stalled_published: "stalled E db w e \<Longrightarrow> o_published_at e \<noteq> None"
  unfolding stalled_def Let_def by (cases "o_published_at e") auto

lemma stalled_signals_all:
  assumes "int (count_where (\<lambda>e. stalled E db w e \<and> \<not> row_locked E (o_id e)) (outbox_events db)) \<le> limit"
  shows "set (stalled_signals E db w limit) = {e \<in> set (outbox_events db). stalled E db w e \<and> \<not> row_locked E (o_id e)}"
  unfolding stalled_signals_def by (rule select_limit_all [OF assms])

text \<open>C17. A successful reconciliation run with room for all stalled signals on unlocked rows makes each of them (the event of a due,
  current-generation pending delivery, published and unobserved for the watchdog interval) claimable
  by the publisher again under the same event identity, changes no other event, and leaves the
  deliveries, their generations included, as they are.\<close>

theorem reconcile_republishes_stalled:
  assumes "db_inv db" "ReconcileStalledSignals E db watchdog limit = (Inr n, db')"
    and "int (count_where (\<lambda>e. stalled E db (Milliseconds watchdog) e \<and> \<not> row_locked E (o_id e)) (outbox_events db)) \<le> limit"
  shows "deliveries db' = deliveries db \<and> length (outbox_events db') = length (outbox_events db) \<and>
    (\<forall>e\<in>set (outbox_events db).
       if stalled E db (Milliseconds watchdog) e \<and> \<not> row_locked E (o_id e)
       then \<exists>e'\<in>set (outbox_events db'). o_id e' = o_id e \<and> event_key e' = event_key e \<and> outbox_claimable (clock_timestamp E) e'
       else e \<in> set (outbox_events db'))"
proof -
  let ?C = "stalled_signals E db (Milliseconds watchdog) limit"
  let ?p = "\<lambda>e. o_id e \<in> o_id ` set ?C \<and> o_published_at e \<noteq> None"
  from assms(2) have "commit E ''reconcile stalled delivery signals'' db
      (db\<lparr>outbox_events := update_where ?p (republish_event E ?C) (outbox_events db)\<rparr>) (count_where ?p (outbox_events db)) = (Inr n, db')"
    unfolding ReconcileStalledSignals_def Let_def guard_Inr by simp
  then have db': "db' = db\<lparr>outbox_events := update_where ?p (republish_event E ?C) (outbox_events db)\<rparr>"
    by (auto simp: commit_def split: if_splits)
  have sel: "?p e \<longleftrightarrow> stalled E db (Milliseconds watchdog) e \<and> \<not> row_locked E (o_id e)" if "e \<in> set (outbox_events db)" for e
    using that outbox_row_unique [OF assms(1)] stalled_published unfolding stalled_signals_all [OF assms(3)] by blast
  have hit: "\<exists>e'\<in>set (outbox_events db'). o_id e' = o_id e \<and> event_key e' = event_key e \<and> outbox_claimable (clock_timestamp E) e'"
    if e: "e \<in> set (outbox_events db)" "?p e" "stalled E db (Milliseconds watchdog) e" for e
  proof (rule bexI)
    show "republish_event E ?C e \<in> set (outbox_events db')" using e(1,2) by (auto simp: db' set_update_where)
    show "o_id (republish_event E ?C e) = o_id e \<and> event_key (republish_event E ?C e) = event_key e \<and>
        outbox_claimable (clock_timestamp E) (republish_event E ?C e)"
      using e(3) by (simp add: republish_event_def outbox_claimable_def stalled_def Let_def)
  qed
  have miss: "e \<in> set (outbox_events db')" if "e \<in> set (outbox_events db)" "\<not> ?p e" for e
    using that by (force simp: db' set_update_where)
  have "deliveries db' = deliveries db" "length (outbox_events db') = length (outbox_events db)" by (simp_all add: db')
  then show ?thesis using hit miss sel unfolding if_bool_eq_conj by (intro conjI ballI impI) blast+
qed

definition stalled_demo :: db where
  "stalled_demo = demo_db\<lparr>outbox_events := update_where (\<lambda>e. o_id e = ''ep'') (publish_event 0) (outbox_events demo_db)\<rparr>"

theorem reconcile_republishes_stalled_witness:
  "\<exists>e'\<in>set (outbox_events (snd (ReconcileStalledSignals (quiet_env (120 * Second)) stalled_demo Minute 10))).
     o_id e' = ''ep'' \<and> outbox_claimable (120 * Second) e'"
proof -
  have run: "ReconcileStalledSignals (quiet_env (120 * Second)) stalled_demo Minute 10 =
    (Inr 1, snd (ReconcileStalledSignals (quiet_env (120 * Second)) stalled_demo Minute 10))" by code_simp
  have inv: "db_inv stalled_demo" by code_simp
  have room: "int (count_where (\<lambda>e. stalled (quiet_env (120 * Second)) stalled_demo (Milliseconds Minute) e \<and>
      \<not> row_locked (quiet_env (120 * Second)) (o_id e)) (outbox_events stalled_demo)) \<le> 10" by code_simp
  let ?e = "publish_event 0 (new_event ''ep'' ''p'' 0 ''tp'' 0 0)"
  have "?e \<in> set (outbox_events stalled_demo)"
    "stalled (quiet_env (120 * Second)) stalled_demo (Milliseconds Minute) ?e \<and> \<not> row_locked (quiet_env (120 * Second)) (o_id ?e)"
    by code_simp+
  with reconcile_republishes_stalled [OF inv run room]
  have "\<exists>e'\<in>set (outbox_events (snd (ReconcileStalledSignals (quiet_env (120 * Second)) stalled_demo Minute 10))).
     o_id e' = o_id ?e \<and> outbox_claimable (clock_timestamp (quiet_env (120 * Second))) e'" by metis
  then show ?thesis by (simp add: publish_event_def quiet_env_def)
qed

section \<open>Retention\<close>

lemma DeleteExpiredTerminal_Inr:
  assumes inv: "db_inv db" and "DeleteExpiredTerminal E db s f limit = (Inr n, db')"
  defines "X \<equiv> set (expired_terminal E db (Milliseconds s) (Milliseconds f) limit)"
  shows "db' = delete_deliveries (\<lambda>r. d_id r \<in> d_id ` X \<and> (d_status r = StatusSucceeded \<or> d_status r = StatusFailedPermanent)) db"
    "\<And>r. r \<in> set (deliveries db) \<Longrightarrow> r \<in> set (deliveries db') \<longleftrightarrow> r \<notin> X"
    "n = length (deliveries db) - length (deliveries db')" "n = card X" "int n \<le> limit"
proof -
  let ?p = "\<lambda>r. d_id r \<in> d_id ` X \<and> (d_status r = StatusSucceeded \<or> d_status r = StatusFailedPermanent)"
  from assms(2) have limit: "limit > 0" and c: "commit E ''delete expired terminal deliveries'' db (delete_deliveries ?p db)
      (count_where ?p (deliveries db)) = (Inr n, db')"
    unfolding DeleteExpiredTerminal_def Let_def guard_Inr X_def by simp_all
  then show db': "db' = delete_deliveries ?p db" by (auto simp: commit_def split: if_splits)
  from c have n: "n = count_where ?p (deliveries db)" by (auto simp: commit_def split: if_splits)
  have XD: "r \<in> set (deliveries db) \<and> retention_expired E (Milliseconds s) (Milliseconds f) r" if "r \<in> X" for r
    using that unfolding X_def expired_terminal_def by (blast dest: select_limitD)
  have sel: "?p r \<longleftrightarrow> r \<in> X" if "r \<in> set (deliveries db)" for r
    using delivery_row_unique [OF inv that] XD by (auto simp: retention_expired_def)
  then show "\<And>r. r \<in> set (deliveries db) \<Longrightarrow> r \<in> set (deliveries db') \<longleftrightarrow> r \<notin> X"
    unfolding db' delete_deliveries_simps set_filter mem_Collect_eq by blast
  show "n = length (deliveries db) - length (deliveries db')"
    using sum_length_filter_compl [of ?p "deliveries db"] by (simp add: n count_where_def db')
  have "filter ?p (deliveries db) = filter (\<lambda>r. r \<in> X) (deliveries db)" using sel by (intro filter_cong) auto
  moreover have "distinct (deliveries db)"
    using inv by (auto simp: db_inv_def schema_ok_def deliveries_ok_def distinct_map)
  ultimately show card: "n = card X"
    using XD unfolding n count_where_def by (simp add: distinct_card [symmetric]) (metis (mono_tags, lifting) Collect_mem_eq Collect_cong)
  have "card X \<le> length (expired_terminal E db (Milliseconds s) (Milliseconds f) limit)" unfolding X_def by (rule card_length)
  also have "\<dots> \<le> nat limit" unfolding expired_terminal_def by (rule length_select_limit)
  finally show "int n \<le> limit" using limit card by simp
qed

text \<open>C18. Retention deletes only terminal deliveries whose retention has passed, at most \<open>limit\<close> of them,
  and reports how many; every pending or delivering delivery and every younger terminal one stays with
  all its attempts, events and audits, and nothing that belonged to a deleted delivery stays behind.\<close>

theorem retention_deletes_only_expired:
  assumes "db_inv db" "DeleteExpiredTerminal E db success failure limit = (Inr n, db')"
  shows "(\<forall>r\<in>set (deliveries db). r \<notin> set (deliveries db') \<longrightarrow>
       \<not> active_status (d_status r) \<and> retention_expired E (Milliseconds success) (Milliseconds failure) r) \<and>
     set (deliveries db') \<subseteq> set (deliveries db) \<and>
     set (outbox_events db') = {e \<in> set (outbox_events db). has_delivery db' (o_delivery_id e)} \<and>
     set (delivery_attempts db') = {a \<in> set (delivery_attempts db). has_delivery db' (a_delivery_id a)} \<and>
     set (replay_audits db') = {x \<in> set (replay_audits db). has_delivery db' (r_delivery_id x)} \<and>
     n = length (deliveries db) - length (deliveries db') \<and> int n \<le> limit"
proof -
  let ?X = "set (expired_terminal E db (Milliseconds success) (Milliseconds failure) limit)"
  note del = DeleteExpiredTerminal_Inr [OF assms]
  have "\<not> active_status (d_status r) \<and> retention_expired E (Milliseconds success) (Milliseconds failure) r"
    if "r \<in> set (deliveries db)" "r \<notin> set (deliveries db')" for r
  proof -
    have "r \<in> ?X" using that del(2) by blast
    then have "retention_expired E (Milliseconds success) (Milliseconds failure) r"
      unfolding expired_terminal_def by (blast dest: select_limitD)
    then show ?thesis by (auto simp: retention_expired_def)
  qed
  moreover have "has_delivery db' i \<longleftrightarrow> has_delivery db i \<and> \<not> list_ex (\<lambda>r. d_id r = i \<and> d_id r \<in> d_id ` ?X \<and>
      (d_status r = StatusSucceeded \<or> d_status r = StatusFailedPermanent)) (deliveries db)" for i
    unfolding del(1) by (rule has_delivery_delete [OF assms(1)])
  then have "set (outbox_events db') = {e \<in> set (outbox_events db). has_delivery db' (o_delivery_id e)}"
    "set (delivery_attempts db') = {a \<in> set (delivery_attempts db). has_delivery db' (a_delivery_id a)}"
    "set (replay_audits db') = {x \<in> set (replay_audits db). has_delivery db' (r_delivery_id x)}"
    using assms(1) unfolding del(1)
    by (auto simp: delete_deliveries_def Let_def db_inv_def schema_ok_def outbox_ok_def attempts_ok_def audits_ok_def list_all_iff)
  ultimately show ?thesis using del(3,5) by (simp add: del(1) subset_iff)
qed

theorem retention_deletes_only_expired_witness:
  "demo_delivery ''p'' ''kp'' StatusPending 0 \<in> set (deliveries (snd (DeleteExpiredTerminal (quiet_env (999 * Hour)) demo_db Hour Hour 10)))
   \<and> demo_delivery ''f'' ''kf'' StatusFailedPermanent 0 \<notin> set (deliveries (snd (DeleteExpiredTerminal (quiet_env (999 * Hour)) demo_db Hour Hour 10)))"
proof -
  have run: "DeleteExpiredTerminal (quiet_env (999 * Hour)) demo_db Hour Hour 10 =
    (Inr 1, snd (DeleteExpiredTerminal (quiet_env (999 * Hour)) demo_db Hour Hour 10))" by code_simp
  have "demo_delivery ''p'' ''kp'' StatusPending 0 \<in> set (deliveries demo_db)"
    "active_status (d_status (demo_delivery ''p'' ''kp'' StatusPending 0))" by code_simp+
  moreover have "demo_delivery ''f'' ''kf'' StatusFailedPermanent 0 \<notin>
    set (deliveries (snd (DeleteExpiredTerminal (quiet_env (999 * Hour)) demo_db Hour Hour 10)))" by code_simp
  ultimately show ?thesis using retention_deletes_only_expired [OF demo_db_inv run] by blast
qed

section \<open>The operational snapshot\<close>

lemma fold_min_le: "t \<in> set (x # xs) \<Longrightarrow> fold min xs x \<le> (t :: int)"
  unfolding Min.set_eq_fold [symmetric] by (rule Min_le) simp_all

lemma count_where_mono: "(\<And>r. p r \<Longrightarrow> q r) \<Longrightarrow> count_where p rs \<le> count_where q rs"
  by (induction rs) (auto simp: count_where_def)

lemma oldest_seconds_lower: "t \<in> set ts \<Longrightarrow> of_int (now - t) / of_int Second \<le> oldest_seconds now ts"
proof -
  assume t: "t \<in> set ts"
  then obtain x xs where ts: "ts = x # xs" by (cases ts) auto
  have "now - t \<le> now - fold min xs x" using fold_min_le t ts by auto
  then have "(of_int (now - t) :: rat) \<le> of_int (now - fold min xs x)" by (simp only: of_int_le_iff)
  then have "(of_int (now - t) :: rat) / of_int Second \<le> of_int (now - fold min xs x) / of_int Second"
    by (rule divide_right_mono) simp
  then show ?thesis unfolding oldest_seconds_def ts by (simp add: le_max_iff_disj)
qed

text \<open>The operational snapshot misses nothing an operator alerts on: an overdue pending delivery and
  an unpublished event each show with at least their age, a lease that the reconciler would find
  expired is counted, and the result-class counters add up to the recorded attempts.\<close>

theorem operational_snapshot_complete:
  assumes "OperationalMetrics E db = Inr s"
  shows "(\<forall>r\<in>set (deliveries db). d_status r = StatusPending \<and> d_next_attempt_at r \<le> clock_timestamp E \<longrightarrow>
       of_int (clock_timestamp E - d_next_attempt_at r) / of_int Second \<le> os_OldestPendingSeconds s) \<and>
     (\<forall>e\<in>set (outbox_events db). o_published_at e = None \<longrightarrow>
       of_int (clock_timestamp E - o_available_at e) / of_int Second \<le> os_OldestOutboxSeconds s) \<and>
     (statement_timestamp E \<le> clock_timestamp E \<longrightarrow>
       count_where (lease_expired E) (deliveries db) \<le> os_ExpiredLeases s) \<and>
     sum_list (map snd (os_ResultClasses s)) = length (delivery_attempts db)"
proof -
  let ?now = "clock_timestamp E"
  from assms have s: "s = \<lparr>os_OldestPendingSeconds = oldest_seconds ?now (map d_next_attempt_at
            (filter (\<lambda>r. d_status r = StatusPending \<and> d_next_attempt_at r \<le> ?now) (deliveries db))),
          os_OldestOutboxSeconds = oldest_seconds ?now (map o_available_at
            (filter (\<lambda>e. o_published_at e = None) (outbox_events db))),
          os_ExpiredLeases = count_where (\<lambda>r. d_status r = StatusDelivering \<and>
            (case d_lease_until r of None \<Rightarrow> False | Some u \<Rightarrow> u \<le> ?now)) (deliveries db),
          os_PermanentFailures = count_where (\<lambda>r. d_status r = StatusFailedPermanent) (deliveries db),
          os_ResultClasses = class_counts (delivery_attempts db)\<rparr>"
    by (simp add: OperationalMetrics_def Let_def split: if_splits option.splits)
  have "count_where (lease_expired E) (deliveries db) \<le> os_ExpiredLeases s" if "statement_timestamp E \<le> ?now"
    unfolding s using that by (auto intro!: count_where_mono simp: lease_expired_def split: option.splits)
  moreover have "sum_list (map snd (class_counts as)) = length as" for as
  proof (induction as)
    case (Cons a as)
    then show ?case by (cases "a_result_class a") (auto simp: class_counts_def count_where_def split: if_splits)
  qed (simp add: class_counts_def count_where_def)
  ultimately show ?thesis
    using oldest_seconds_lower by (fastforce simp: s)
qed

theorem operational_snapshot_complete_witness:
  "1 \<le> os_ExpiredLeases (projr (OperationalMetrics (quiet_env 95) demo_db))"
proof -
  have "OperationalMetrics (quiet_env 95) demo_db = Inr (projr (OperationalMetrics (quiet_env 95) demo_db))"
    by (simp add: OperationalMetrics_def Let_def quiet_env_def)
  note complete = operational_snapshot_complete [OF this]
  have "statement_timestamp (quiet_env 95) \<le> clock_timestamp (quiet_env 95)" by (simp add: quiet_env_def)
  moreover have "count_where (lease_expired (quiet_env 95)) (deliveries demo_db) = 1" by code_simp
  ultimately show ?thesis using complete by auto
qed

end
