(* ===== verification/System.thy ===== *)
theory System
  imports Outbox Maintenance Replay
begin

text \<open>
  The store as a state machine: API processes, publishers, Workers, the scheduler, the reconciler,
  retention and operators all act on one database, in any order and number. A step is one store
  call under any environment (any fault, any clock, any lock); the states reachable from a
  provisioned database without deliveries satisfy the invariant, and every delivery moves only
  along the protocol.
\<close>

section \<open>Steps\<close>

inductive store_step :: "db \<Rightarrow> db \<Rightarrow> bool" where
  step_submit: "store_step db (snd (Submit E store db submission))"
| step_bootstrap: "store_step db (snd (Bootstrap E sha256 db config))"
| step_claim_outbox: "store_step db (snd (ClaimOutbox E db owner lease limit))"
| step_mark: "store_step db (snd (MarkOutboxPublished E db event))"
| step_release: "store_step db (snd (ReleaseOutbox E db event))"
| step_observe: "store_step db (snd (ObserveSignal E db i g))"
| step_claim: "store_step db (snd (ClaimDelivery E db i g owner lease))"
| step_success: "store_step db (snd (CompleteSuccess E db result))"
| step_retry: "store_step db (snd (CompleteRetry E db result t))"
| step_permanent: "store_step db (snd (CompletePermanent E db result))"
| step_schedule: "store_step db (snd (ScheduleDueRetries E db limit))"
| step_recover: "store_step db (snd (RecoverExpiredDeliveries E db limit))"
| step_reconcile: "store_step db (snd (ReconcileStalledSignals E db watchdog limit))"
| step_retention: "store_step db (snd (DeleteExpiredTerminal E db success failure limit))"
| step_replay: "store_step db (snd (Replay E db deliveryID operatorID reason))"

text \<open>Provisioned: callers, destinations and grants in place, no delivery yet.\<close>

definition provisioned :: "db \<Rightarrow> bool" where
  "provisioned db \<longleftrightarrow> config_ok db \<and> deliveries db = [] \<and> outbox_events db = [] \<and> delivery_attempts db = [] \<and>
     replay_audits db = []"

inductive reachable :: "db \<Rightarrow> bool" where
  reach_init: "provisioned db \<Longrightarrow> reachable db"
| reach_step: "reachable db \<Longrightarrow> store_step db db' \<Longrightarrow> reachable db'"

lemma complete_good:
  "db_inv db \<Longrightarrow> good_step db (snd (CompleteSuccess E db result))"
  "db_inv db \<Longrightarrow> good_step db (snd (CompleteRetry E db result t))"
  "db_inv db \<Longrightarrow> good_step db (snd (CompletePermanent E db result))"
  by (simp_all add: CompleteSuccess_def CompleteRetry_def CompletePermanent_def completeResult_good)

lemmas operations_good = Submit_good Bootstrap_good ClaimOutbox_good MarkOutboxPublished_good ReleaseOutbox_good
  ObserveSignal_good ClaimDelivery_good complete_good ScheduleDueRetries_good RecoverExpiredDeliveries_good
  ReconcileStalledSignals_good DeleteExpiredTerminal_good Replay_good

lemma store_step_good: "store_step db db' \<Longrightarrow> db_inv db \<Longrightarrow> good_step db db'"
  by (induction rule: store_step.induct) (simp_all add: operations_good)

lemma provisioned_inv: "provisioned db \<Longrightarrow> db_inv db"
  by (simp add: provisioned_def db_inv_def schema_ok_def deliveries_ok_def outbox_ok_def attempts_ok_def audits_ok_def
      protocol_defs success_recorded_def)

lemma reachable_db_inv: "reachable db \<Longrightarrow> db_inv db"
  by (induction rule: reachable.induct) (auto simp: provisioned_inv good_step_def dest: store_step_good)

section \<open>Recorded success\<close>

text \<open>A recorded success belongs to a delivery that is succeeded, in that generation.\<close>

definition success_final :: "db \<Rightarrow> bool" where
  "success_final db \<longleftrightarrow> (\<forall>a\<in>set (delivery_attempts db). a_result_class a = RcSucceeded \<longrightarrow>
     (\<forall>r\<in>set (deliveries db). d_id r = a_delivery_id a \<longrightarrow> d_status r = StatusSucceeded \<and> d_generation r = a_generation a))"

lemma evolves_succeeded:
  "evolves r r' \<Longrightarrow> d_status r = StatusSucceeded \<Longrightarrow> d_status r' = StatusSucceeded \<and> d_generation r' = d_generation r"
  by (simp add: evolves_def legal_step_def)

lemma success_final_step:
  assumes inv: "db_inv db" and good: "good_step db db'" and final: "success_final db"
    and new: "\<And>a. a \<in> set (delivery_attempts db') \<Longrightarrow> a_result_class a = RcSucceeded \<Longrightarrow> a \<notin> set (delivery_attempts db) \<Longrightarrow>
      \<exists>r\<in>set (deliveries db'). d_id r = a_delivery_id a \<and> d_status r = StatusSucceeded \<and> d_generation r = a_generation a"
  shows "success_final db'"
  unfolding success_final_def
proof (intro ballI impI)
  fix a r' assume a: "a \<in> set (delivery_attempts db')" "a_result_class a = RcSucceeded"
    and r': "r' \<in> set (deliveries db')" "d_id r' = a_delivery_id a"
  have inv': "db_inv db'" "db_evolves db db'" "deliveries_ok db'"
    using good by (auto simp: good_step_def db_inv_def schema_ok_def)
  show "d_status r' = StatusSucceeded \<and> d_generation r' = a_generation a"
  proof (cases "a \<in> set (delivery_attempts db)")
    case False
    with new [OF a] show ?thesis using delivery_row_unique [OF inv'(1) r'(1)] r'(2) by metis
  next
    case True
    then have "has_delivery db (a_delivery_id a)" using inv by (simp add: db_inv_def schema_ok_def attempts_ok_def list_all_iff)
    then obtain r where r: "r \<in> set (deliveries db)" "d_id r = a_delivery_id a" by (auto simp: has_delivery_def)
    with True a(2) final have "d_status r = StatusSucceeded" "d_generation r = a_generation a"
      by (auto simp: success_final_def)
    moreover have "evolves r r'" by (rule db_evolves_row [OF inv'(2,3) r(1) r'(1)]) (simp add: r'(2) r(2))
    ultimately show ?thesis using evolves_succeeded by metis
  qed
qed

text \<open>The operations that record no attempt.\<close>

lemma attempts_unchanged:
  "delivery_attempts (snd (ClaimOutbox E db owner lease limit)) = delivery_attempts db"
  "delivery_attempts (snd (MarkOutboxPublished E db event)) = delivery_attempts db"
  "delivery_attempts (snd (ReleaseOutbox E db event)) = delivery_attempts db"
  "delivery_attempts (snd (ObserveSignal E db i g)) = delivery_attempts db"
  "delivery_attempts (snd (ReconcileStalledSignals E db watchdog limit)) = delivery_attempts db"
  by (simp_all add: ClaimOutbox_def MarkOutboxPublished_def ReleaseOutbox_def ObserveSignal_def ReconcileStalledSignals_def
      commit_def commit_rows_def Let_def split: sum.split option.split)

lemma attempts_unchanged_claim: "delivery_attempts (snd (ClaimDelivery E db i g owner lease)) = delivery_attempts db"
  by (simp add: ClaimDelivery_def commit_def Let_def split: sum.split option.split)

lemma attempts_unchanged_submit: "delivery_attempts (snd (Submit E store db s)) = delivery_attempts db"
proof -
  have "delivery_attempts (snd (submit_new E db s)) = delivery_attempts db"
    by (cases rule: submit_new_cases [of E db s]) (simp_all add: commit_def)
  then show ?thesis by (simp add: Submit_def commit_def split: option.split)
qed

lemma attempts_unchanged_schedule: "delivery_attempts (snd (ScheduleDueRetries E db limit)) = delivery_attempts db"
  by (auto simp: ScheduleDueRetries_def commit_def Let_def elim!: insert_signals_events split: option.split)

lemma attempts_unchanged_replay: "delivery_attempts (snd (Replay E db i op reason)) = delivery_attempts db"
proof -
  have "delivery_attempts (snd (replay_tx E db a b c op reason r)) = delivery_attempts db" for a b c r
    by (auto simp: replay_tx_def commit_def Let_def split: option.split dest!: insert_audit_Some insert_event_Some)
  then show ?thesis by (simp add: Replay_def split: sum.split option.split)
qed

lemma upsert_caller_attempts: "upsert_caller db c h = Some db1 \<Longrightarrow> delivery_attempts db1 = delivery_attempts db"
  by (auto simp: upsert_caller_def split: if_splits)

lemma insert_version_attempts: "insert_version db v = Some db1 \<Longrightarrow> delivery_attempts db1 = delivery_attempts db"
  by (auto simp: insert_version_def split: if_splits)

lemma attempts_unchanged_bootstrap: "delivery_attempts (snd (Bootstrap E sha256 db config)) = delivery_attempts db"
  by (auto simp: Bootstrap_def bootstrap_tx_def commit_def Let_def insert_grant_def upsert_destination_def
      split: option.split dest!: upsert_caller_attempts insert_version_attempts)

lemma attempts_shrink_retention: "set (delivery_attempts (snd (DeleteExpiredTerminal E db s f limit))) \<subseteq> set (delivery_attempts db)"
  by (auto simp: DeleteExpiredTerminal_def commit_def Let_def delete_deliveries_def)

text \<open>A new attempt belongs to a delivery that was delivering; a new success leaves it succeeded.\<close>

definition attempt_justified :: "db \<Rightarrow> db \<Rightarrow> attempt_row \<Rightarrow> bool" where
  "attempt_justified db db' a \<longleftrightarrow>
     (\<exists>r\<in>set (deliveries db). d_id r = a_delivery_id a \<and> d_status r = StatusDelivering) \<and>
     (a_result_class a = RcSucceeded \<longrightarrow> (\<exists>r\<in>set (deliveries db'). d_id r = a_delivery_id a \<and>
        d_status r = StatusSucceeded \<and> d_generation r = a_generation a))"

lemma insert_attempts_new:
  "insert_attempts E n rs db = Some db' \<Longrightarrow> a \<in> set (delivery_attempts db') \<Longrightarrow> a \<notin> set (delivery_attempts db) \<Longrightarrow>
   a_result_class a \<noteq> RcSucceeded \<and> (\<exists>r\<in>set rs. a_delivery_id a = d_id r)"
proof (induction rs arbitrary: n db)
  case (Cons r rs)
  from Cons(2) obtain db1 where ins: "insert_attempt db (recovered_attempt E n r) = Some db1"
    "insert_attempts E (Suc n) rs db1 = Some db'" by (auto split: option.splits)
  show ?case
  proof (cases "a \<in> set (delivery_attempts db1)")
    case True
    with insert_attempt_Some [OF ins(1)] Cons(4) have "a = recovered_attempt E n r" by simp
    then show ?thesis by simp
  qed (use Cons(1) [OF ins(2) Cons(3)] in auto)
qed simp

lemma recover_new_attempt:
  assumes "a \<in> set (delivery_attempts (snd (RecoverExpiredDeliveries E db limit)))" "a \<notin> set (delivery_attempts db)"
  shows "attempt_justified db db' a"
proof -
  let ?X = "expired_leases E db limit"
  let ?db1 = "db\<lparr>deliveries := update_where (\<lambda>r. r \<in> set ?X) (recover_row E) (deliveries db)\<rparr>"
  from assms obtain db3 where rec: "recover_statement E ?X db = Some db3" "a \<in> set (delivery_attempts db3)"
    by (auto simp: RecoverExpiredDeliveries_def commit_def Let_def split: if_splits option.splits)
  then obtain db2 c where att: "insert_attempts E 0 ?X ?db1 = Some db2"
    and sig: "insert_signals E (length ?X) (recovered_signals E ?X) db2 = Some (c, db3)"
    by (auto simp: recover_statement_def Let_def split: option.splits)
  from sig have "delivery_attempts db3 = delivery_attempts db2" by (auto elim!: insert_signals_events)
  with insert_attempts_new [OF att, of a] rec(2) assms(2)
  have "a_result_class a \<noteq> RcSucceeded" "\<exists>r\<in>set ?X. a_delivery_id a = d_id r" by auto
  then show ?thesis using expired_leasesD(1,2) unfolding attempt_justified_def by (metis lease_expired_def)
qed

lemma completeResult_new_attempt:
  assumes "a \<in> set (delivery_attempts (snd (completeResult E db result cls next)))" "a \<notin> set (delivery_attempts db)"
  shows "attempt_justified db (snd (completeResult E db result cls next)) a"
proof -
  obtain res db' where run: "completeResult E db result cls next = (res, db')" by (cases "completeResult E db result cls next")
  have "\<exists>E'. completeResult E' db result cls next = (Inr (), db')"
  proof (cases res)
    case (Inl x)
    with run assms have "db' \<noteq> db" by auto
    with completeResult_Inl_effect run Inl show ?thesis by blast
  qed (use run in auto)
  then obtain E' where "completeResult E' db result cls next = (Inr (), db')" by blast
  then obtain r attemptID where r: "r \<in> set (deliveries db)" "fenced (clock_timestamp E') result cls next r"
    and db': "db' = db\<lparr>deliveries := update_where (fenced (clock_timestamp E') result cls next)
         (complete_row (clock_timestamp E') cls next) (deliveries db),
       delivery_attempts := delivery_attempts db @ [attempt_of_result attemptID result cls]\<rparr>"
    by (rule completeResult_Inr)
  from assms have a: "a = attempt_of_result attemptID result cls" by (simp add: run db')
  have "complete_row (clock_timestamp E') cls next r \<in> set (deliveries db')" using r by (auto simp: db' set_update_where)
  moreover have "cls = RcSucceeded \<Longrightarrow> d_status (complete_row (clock_timestamp E') cls next r) = StatusSucceeded \<and>
      d_generation (complete_row (clock_timestamp E') cls next r) = d_generation r" by (simp add: complete_row_def)
  ultimately show ?thesis
    using r unfolding attempt_justified_def run snd_conv a attempt_of_result_simps fenced_def
    by (metis d_id_complete_row)
qed

lemma store_step_new_attempt:
  assumes "store_step db db'" "a \<in> set (delivery_attempts db')" "a \<notin> set (delivery_attempts db)"
  shows "attempt_justified db db' a"
  using assms
proof (cases rule: store_step.cases)
  case (step_recover E limit)
  with recover_new_attempt assms(2,3) show ?thesis by blast
next
  case (step_retention E s f limit)
  with attempts_shrink_retention assms(2,3) show ?thesis by blast
qed (simp_all add: attempts_unchanged attempts_unchanged_claim attempts_unchanged_submit attempts_unchanged_schedule
    attempts_unchanged_replay attempts_unchanged_bootstrap completeResult_new_attempt
    CompleteSuccess_def CompleteRetry_def CompletePermanent_def)

lemma attempts_of_succeeded:
  assumes "db_inv db" "store_step db db'" "r \<in> set (deliveries db)" "d_status r = StatusSucceeded"
    "b \<in> set (delivery_attempts db')" "a_delivery_id b = d_id r"
  shows "b \<in> set (delivery_attempts db)"
proof (rule ccontr)
  assume "b \<notin> set (delivery_attempts db)"
  with store_step_new_attempt [OF assms(2,5)] obtain q where "q \<in> set (deliveries db)" "d_id q = a_delivery_id b"
    "d_status q = StatusDelivering" unfolding attempt_justified_def by blast
  moreover from this have "q = r" using delivery_row_unique [OF assms(1) _ assms(3)] assms(6) by simp
  ultimately show False using assms(4) by simp
qed

lemma reachable_success_final: "reachable db \<Longrightarrow> success_final db"
proof (induction rule: reachable.induct)
  case (reach_init db)
  then show ?case by (simp add: provisioned_def success_final_def)
next
  case (reach_step db db')
  have inv: "db_inv db" using reach_step(1) by (rule reachable_db_inv)
  have good: "good_step db db'" using reach_step(2) inv by (rule store_step_good)
  show ?case
  proof (rule success_final_step [OF inv good reach_step(3)])
    fix a assume "a \<in> set (delivery_attempts db')" "a_result_class a = RcSucceeded" "a \<notin> set (delivery_attempts db)"
    with store_step_new_attempt [OF reach_step(2)]
    show "\<exists>r\<in>set (deliveries db'). d_id r = a_delivery_id a \<and> d_status r = StatusSucceeded \<and> d_generation r = a_generation a"
      unfolding attempt_justified_def by blast
  qed
qed

section \<open>Properties of the whole store\<close>

text \<open>C1. Every reachable database is well formed and follows the delivery protocol: constraints and foreign
  keys hold, exactly the delivering deliveries carry a lease, no event and no audit is ahead of its
  delivery, each delivery has at most one attempt per generation and none yet for an open one, a
  freshly accepted pending delivery has its Outbox event, and a succeeded delivery has the attempt that
  succeeded.\<close>

theorem reachable_invariant: "reachable db \<Longrightarrow> db_inv db"
  by (rule reachable_db_inv)

text \<open>The demonstration database, reached by calls of the store from its provisioned part.\<close>

definition provisioned_demo :: db where
  "provisioned_demo = demo_db\<lparr>deliveries := [], outbox_events := []\<rparr>"

definition submitted_demo :: db where
  "submitted_demo = snd (Submit (quiet_env 5) \<lparr>st_backlogLimit = 10\<rparr> provisioned_demo (demo_submission ''k'' 1))"

lemma reachable_submitted_demo: "reachable submitted_demo"
  unfolding submitted_demo_def
proof (rule reach_step [OF _ step_submit], rule reach_init)
  show "provisioned provisioned_demo" by code_simp
qed

theorem reachable_invariant_witness: "db_inv submitted_demo \<and> deliveries submitted_demo \<noteq> []"
proof
  show "db_inv submitted_demo" by (rule reachable_invariant [OF reachable_submitted_demo])
  show "deliveries submitted_demo \<noteq> []" by code_simp
qed

text \<open>C2. Whatever call is made on a reachable database, a delivery keeps its identity (caller, key, request,
  destination version, supplier value, acceptance time), moves only along the transitions of the
  protocol, never goes back a generation and advances by at most one; an active delivery never
  disappears.\<close>

theorem deliveries_follow_protocol:
  assumes "reachable db" "store_step db db'" "r \<in> set (deliveries db)"
  shows "(\<forall>r'\<in>set (deliveries db'). d_id r' = d_id r \<longrightarrow>
       same_identity r r' \<and> legal_step r r' \<and> d_generation r \<le> d_generation r' \<and> d_generation r' \<le> d_generation r + 1) \<and>
     (active_status (d_status r) \<longrightarrow> has_delivery db' (d_id r))"
proof -
  have good: "good_step db db'" using assms(2) reachable_db_inv [OF assms(1)] by (rule store_step_good)
  then have ev: "db_evolves db db'" "deliveries_ok db'" by (auto simp: good_step_def db_inv_def schema_ok_def)
  have "evolves r r'" if "r' \<in> set (deliveries db')" "d_id r' = d_id r" for r'
    using ev assms(3) that by (rule db_evolves_row)
  moreover have "has_delivery db' (d_id r)" if "active_status (d_status r)"
  proof -
    from ev(1) assms(3) that obtain r' where "r' \<in> set (deliveries db')" "evolves r r'" unfolding db_evolves_def by blast
    then show ?thesis unfolding has_delivery_def by (metis evolves_id imageI)
  qed
  ultimately show ?thesis using evolves_generation by (auto simp: evolves_def)
qed

theorem deliveries_follow_protocol_witness:
  "has_delivery (snd (ScheduleDueRetries (quiet_env 16) submitted_demo 5)) (d_id (hd (deliveries submitted_demo)))"
proof -
  have "hd (deliveries submitted_demo) \<in> set (deliveries submitted_demo)" by code_simp
  moreover have "active_status (d_status (hd (deliveries submitted_demo)))" by code_simp
  ultimately show ?thesis
    using deliveries_follow_protocol [OF reachable_submitted_demo step_schedule] by blast
qed

text \<open>C4. Success is final: once an attempt is recorded as succeeded, the delivery is succeeded in that
  generation, no call can claim it, and no further attempt of it is ever recorded.\<close>

theorem recorded_success_is_final:
  assumes "reachable db" "a \<in> set (delivery_attempts db)" "a_result_class a = RcSucceeded"
    and "r \<in> set (deliveries db)" "d_id r = a_delivery_id a"
  shows "d_status r = StatusSucceeded \<and> d_generation r = a_generation a \<and>
    (\<forall>E i g owner lease x. uuid_in E i = Some (d_id r) \<longrightarrow> fst (ClaimDelivery E db i g owner lease) \<noteq> Inr x) \<and>
    (\<forall>db' b. store_step db db' \<and> b \<in> set (delivery_attempts db') \<and> a_delivery_id b = d_id r \<longrightarrow> b \<in> set (delivery_attempts db))"
proof -
  note inv = reachable_db_inv [OF assms(1)]
  have r: "d_status r = StatusSucceeded" "d_generation r = a_generation a"
    using reachable_success_final [OF assms(1)] assms(2-5) by (auto simp: success_final_def)
  have "fst (ClaimDelivery E db i g owner lease) \<noteq> Inr x" if "uuid_in E i = Some (d_id r)" for E i g owner lease x
  proof
    assume "fst (ClaimDelivery E db i g owner lease) = Inr x"
    then have "ClaimDelivery E db i g owner lease = (Inr (fst x, snd x), snd (ClaimDelivery E db i g owner lease))"
      by (metis prod.collapse)
    with inv obtain q where "q \<in> set (deliveries db)" "worker_eligible (clock_timestamp E) (d_id q) g q"
      "uuid_in E i = Some (d_id q)" by (rule claimed_row_present)
    moreover from this have "q = r" using delivery_row_unique [OF inv _ assms(4)] that by simp
    ultimately show False using r(1) by (simp add: worker_eligible_def)
  qed
  moreover have "b \<in> set (delivery_attempts db)"
    if step: "store_step db db'" and b: "b \<in> set (delivery_attempts db')" "a_delivery_id b = d_id r" for db' b
    using attempts_of_succeeded [OF inv step assms(4) r(1) b] .
  ultimately show ?thesis using r by blast
qed

definition demo_uuid :: string where
  "demo_uuid = ''00000000-0000-4000-8000-000000000000''"

definition succeeded_demo :: db where
  "succeeded_demo = snd (CompleteSuccess (quiet_env 20) (snd (ClaimDelivery (quiet_env 10) submitted_demo demo_uuid 0 ''w'' Second))
     (demo_result\<lparr>ar_DeliveryID := demo_uuid, ar_LeaseToken := demo_uuid, ar_ResponseStatus := Some 204, ar_ErrorCategory := []\<rparr>))"

lemma reachable_succeeded_demo: "reachable succeeded_demo"
  unfolding succeeded_demo_def
  by (rule reach_step [OF reach_step [OF reachable_submitted_demo step_claim] step_success])

theorem recorded_success_is_final_witness: "\<exists>r. deliveries succeeded_demo = [r] \<and> d_status r = StatusSucceeded"
proof -
  have "case (deliveries succeeded_demo, delivery_attempts succeeded_demo) of
      ([r], [a]) \<Rightarrow> a_result_class a = RcSucceeded \<and> d_id r = a_delivery_id a | _ \<Rightarrow> False" by code_simp
  then obtain r a where "deliveries succeeded_demo = [r]" "delivery_attempts succeeded_demo = [a]"
    "a_result_class a = RcSucceeded" "d_id r = a_delivery_id a" by (auto split: list.splits)
  then show ?thesis using recorded_success_is_final [OF reachable_succeeded_demo, of a r] by simp
qed

text \<open>C5. No due delivery is left without a signal: after a scheduler run that had room for all due retries
  and skipped no locked row, every pending delivery that is due, whether new, retried, recovered or
  replayed, has an Outbox event for its current generation.\<close>

theorem no_due_delivery_without_signal:
  assumes "reachable db" "ScheduleDueRetries E db limit = (Inr n, db')"
    and "int (count_where (retry_due E db) (deliveries db)) \<le> limit" "\<And>i. \<not> row_locked E i"
    and "r \<in> set (deliveries db')" "d_status r = StatusPending" "d_next_attempt_at r \<le> clock_timestamp E"
  shows "(d_id r, d_generation r) \<in> event_key ` set (outbox_events db')"
proof (cases "d_generation r = 0")
  case True
  have "db_inv db'" using schedule.call_inv [OF reachable_db_inv [OF assms(1)], of E limit] assms(2) by simp
  then have "accepted_signalled db'" by (simp add: db_inv_def protocol_ok_def)
  from accepted_signalledD [OF this assms(5)] assms(6) True show ?thesis by simp
next
  case False
  from assms(2) obtain es where es: "db' = (scheduled E db)\<lparr>outbox_events := outbox_events db @ es\<rparr>"
    "event_key ` set (outbox_events db') =
       event_key ` set (outbox_events db) \<union> (\<lambda>r. (d_id r, d_generation r)) ` set (due_retries E db limit)"
    by (rule ScheduleDueRetries_Inr)
  have due: "set (due_retries E db limit) = {r \<in> set (deliveries db). retry_due E db r}"
    using due_retries_all [of E db limit] assms(3,4) by simp
  have "r \<in> set (update_where (retry_expired E) (expire_row E) (deliveries db))" using assms(5) by (simp add: es(1))
  then have r: "r \<in> set (deliveries db)" "\<not> retry_expired E r" using assms(6) by (cases rule: in_update_whereE; simp)+
  have "d_generation r \<ge> 0"
    using delivery_checkD [OF reachable_db_inv [OF assms(1)] r(1)] by (simp add: delivery_check_def)
  with False r assms(6,7) have "(d_id r, d_generation r) \<in> event_key ` set (outbox_events db) \<or> retry_due E db r"
    by (auto simp: retry_due_def retry_expired_def)
  then show ?thesis unfolding es(2) due using r(1) by blast
qed

theorem no_due_delivery_without_signal_witness:
  "(demo_uuid, 0) \<in> event_key ` set (outbox_events (snd (ScheduleDueRetries (quiet_env 16) submitted_demo 5)))"
proof -
  let ?db' = "snd (ScheduleDueRetries (quiet_env 16) submitted_demo 5)"
  have run: "ScheduleDueRetries (quiet_env 16) submitted_demo 5 = (Inr 0, ?db')" by code_simp
  have "int (count_where (retry_due (quiet_env 16) submitted_demo) (deliveries submitted_demo)) \<le> 5" by code_simp
  moreover have "case deliveries ?db' of [r] \<Rightarrow> d_status r = StatusPending \<and> d_next_attempt_at r \<le> 16 \<and>
      d_id r = demo_uuid \<and> d_generation r = 0 | _ \<Rightarrow> False" by code_simp
  then obtain r where "deliveries ?db' = [r]" "d_status r = StatusPending" "d_next_attempt_at r \<le> 16" "d_id r = demo_uuid"
    "d_generation r = 0" by (auto split: list.splits)
  moreover have "\<And>i. \<not> row_locked (quiet_env 16) i" by (simp add: quiet_env_def)
  ultimately show ?thesis
    using no_due_delivery_without_signal [OF reachable_submitted_demo run, of r] by (simp add: quiet_env_def)
qed

end
