(* ===== verification/Row_Stamps.thy ===== *)
theory Row_Stamps
  imports System
begin

text \<open>
  When rows are written: every store operation that inserts or changes a delivery stamps it with the
  server's clock at that operation. So what other processes do from some time on, whatever it is, adds
  no row that looks older than that time; retention rests on this (\<open>Maintenance_Loops\<close>).
\<close>

section \<open>Store operations at a time\<close>

text \<open>The store operations of \<open>System\<close>, with the environment they run in.\<close>

inductive store_step_at :: "env \<Rightarrow> db \<Rightarrow> db \<Rightarrow> bool" for E where
  at_submit: "store_step_at E db (snd (Submit E store db submission))"
| at_bootstrap: "store_step_at E db (snd (Bootstrap E sha256 db config))"
| at_claim_outbox: "store_step_at E db (snd (ClaimOutbox E db owner lease limit))"
| at_mark: "store_step_at E db (snd (MarkOutboxPublished E db event))"
| at_release: "store_step_at E db (snd (ReleaseOutbox E db event))"
| at_observe: "store_step_at E db (snd (ObserveSignal E db i g))"
| at_claim: "store_step_at E db (snd (ClaimDelivery E db i g owner lease))"
| at_success: "store_step_at E db (snd (CompleteSuccess E db result))"
| at_retry: "store_step_at E db (snd (CompleteRetry E db result t))"
| at_permanent: "store_step_at E db (snd (CompletePermanent E db result))"
| at_schedule: "store_step_at E db (snd (ScheduleDueRetries E db limit))"
| at_recover: "store_step_at E db (snd (RecoverExpiredDeliveries E db limit))"
| at_reconcile: "store_step_at E db (snd (ReconcileStalledSignals E db watchdog limit))"
| at_retention: "store_step_at E db (snd (DeleteExpiredTerminal E db success failure limit))"
| at_replay: "store_step_at E db (snd (Replay E db deliveryID operatorID reason))"

lemma store_step_at_step: "store_step_at E db db' \<Longrightarrow> store_step db db'"
  by (induction rule: store_step_at.induct) (rule store_step.intros)+

lemma store_step_some_at: "store_step db db' \<Longrightarrow> \<exists>E. store_step_at E db db'"
  by (induction rule: store_step.induct) (blast intro: store_step_at.intros)+

text \<open>Any number of operations, each at a server time from \<open>T\<close> on.\<close>

inductive acts_from :: "instant \<Rightarrow> db \<Rightarrow> db \<Rightarrow> bool" for T where
  acts_none: "acts_from T db db"
| acts_step: "acts_from T db db1 \<Longrightarrow> T \<le> clock_timestamp E \<Longrightarrow> store_step_at E db1 db' \<Longrightarrow> acts_from T db db'"

lemma acts_from_inv: "acts_from T db db' \<Longrightarrow> db_inv db \<Longrightarrow> db_inv db'"
  by (induction rule: acts_from.induct) (auto dest!: store_step_at_step dest: store_step_good simp: good_step_def)

section \<open>Stamps\<close>

definition stamped :: "instant \<Rightarrow> db \<Rightarrow> db \<Rightarrow> bool" where
  "stamped T db db' \<longleftrightarrow> (\<forall>r\<in>set (deliveries db'). r \<in> set (deliveries db) \<or> T \<le> d_updated_at r)"

lemma stamped_same: "deliveries db' = deliveries db \<Longrightarrow> stamped T db db'"
  by (simp add: stamped_def)

lemma stamped_refl [simp]: "stamped T db db"
  by (simp add: stamped_same)

lemma stamped_trans: "stamped T db db1 \<Longrightarrow> stamped T db1 db' \<Longrightarrow> stamped T db db'"
  by (auto simp: stamped_def)

lemma stamped_commit: "stamped T db db' \<Longrightarrow> stamped T db (snd (commit E msg db db' x))"
  by (auto simp: commit_def stamped_def)

lemma stamped_commit_rows: "stamped T db db' \<Longrightarrow> stamped T db (snd (commit_rows E msgs db db' x))"
  by (auto simp: commit_rows_def stamped_def split: option.split)

lemma stamped_update:
  "deliveries db' = update_where p f (deliveries db) \<Longrightarrow> (\<And>r. T \<le> d_updated_at (f r)) \<Longrightarrow> stamped T db db'"
  by (auto simp: stamped_def set_update_where)

lemma Submit_stamped: "T \<le> clock_timestamp E \<Longrightarrow> stamped T db (snd (Submit E store db s))"
proof -
  assume T: "T \<le> clock_timestamp E"
  have "stamped T db (snd (submit_new E db s))"
    using T unfolding submit_new_def Let_def
    by (auto simp: stamped_def accepted_row_def commit_def split: sum.split option.split
        dest!: insert_event_Some insert_delivery_Some(1))
  then show ?thesis
    by (auto simp: Submit_def split: option.split intro: stamped_same stamped_commit)
qed

lemma bootstrap_deliveries:
  "upsert_caller db c h = Some db1 \<Longrightarrow> deliveries db1 = deliveries db"
  "deliveries (upsert_destination db i n) = deliveries db"
  "insert_version db v = Some db1 \<Longrightarrow> deliveries db1 = deliveries db"
  "deliveries (insert_grant db c i) = deliveries db"
  by (auto simp: upsert_caller_def upsert_destination_def insert_grant_def Let_def split: if_splits option.splits elim!: insert_version_Some)

lemma Bootstrap_stamped: "stamped T db (snd (Bootstrap E sha256 db config))"
proof -
  have "stamped T db (insert_grant db3 c i)"
    if "upsert_caller db c h = Some db1" "insert_version (upsert_destination db1 i n) v = Some db3" for c h db1 i n v db3
    using bootstrap_deliveries(1) [OF that(1)] bootstrap_deliveries(3) [OF that(2)]
    by (intro stamped_same) (simp add: bootstrap_deliveries(2,4))
  then have "stamped T db (snd (bootstrap_tx E sha256 db config))"
    unfolding bootstrap_tx_def Let_def
    by (auto split: option.split intro: stamped_same intro!: stamped_commit)
  then show ?thesis by (auto simp: Bootstrap_def Let_def intro: stamped_same)
qed

lemma outbox_stamped:
  "stamped T db (snd (ClaimOutbox E db owner lease limit))" "stamped T db (snd (MarkOutboxPublished E db event))"
  "stamped T db (snd (ReleaseOutbox E db event))" "stamped T db (snd (ObserveSignal E db i g))"
  "stamped T db (snd (ReconcileStalledSignals E db watchdog limit))"
  by (rule stamped_same; simp add: ClaimOutbox_def MarkOutboxPublished_def ReleaseOutbox_def ObserveSignal_def
      ReconcileStalledSignals_def Let_def commit_def commit_rows_def split: sum.split option.split)+

lemma worker_stamped:
  assumes "T \<le> clock_timestamp E"
  shows "stamped T db (snd (ClaimDelivery E db i g owner lease))" "stamped T db (snd (completeResult E db result cls t))"
proof -
  have "stamped T db (db\<lparr>deliveries := update_where p (claim_row (clock_timestamp E) owner token lease) (deliveries db)\<rparr>)" for p token
    using assms by (intro stamped_update [of _ p "claim_row (clock_timestamp E) owner token lease"]) (simp_all add: claim_row_def)
  then show "stamped T db (snd (ClaimDelivery E db i g owner lease))"
    unfolding ClaimDelivery_def Let_def
    by (auto split: sum.split option.split intro!: stamped_commit)
  have "stamped T db db2"
    if "insert_attempt (db\<lparr>deliveries := update_where p (complete_row (clock_timestamp E) cls t) (deliveries db)\<rparr>) a = Some db2" for p a db2
    using assms insert_attempt_Some [OF that]
    by (intro stamped_update [of _ p "complete_row (clock_timestamp E) cls t"]) (simp_all add: complete_row_def)
  then show "stamped T db (snd (completeResult E db result cls t))"
    unfolding completeResult_def Let_def
    by (auto split: sum.split option.split intro: stamped_same intro!: stamped_commit)
qed

lemma scheduling_stamped:
  assumes "T \<le> clock_timestamp E"
  shows "stamped T db (snd (ScheduleDueRetries E db limit))" "stamped T db (snd (RecoverExpiredDeliveries E db limit))"
proof -
  have "stamped T db db2"
    if "insert_signals E 0 sigs (db\<lparr>deliveries := update_where (retry_expired E) (expire_row E) (deliveries db)\<rparr>) = Some (n, db2)" for sigs n db2
    using assms insert_signals_added [OF that]
    by (intro stamped_update [of _ "retry_expired E" "expire_row E"]) (auto simp: expire_row_def)
  then show "stamped T db (snd (ScheduleDueRetries E db limit))"
    unfolding ScheduleDueRetries_def Let_def
    by (auto split: option.split intro: stamped_same intro!: stamped_commit)
  have "stamped T db db'" if rec: "recover_statement E rs db = Some db'" for rs db'
  proof -
    let ?db1 = "db\<lparr>deliveries := update_where (\<lambda>r. r \<in> set rs) (recover_row E) (deliveries db)\<rparr>"
    from rec obtain db2 n where r: "insert_attempts E 0 rs ?db1 = Some db2"
      "insert_signals E (length rs) (recovered_signals E rs) db2 = Some (n, db')"
      by (auto simp: recover_statement_def Let_def split: option.splits)
    from r(1) have "deliveries db2 = deliveries ?db1" by (rule insert_attempts_rows) simp
    moreover have "deliveries db' = deliveries db2" using insert_signals_added [OF r(2)] by auto
    ultimately show ?thesis using assms
      by (intro stamped_update [of _ "\<lambda>r. r \<in> set rs" "recover_row E"]) (simp_all add: recover_row_def Let_def)
  qed
  then show "stamped T db (snd (RecoverExpiredDeliveries E db limit))"
    unfolding RecoverExpiredDeliveries_def Let_def
    by (auto split: option.split intro: stamped_same intro!: stamped_commit)
qed

lemma retention_stamped: "stamped T db (snd (DeleteExpiredTerminal E db success failure limit))"
  by (auto simp: DeleteExpiredTerminal_def Let_def commit_def stamped_def delete_deliveries_simps)

lemma Replay_stamped:
  assumes "T \<le> clock_timestamp E"
  shows "stamped T db (snd (Replay E db deliveryID operatorID reason))"
proof -
  have "stamped T db db3"
    if "insert_audit (db\<lparr>deliveries := update_where p (replay_row (clock_timestamp E)) (deliveries db)\<rparr>) a = Some db2"
      "insert_event db2 e = Some db3" for p a e db2 db3
    using assms insert_audit_Some [OF that(1)] insert_event_Some [OF that(2)]
    by (intro stamped_update [of _ p "replay_row (clock_timestamp E)"]) (simp_all add: replay_row_def)
  then have "stamped T db (snd (replay_tx E db a o' t operatorID reason r))" for a o' t r
    unfolding replay_tx_def Let_def by (auto split: option.split intro!: stamped_commit)
  then show ?thesis
    by (auto simp: Replay_def split: sum.split option.split intro: stamped_same)
qed

lemma store_step_at_stamped: "store_step_at E db db' \<Longrightarrow> T \<le> clock_timestamp E \<Longrightarrow> stamped T db db'"
  by (induction rule: store_step_at.induct)
    (simp_all add: Submit_stamped Bootstrap_stamped outbox_stamped worker_stamped scheduling_stamped retention_stamped Replay_stamped
      CompleteSuccess_def CompleteRetry_def CompletePermanent_def)

lemma acts_from_stamped: "acts_from T db db' \<Longrightarrow> stamped T db db'"
  by (induction rule: acts_from.induct) (auto intro: stamped_same stamped_trans store_step_at_stamped)

section \<open>Rows from before a time\<close>

definition older_rows :: "instant \<Rightarrow> db \<Rightarrow> nat" where
  "older_rows T db = count_where (\<lambda>r. d_updated_at r < T) (deliveries db)"

lemma older_rows_card:
  assumes "db_inv db"
  shows "older_rows T db = card {r \<in> set (deliveries db). d_updated_at r < T}"
proof -
  have "distinct (map d_id (deliveries db))" using assms by (simp add: db_inv_def schema_ok_def deliveries_ok_def)
  then have "distinct (filter (\<lambda>r. d_updated_at r < T) (deliveries db))" by (simp add: distinct_map)
  from distinct_card [OF this] show ?thesis by (simp add: older_rows_def count_where_def)
qed

lemma older_rows_stamped:
  assumes "db_inv db" "db_inv db'" "stamped T db db'"
  shows "older_rows T db' \<le> older_rows T db"
  unfolding older_rows_card [OF assms(1)] older_rows_card [OF assms(2)]
  using assms(3) by (intro card_mono) (auto simp: stamped_def)

lemma older_rows_acts: "db_inv db \<Longrightarrow> acts_from T db db' \<Longrightarrow> older_rows T db' \<le> older_rows T db"
  by (rule older_rows_stamped) (auto intro: acts_from_inv acts_from_stamped)

end
