(* ===== verification/Maintenance_Loops.thy ===== *)
theory Maintenance_Loops
  imports Row_Stamps
begin

text \<open>
  The background loops of the notifier (\<open>cmd/notifier/scheduling.go\<close>): retry scheduler, lease reconciler,
  retention and operational alerts. A cycle of a loop acts on a world that consists of the database,
  the environment of each store call and what other processes do to the database before it. The select
  statements of the loops are an argument: what they observed, one entry for each turn.
\<close>

section \<open>The world of the loops\<close>

datatype alert = BacklogAging rat | OutboxDelayed rat | LeasesExpired nat | CycleFailed string

record loop_world =
  lw_db :: db
  lw_calls :: nat
  lw_alerts :: "alert list"
  lw_env :: "nat \<Rightarrow> env"
  lw_others :: "nat \<Rightarrow> db \<Rightarrow> db"
  lw_cancelled :: "nat \<Rightarrow> bool"

definition loop_call :: "(env \<Rightarrow> db \<Rightarrow> 'r \<times> db) \<Rightarrow> loop_world \<Rightarrow> 'r \<times> loop_world" where
  "loop_call op w =
     (let (r, db') = op (lw_env w (lw_calls w)) (lw_others w (lw_calls w) (lw_db w)) in
      (r, w\<lparr>lw_db := db', lw_calls := Suc (lw_calls w)\<rparr>))"

text \<open>\<open>ctx.Err() != nil\<close>.\<close>

definition ctx_err :: "loop_world \<Rightarrow> bool" where
  "ctx_err w = lw_cancelled w (lw_calls w)"

section \<open>The loop\<close>

datatype loop_select = TickerFired | ContextEnded

datatype loop_error = LoopStore store_error | LoopContext

text \<open>One entry of the list is one receive of the select statement; with the list used up the loop is still running. A cycle is
  \<open>None\<close> when it does not return.\<close>

fun runMaintenanceLoop ::
  "(loop_world \<Rightarrow> (loop_error option \<times> loop_world) option) \<Rightarrow> string \<Rightarrow> loop_select list \<Rightarrow> loop_world \<Rightarrow> loop_world option" where
  "runMaintenanceLoop run_cycle component selects w =
     (case run_cycle w of
        None \<Rightarrow> None
      | Some (err, w1) \<Rightarrow>
          let w2 = (if err \<noteq> None \<and> \<not> ctx_err w1 then w1\<lparr>lw_alerts := lw_alerts w1 @ [CycleFailed component]\<rparr> else w1) in
          (case selects of
             [] \<Rightarrow> Some w2
           | ContextEnded # _ \<Rightarrow> Some w2
           | TickerFired # rest \<Rightarrow> runMaintenanceLoop run_cycle component rest w2))"

declare runMaintenanceLoop.simps [simp del]

definition loop_result :: "store_error + 'a \<Rightarrow> loop_error option" where
  "loop_result r = (case r of Inl e \<Rightarrow> Some (LoopStore e) | Inr _ \<Rightarrow> None)"

section \<open>The cycles\<close>

definition retry_cycle :: "loop_world \<Rightarrow> (loop_error option \<times> loop_world) option" where
  "retry_cycle w = (case loop_call (\<lambda>E db. ScheduleDueRetries E db 100) w of (r, w1) \<Rightarrow> Some (loop_result r, w1))"

definition runRetryScheduler :: "loop_select list \<Rightarrow> loop_world \<Rightarrow> loop_world option" where
  "runRetryScheduler = runMaintenanceLoop retry_cycle ''retry_scheduler''"

definition lease_cycle :: "loop_world \<Rightarrow> (loop_error option \<times> loop_world) option" where
  "lease_cycle w =
     (case loop_call (\<lambda>E db. RecoverExpiredDeliveries E db 100) w of
        (Inl e, w1) \<Rightarrow> Some (Some (LoopStore e), w1)
      | (Inr _, w1) \<Rightarrow>
          (case loop_call (\<lambda>E db. ReconcileStalledSignals E db Minute 100) w1 of (r, w2) \<Rightarrow> Some (loop_result r, w2)))"

definition runLeaseReconciler :: "loop_select list \<Rightarrow> loop_world \<Rightarrow> loop_world option" where
  "runLeaseReconciler = runMaintenanceLoop lease_cycle ''lease_reconciler''"

text \<open>\<open>drainRetention\<close> over any retention store and context; it need not return, so it is a partial function. The
  first argument is the store's \<open>DeleteExpiredTerminal\<close>.\<close>

partial_function (option) drain_loop ::
  "(duration \<Rightarrow> duration \<Rightarrow> int \<Rightarrow> 's \<Rightarrow> (store_error + nat) \<times> 's) \<Rightarrow> ('s \<Rightarrow> bool) \<Rightarrow> int \<Rightarrow> int \<Rightarrow> 's \<Rightarrow> ((int \<times> loop_error option) \<times> 's) option" where
  "drain_loop del cancelled batchSize total0 s =
     (case del (7 * 24 * Hour) (30 * 24 * Hour) batchSize s of
        (Inl e, s1) \<Rightarrow> Some ((total0, Some (LoopStore e)), s1)
      | (Inr deleted, s1) \<Rightarrow>
          if int deleted < batchSize then Some ((total0 + int deleted, None), s1)
          else if cancelled s1 then Some ((total0 + int deleted, Some LoopContext), s1)
          else drain_loop del cancelled batchSize (total0 + int deleted) s1)"

declare drain_loop.simps [code]

definition drainRetention ::
  "(duration \<Rightarrow> duration \<Rightarrow> int \<Rightarrow> 's \<Rightarrow> (store_error + nat) \<times> 's) \<Rightarrow> ('s \<Rightarrow> bool) \<Rightarrow> int \<Rightarrow> 's \<Rightarrow> ((int \<times> loop_error option) \<times> 's) option" where
  "drainRetention del cancelled batchSize s = drain_loop del cancelled batchSize 0 s"

definition world_delete :: "duration \<Rightarrow> duration \<Rightarrow> int \<Rightarrow> loop_world \<Rightarrow> (store_error + nat) \<times> loop_world" where
  "world_delete success failure limit = loop_call (\<lambda>E db. DeleteExpiredTerminal E db success failure limit)"

definition retention_cycle :: "loop_world \<Rightarrow> (loop_error option \<times> loop_world) option" where
  "retention_cycle w = map_option (\<lambda>((total, err), w1). (err, w1)) (drainRetention world_delete ctx_err 1000 w)"

definition runRetention :: "loop_select list \<Rightarrow> loop_world \<Rightarrow> loop_world option" where
  "runRetention = runMaintenanceLoop retention_cycle ''retention''"

definition alertOperationalState :: "OperationalSnapshot \<Rightarrow> alert list" where
  "alertOperationalState snapshot =
     (if os_OldestPendingSeconds snapshot \<ge> 60 then [BacklogAging (os_OldestPendingSeconds snapshot)] else []) @
     (if os_OldestOutboxSeconds snapshot \<ge> 60 then [OutboxDelayed (os_OldestOutboxSeconds snapshot)] else []) @
     (if os_ExpiredLeases snapshot > 0 then [LeasesExpired (os_ExpiredLeases snapshot)] else [])"

definition alert_cycle :: "loop_world \<Rightarrow> (loop_error option \<times> loop_world) option" where
  "alert_cycle w =
     (case loop_call (\<lambda>E db. (OperationalMetrics E db, db)) w of
        (Inl e, w1) \<Rightarrow> Some (Some (LoopStore e), w1)
      | (Inr snapshot, w1) \<Rightarrow> Some (None, w1\<lparr>lw_alerts := lw_alerts w1 @ alertOperationalState snapshot\<rparr>))"

definition runOperationalAlerts :: "loop_select list \<Rightarrow> loop_world \<Rightarrow> loop_world option" where
  "runOperationalAlerts = runMaintenanceLoop alert_cycle ''operational_alerts''"

section \<open>Retention is drained\<close>

text \<open>Others run any store operations, at server times from \<open>T\<close> on.\<close>

definition others_from :: "instant \<Rightarrow> loop_world \<Rightarrow> bool" where
  "others_from T w \<longleftrightarrow> (\<forall>n db. db_inv db \<longrightarrow> acts_from T db (lw_others w n db))"

text \<open>The next calls, as many as a drain may need, come before \<open>T\<close> lies seven days back.\<close>

definition calls_before :: "instant \<Rightarrow> int \<Rightarrow> loop_world \<Rightarrow> bool" where
  "calls_before T batch w \<longleftrightarrow> (\<forall>n. lw_calls w \<le> n \<and> n \<le> lw_calls w + older_rows T (lw_db w) div nat batch \<longrightarrow>
     clock_timestamp (lw_env w n) < T + 7 * 24 * Hour)"

lemma loop_call_simps:
  assumes "loop_call op w = (r, w')"
  shows "op (lw_env w (lw_calls w)) (lw_others w (lw_calls w) (lw_db w)) = (r, lw_db w')" "lw_calls w' = Suc (lw_calls w)"
    "lw_env w' = lw_env w" "lw_others w' = lw_others w" "lw_cancelled w' = lw_cancelled w" "lw_alerts w' = lw_alerts w"
  using assms by (auto simp: loop_call_def Let_def split: prod.splits)

text \<open>A batch that is not full was the last one.\<close>

lemma short_batch_complete:
  assumes inv: "db_inv db" and del: "DeleteExpiredTerminal E db s f limit = (Inr n, db')" and short: "int n < limit"
    and r: "r \<in> set (deliveries db')" "retention_expired E (Milliseconds s) (Milliseconds f) r"
  shows "row_locked E (d_id r)"
proof (rule ccontr)
  assume free: "\<not> row_locked E (d_id r)"
  let ?X = "expired_terminal E db (Milliseconds s) (Milliseconds f) limit"
  let ?all = "filter (\<lambda>r. retention_expired E (Milliseconds s) (Milliseconds f) r \<and> \<not> row_locked E (d_id r)) (deliveries db)"
  note D = DeleteExpiredTerminal_Inr [OF inv del]
  have "distinct (map d_id (deliveries db))" using inv by (simp add: db_inv_def schema_ok_def deliveries_ok_def)
  then have "distinct ?X" unfolding expired_terminal_def by (metis distinct_select_limit distinct_map)
  then have "length ?X = n" using D(4) by (simp add: distinct_card)
  with short have "length ?all \<le> nat limit"
    unfolding expired_terminal_def select_limit_def length_take length_sort by linarith
  then have "set ?X = set ?all" unfolding expired_terminal_def select_limit_def by simp
  moreover have "r \<in> set (deliveries db)" using r(1) unfolding D(1) delete_deliveries_simps by (simp only: set_filter mem_Collect_eq)
  ultimately have "r \<in> set ?X" "r \<in> set (deliveries db)" using r(2) free by (simp_all only: set_filter mem_Collect_eq simp_thms)
  with r(1) D(2) show False by blast
qed

text \<open>A batch deletes rows from before \<open>T\<close> only.\<close>

lemma retention_week: "Milliseconds (7 * 24 * Hour) * Millisecond = 7 * 24 * Hour" "Milliseconds (30 * 24 * Hour) * Millisecond = 30 * 24 * Hour"
  by code_simp+

lemma batch_older:
  assumes "db_inv db" "DeleteExpiredTerminal E db (7 * 24 * Hour) (30 * 24 * Hour) batch = (Inr n, db')"
    and "clock_timestamp E < T + 7 * 24 * Hour"
  shows "n + older_rows T db' \<le> older_rows T db"
proof -
  let ?X = "set (expired_terminal E db (Milliseconds (7 * 24 * Hour)) (Milliseconds (30 * 24 * Hour)) batch)"
  let ?old = "\<lambda>db. {r \<in> set (deliveries db). d_updated_at r < T}"
  note D = DeleteExpiredTerminal_Inr [OF assms(1,2)]
  have "db_inv db'" using DeleteExpiredTerminal_good [OF assms(1), of E "7 * 24 * Hour" "30 * 24 * Hour" batch]
    unfolding assms(2) good_step_def by simp
  note count = older_rows_card [OF assms(1)] older_rows_card [OF this]
  have "r \<in> ?old db" if "r \<in> ?X" for r
  proof -
    from that have r: "r \<in> set (deliveries db)" "retention_expired E (Milliseconds (7 * 24 * Hour)) (Milliseconds (30 * 24 * Hour)) r"
      unfolding expired_terminal_def by (blast dest: select_limitD)+
    from r(2) have "d_updated_at r \<le> clock_timestamp E - 7 * 24 * Hour \<or> d_updated_at r \<le> clock_timestamp E - 30 * 24 * Hour"
      unfolding retention_expired_def retention_week by blast
    then have "d_updated_at r < T" using assms(3) by auto
    with r(1) show ?thesis by simp
  qed
  then have sub: "?old db' \<union> ?X \<subseteq> ?old db" unfolding D(1) delete_deliveries_simps by auto
  have "?old db' \<inter> ?X = {}"
  proof (intro equals0I)
    fix r assume "r \<in> ?old db' \<inter> ?X"
    then have "r \<in> set (deliveries db')" "r \<in> ?X" "r \<in> set (deliveries db)" using sub by auto
    with D(2) show False by blast
  qed
  then have "card (?old db') + card ?X = card (?old db' \<union> ?X)" by (intro card_Un_disjoint [symmetric]) auto
  also have "\<dots> \<le> card (?old db)" using sub by (intro card_mono) auto
  finally show ?thesis unfolding count D(4) by simp
qed

text \<open>One call of the drain, whatever others did before it.\<close>

lemma drain_call:
  assumes "db_inv (lw_db w)" "others_from T w" "calls_before T batch w"
    and "world_delete (7 * 24 * Hour) (30 * 24 * Hour) batch w = (a, w1)"
  shows "db_inv (lw_others w (lw_calls w) (lw_db w))" "db_inv (lw_db w1)" "others_from T w1"
    "older_rows T (lw_db w1) \<le> older_rows T (lw_db w)"
    "a = Inr n \<Longrightarrow> n + older_rows T (lw_db w1) \<le> older_rows T (lw_db w)"
proof -
  let ?E = "lw_env w (lw_calls w)" and ?db = "lw_others w (lw_calls w) (lw_db w)"
  note c = loop_call_simps [OF assms(4) [unfolded world_delete_def]]
  have acts: "acts_from T (lw_db w) ?db" using assms(1,2) by (simp add: others_from_def)
  show db: "db_inv ?db" using acts_from_inv [OF acts assms(1)] .
  have old: "older_rows T ?db \<le> older_rows T (lw_db w)" using older_rows_acts [OF assms(1) acts] .
  have eff: "lw_db w1 = snd (DeleteExpiredTerminal ?E ?db (7 * 24 * Hour) (30 * 24 * Hour) batch)" by (simp only: c(1) snd_conv)
  show db1: "db_inv (lw_db w1)" unfolding eff using DeleteExpiredTerminal_good [OF db] by (simp only: good_step_def)
  show "others_from T w1" using assms(2) c(4) by (simp add: others_from_def)
  show "older_rows T (lw_db w1) \<le> older_rows T (lw_db w)"
    by (rule order_trans [OF older_rows_stamped [OF db db1] old]) (simp add: eff retention_stamped)
  assume "a = Inr n"
  have "clock_timestamp ?E < T + 7 * 24 * Hour" using assms(3) by (simp add: calls_before_def)
  from batch_older [OF db c(1) [unfolded \<open>a = Inr n\<close>] this] old show "n + older_rows T (lw_db w1) \<le> older_rows T (lw_db w)" by simp
qed

lemma calls_before_next:
  assumes "calls_before T batch w" "0 < batch" "nat batch + older_rows T (lw_db w1) \<le> older_rows T (lw_db w)"
    and "lw_calls w1 = Suc (lw_calls w)" "lw_env w1 = lw_env w"
  shows "calls_before T batch w1"
proof -
  have "Suc (older_rows T (lw_db w1) div nat batch) = (nat batch + older_rows T (lw_db w1)) div nat batch"
    using assms(2) by simp
  also have "\<dots> \<le> older_rows T (lw_db w) div nat batch" using assms(3) by (rule div_le_mono)
  finally show ?thesis using assms(1,4,5) by (auto simp: calls_before_def)
qed

lemma drain_loop_returns:
  assumes "db_inv (lw_db w)" "others_from T w" "calls_before T batch w" "0 < batch"
  shows "\<exists>tot err w'. drain_loop world_delete ctx_err batch total0 w = Some ((tot, err), w') \<and> total0 \<le> tot \<and>
    tot - total0 + int (older_rows T (lw_db w')) \<le> int (older_rows T (lw_db w)) \<and>
    lw_calls w < lw_calls w' \<and> (int (lw_calls w') - int (lw_calls w) - 1) * batch \<le> tot - total0 \<and>
    (err = None \<longrightarrow> (\<forall>r\<in>set (deliveries (lw_db w')).
       retention_expired (lw_env w (lw_calls w' - 1)) (Milliseconds (7 * 24 * Hour)) (Milliseconds (30 * 24 * Hour)) r \<longrightarrow>
       row_locked (lw_env w (lw_calls w' - 1)) (d_id r)))"
  using assms(1-3)
proof (induction "older_rows T (lw_db w)" arbitrary: w total0 rule: less_induct)
  case less
  obtain a w1 where del: "world_delete (7 * 24 * Hour) (30 * 24 * Hour) batch w = (a, w1)" by fastforce
  note c = loop_call_simps [OF del [unfolded world_delete_def]]
  note call = drain_call [OF less(2-4) del]
  show ?case
  proof (cases a)
    case (Inl e)
    with del call(4) c(2) show ?thesis by (subst drain_loop.simps) simp
  next
    case (Inr n)
    note n = call(5) [OF Inr]
    consider (short) "int n < batch" | (stopped) "\<not> int n < batch" "ctx_err w1" | (again) "\<not> int n < batch" "\<not> ctx_err w1" by blast
    then show ?thesis
    proof cases
      case short
      with short_batch_complete [OF call(1) c(1) [unfolded Inr]] del Inr n c(2) show ?thesis
        by (subst drain_loop.simps) simp
    next
      case stopped
      with del Inr n c(2) show ?thesis by (subst drain_loop.simps) simp
    next
      case again
      then have "nat batch + older_rows T (lw_db w1) \<le> older_rows T (lw_db w)" using n assms(4) by linarith
      with calls_before_next [OF less(4) assms(4) _ c(2,3)] have cb: "calls_before T batch w1" by simp
      have "older_rows T (lw_db w1) < older_rows T (lw_db w)" using again n assms(4) by linarith
      from less(1) [OF this call(2,3) cb, of "total0 + int n"] obtain tot err w'
        where r: "drain_loop world_delete ctx_err batch (total0 + int n) w1 = Some ((tot, err), w')" "total0 + int n \<le> tot"
          "tot - (total0 + int n) + int (older_rows T (lw_db w')) \<le> int (older_rows T (lw_db w1))"
          "lw_calls w1 < lw_calls w'" "(int (lw_calls w') - int (lw_calls w1) - 1) * batch \<le> tot - (total0 + int n)"
          "err = None \<longrightarrow> (\<forall>r\<in>set (deliveries (lw_db w')).
             retention_expired (lw_env w (lw_calls w' - 1)) (Milliseconds (7 * 24 * Hour)) (Milliseconds (30 * 24 * Hour)) r \<longrightarrow>
             row_locked (lw_env w (lw_calls w' - 1)) (d_id r))" unfolding c(3) by metis
      have "drain_loop world_delete ctx_err batch total0 w = Some ((tot, err), w')"
        using del Inr again r(1) by (subst drain_loop.simps) simp
      moreover have "(int (lw_calls w') - int (lw_calls w) - 1) * batch \<le> tot - total0"
        using r(5) again(1) c(2) by (simp add: algebra_simps)
      ultimately show ?thesis using r n c(2) by (intro exI [of _ tot] exI [of _ err] exI [of _ w']) simp
    qed
  qed
qed

text \<open>C33. Draining retention returns, whatever fails and whatever other processes do meanwhile: they may submit, claim,
  record, recover or replay deliveries at any server times from \<open>T\<close> on. With \<open>N\<close> the deliveries last
  written before \<open>T\<close>, it makes at most \<open>N / batchSize + 1\<close> calls, provided that these come before
  \<open>T\<close> is seven days ago; it deletes only such deliveries, reports no more deletions than have gone, and
  when it returns without an error no delivery is left whose retention had passed at the last call, but for
  rows other transactions held locked.\<close>

theorem retention_drain_terminates:
  assumes "db_inv (lw_db w)" "0 < batchSize"
    and "\<forall>n db. db_inv db \<longrightarrow> acts_from T db (lw_others w n db)"
    and "\<forall>n. lw_calls w \<le> n \<and> n \<le> lw_calls w + older_rows T (lw_db w) div nat batchSize \<longrightarrow>
      clock_timestamp (lw_env w n) < T + 7 * 24 * Hour"
  shows "\<exists>deleted err w'. drainRetention world_delete ctx_err batchSize w = Some ((deleted, err), w') \<and>
    0 \<le> deleted \<and> deleted + int (older_rows T (lw_db w')) \<le> int (older_rows T (lw_db w)) \<and>
    (int (lw_calls w') - int (lw_calls w) - 1) * batchSize \<le> deleted \<and>
    (err = None \<longrightarrow> (\<forall>r\<in>set (deliveries (lw_db w')).
       retention_expired (lw_env w (lw_calls w' - 1)) (Milliseconds (7 * 24 * Hour)) (Milliseconds (30 * 24 * Hour)) r \<longrightarrow>
       row_locked (lw_env w (lw_calls w' - 1)) (d_id r)))"
proof -
  have "others_from T w" "calls_before T batchSize w" using assms(3,4) by (simp_all add: others_from_def calls_before_def)
  from drain_loop_returns [OF assms(1) this assms(2), of 0] show ?thesis unfolding drainRetention_def by (auto simp: algebra_simps)
qed

definition demo_loop :: "instant \<Rightarrow> loop_world" where
  "demo_loop now = \<lparr>lw_db = demo_db, lw_calls = 0, lw_alerts = [], lw_env = (\<lambda>_. quiet_env now), lw_others = (\<lambda>_ db. db), lw_cancelled = (\<lambda>_. False)\<rparr>"

text \<open>A drain during which another process submits a delivery before every call.\<close>

definition demo_busy_loop :: loop_world where
  "demo_busy_loop = (demo_loop (999 * Hour))\<lparr>lw_others := (\<lambda>n db.
     snd (Submit (quiet_env (998 * Hour)) \<lparr>st_backlogLimit = 10\<rparr> db (demo_submission ''new'' 9)))\<rparr>"

theorem retention_drain_terminates_witness:
  "\<exists>deleted err w'. drainRetention world_delete ctx_err 1 demo_busy_loop = Some ((deleted, err), w') \<and>
     deleted + int (older_rows (998 * Hour) (lw_db w')) \<le> int (length (deliveries demo_db))"
proof -
  let ?w = demo_busy_loop
  have "db_inv (lw_db ?w)" using demo_db_inv by (simp add: demo_busy_loop_def demo_loop_def)
  moreover have "acts_from (998 * Hour) db (lw_others ?w n db)" for n db
    using acts_step [OF acts_none _ at_submit, of "998 * Hour" "quiet_env (998 * Hour)"]
    by (simp add: demo_busy_loop_def quiet_env_def)
  moreover have "clock_timestamp (lw_env ?w n) < 998 * Hour + 7 * 24 * Hour" for n
    by (simp add: demo_busy_loop_def demo_loop_def quiet_env_def)
  moreover have "older_rows (998 * Hour) (lw_db ?w) \<le> length (deliveries demo_db)"
    by (simp add: older_rows_def count_where_def demo_busy_loop_def demo_loop_def)
  ultimately show ?thesis using retention_drain_terminates [of ?w 1 "998 * Hour"] by fastforce
qed

section \<open>Alerts\<close>

lemma fold_min_attained: "fold min xs x \<in> set (x # xs)" for x :: int
  unfolding Min.set_eq_fold [symmetric] by (rule Min_in) simp_all

lemma oldest_seconds_ge: "60 \<le> oldest_seconds now ts \<longleftrightarrow> (\<exists>t\<in>set ts. t + 60 * Second \<le> now)"
proof (cases ts)
  case (Cons x xs)
  let ?m = "fold min xs x"
  have "(60 :: rat) \<le> of_int (now - ?m) / of_int Second \<longleftrightarrow> of_int (60 * Second) \<le> (of_int (now - ?m) :: rat)"
    by (simp add: pos_le_divide_eq del: of_int_diff)
  also have "\<dots> \<longleftrightarrow> ?m + 60 * Second \<le> now" by (simp only: of_int_le_iff) linarith
  also have "\<dots> \<longleftrightarrow> (\<exists>t\<in>set ts. t + 60 * Second \<le> now)"
    using fold_min_attained [of xs x] fold_min_le [of _ x xs] unfolding Cons by (meson add_right_mono order_trans)
  finally show ?thesis unfolding Cons oldest_seconds_def by (simp add: le_max_iff_disj)
qed (simp add: oldest_seconds_def)

text \<open>The alerts are exact: a cycle that could read the snapshot warns of an aging backlog exactly when some
  pending delivery has been due for a minute, of delayed publication exactly when an unpublished event has
  been available for a minute, and of expired leases exactly when a delivery is held under one.\<close>

theorem alerts_exact:
  assumes "alert_cycle w = Some (None, w')"
  defines "db \<equiv> lw_others w (lw_calls w) (lw_db w)" and "now \<equiv> clock_timestamp (lw_env w (lw_calls w))"
  shows "\<exists>new. lw_alerts w' = lw_alerts w @ new \<and> lw_db w' = db \<and>
    ((\<exists>x. BacklogAging x \<in> set new) \<longleftrightarrow> (\<exists>r\<in>set (deliveries db). d_status r = StatusPending \<and> d_next_attempt_at r + 60 * Second \<le> now)) \<and>
    ((\<exists>x. OutboxDelayed x \<in> set new) \<longleftrightarrow> (\<exists>e\<in>set (outbox_events db). o_published_at e = None \<and> o_available_at e + 60 * Second \<le> now)) \<and>
    ((\<exists>n. LeasesExpired n \<in> set new) \<longleftrightarrow> (\<exists>r\<in>set (deliveries db). d_status r = StatusDelivering \<and>
       (case d_lease_until r of None \<Rightarrow> False | Some u \<Rightarrow> u \<le> now)))"
proof -
  obtain a w1 where call: "loop_call (\<lambda>E db. (OperationalMetrics E db, db)) w = (a, w1)" by fastforce
  note c = loop_call_simps [OF call]
  from assms(1) call obtain s where s: "a = Inr s" "w' = w1\<lparr>lw_alerts := lw_alerts w1 @ alertOperationalState s\<rparr>"
    by (cases a) (auto simp: alert_cycle_def)
  from c(1) s(1) have "OperationalMetrics (lw_env w (lw_calls w)) db = Inr s" and db: "lw_db w1 = db"
    unfolding db_def prod.inject by (blast, metis)
  then have os: "os_OldestPendingSeconds s = oldest_seconds now (map d_next_attempt_at
        (filter (\<lambda>r. d_status r = StatusPending \<and> d_next_attempt_at r \<le> now) (deliveries db)))"
    "os_OldestOutboxSeconds s = oldest_seconds now (map o_available_at (filter (\<lambda>e. o_published_at e = None) (outbox_events db)))"
    "os_ExpiredLeases s = count_where (\<lambda>r. d_status r = StatusDelivering \<and> (case d_lease_until r of None \<Rightarrow> False | Some u \<Rightarrow> u \<le> now)) (deliveries db)"
    by (auto simp: OperationalMetrics_def Let_def now_def split: if_splits option.splits)
  have pending: "60 \<le> os_OldestPendingSeconds s \<longleftrightarrow> (\<exists>r\<in>set (deliveries db). d_status r = StatusPending \<and> d_next_attempt_at r + 60 * Second \<le> now)"
    unfolding os oldest_seconds_ge by auto
  have outbox: "60 \<le> os_OldestOutboxSeconds s \<longleftrightarrow> (\<exists>e\<in>set (outbox_events db). o_published_at e = None \<and> o_available_at e + 60 * Second \<le> now)"
    unfolding os oldest_seconds_ge by auto
  have leases: "0 < os_ExpiredLeases s \<longleftrightarrow> (\<exists>r\<in>set (deliveries db). d_status r = StatusDelivering \<and>
       (case d_lease_until r of None \<Rightarrow> False | Some u \<Rightarrow> u \<le> now))"
    unfolding os by (rule count_where_pos)
  show ?thesis
    unfolding pending [symmetric] outbox [symmetric] leases [symmetric] s(2)
    by (intro exI [of _ "alertOperationalState s"]) (auto simp: c(6) db alertOperationalState_def)
qed

theorem alerts_exact_witness:
  "\<exists>w' x. alert_cycle (demo_loop (2 * Hour)) = Some (None, w') \<and> BacklogAging x \<in> set (lw_alerts w')"
proof -
  obtain w' where w': "alert_cycle (demo_loop (2 * Hour)) = Some (None, w')"
    by (simp add: alert_cycle_def loop_call_def demo_loop_def OperationalMetrics_def quiet_env_def Let_def)
  have "\<exists>r\<in>set (deliveries demo_db). d_status r = StatusPending \<and> d_next_attempt_at r + 60 * Second \<le> 2 * Hour" by code_simp
  with alerts_exact [OF w'] w' show ?thesis by (auto simp: demo_loop_def quiet_env_def)
qed

end
