(* ===== verification/Job_Machine.thy ===== *)
theory Job_Machine
  imports System
begin

text \<open>
  The store as a refinement of a small abstract machine. The abstract machine knows jobs only: a job waits, is worked
  on, is delivered or dead, has a generation and the list of its recorded results. Leases, clocks, locks, the
  Outbox and faults are gone. Every store call, under any environment, is one step of the
  abstract machine or none, and an invariant proved there holds of every reachable database.
\<close>

section \<open>The abstract machine\<close>

datatype phase = Waiting | Working | Delivered | Dead

record job =
  jb_phase :: phase
  jb_generation :: int
  jb_results :: "result_class list"
  jb_request :: "(string \<times> string \<times> byte list) \<times> (string \<times> int) \<times> string \<times> (string, string) go_map \<times> byte list \<times> string"

type_synonym jobs = "string \<Rightarrow> job option"

definition begin_work :: "job \<Rightarrow> job" where
  "begin_work j = j\<lparr>jb_phase := Working\<rparr>"

definition finish_work :: "result_class \<Rightarrow> job \<Rightarrow> job" where
  "finish_work c j =
     j\<lparr>jb_phase := (case c of RcSucceeded \<Rightarrow> Delivered | RcPermanentFailure \<Rightarrow> Dead | RcRetryableFailure \<Rightarrow> Waiting),
       jb_generation := (if c = RcRetryableFailure then jb_generation j + 1 else jb_generation j),
       jb_results := jb_results j @ [c]\<rparr>"

definition give_up :: "job \<Rightarrow> job" where
  "give_up j = j\<lparr>jb_phase := Dead\<rparr>"

definition reopen :: "job \<Rightarrow> job" where
  "reopen j = j\<lparr>jb_phase := Waiting, jb_generation := jb_generation j + 1\<rparr>"

definition in_phase :: "phase set \<Rightarrow> jobs \<Rightarrow> string \<Rightarrow> bool" where
  "in_phase P J i \<longleftrightarrow> (\<exists>j. J i = Some j \<and> jb_phase j \<in> P)"

inductive job_step :: "jobs \<Rightarrow> jobs \<Rightarrow> bool" where
  job_idle: "job_step J J"
| job_accept: "J i = None \<Longrightarrow> job_step J (J(i \<mapsto> \<lparr>jb_phase = Waiting, jb_generation = 0, jb_results = [], jb_request = q\<rparr>))"
| job_claim: "J i = Some j \<Longrightarrow> jb_phase j = Waiting \<Longrightarrow> job_step J (J(i \<mapsto> begin_work j))"
| job_finish: "J i = Some j \<Longrightarrow> jb_phase j = Working \<Longrightarrow> job_step J (J(i \<mapsto> finish_work c j))"
| job_reopen: "J i = Some j \<Longrightarrow> jb_phase j = Dead \<Longrightarrow> job_step J (J(i \<mapsto> reopen j))"
| job_expire: "(\<And>i. i \<in> I \<Longrightarrow> in_phase {Waiting} J i) \<Longrightarrow>
    job_step J (\<lambda>i. if i \<in> I then map_option give_up (J i) else J i)"
| job_recover: "(\<And>i. i \<in> I \<Longrightarrow> in_phase {Working} J i \<and> cls i \<noteq> RcSucceeded) \<Longrightarrow>
    job_step J (\<lambda>i. if i \<in> I then map_option (finish_work (cls i)) (J i) else J i)"
| job_forget: "(\<And>i. i \<in> I \<Longrightarrow> in_phase {Delivered, Dead} J i) \<Longrightarrow>
    job_step J (\<lambda>i. if i \<in> I then None else J i)"

inductive job_reachable :: "jobs \<Rightarrow> bool" where
  jobs_start: "job_reachable (\<lambda>_. None)"
| jobs_next: "job_reachable J \<Longrightarrow> job_step J J' \<Longrightarrow> job_reachable J'"

section \<open>An invariant of the abstract machine\<close>

text \<open>A job has a success among its results exactly when it is delivered, and then as the last one; it never has
  more results than generations.\<close>

definition job_ok :: "job \<Rightarrow> bool" where
  "job_ok j \<longleftrightarrow> 0 \<le> jb_generation j \<and>
     (if jb_phase j = Delivered then jb_results j \<noteq> [] \<and> last (jb_results j) = RcSucceeded \<and> RcSucceeded \<notin> set (butlast (jb_results j))
      else RcSucceeded \<notin> set (jb_results j)) \<and>
     int (length (jb_results j)) \<le> jb_generation j + (if jb_phase j \<in> {Delivered, Dead} then 1 else 0)"

lemma job_ok_updates:
  "job_ok j \<Longrightarrow> jb_phase j = Waiting \<Longrightarrow> job_ok (begin_work j)"
  "job_ok j \<Longrightarrow> jb_phase j = Waiting \<Longrightarrow> job_ok (give_up j)"
  "job_ok j \<Longrightarrow> jb_phase j = Dead \<Longrightarrow> job_ok (reopen j)"
  "job_ok j \<Longrightarrow> jb_phase j = Working \<Longrightarrow> job_ok (finish_work c j)"
  by (auto simp: job_ok_def begin_work_def give_up_def reopen_def finish_work_def split: result_class.splits)

lemma job_step_ok: "job_step J J' \<Longrightarrow> (\<And>i j. J i = Some j \<Longrightarrow> job_ok j) \<Longrightarrow> J' i = Some j' \<Longrightarrow> job_ok j'"
proof (induction arbitrary: i j' rule: job_step.induct)
  case (job_expire I J)
  from job_expire(1) [of i] job_expire(2,3) show ?case by (cases "i \<in> I") (auto simp: in_phase_def job_ok_updates)
next
  case (job_recover I J cls)
  from job_recover(1) [of i] job_recover(2,3) show ?case by (cases "i \<in> I") (auto simp: in_phase_def job_ok_updates)
next
  case (job_forget I J)
  then show ?case by (auto split: if_splits)
qed (auto simp: job_ok_updates job_ok_def [of "\<lparr>jb_phase = _, jb_generation = _, jb_results = _, jb_request = _\<rparr>"] split: if_splits)

lemma job_reachable_ok: "job_reachable J \<Longrightarrow> J i = Some j \<Longrightarrow> job_ok j"
  by (induction arbitrary: i j rule: job_reachable.induct) (auto dest: job_step_ok)

section \<open>The abstraction\<close>

definition phase_of :: "status \<Rightarrow> phase" where
  "phase_of s = (case s of StatusPending \<Rightarrow> Waiting | StatusDelivering \<Rightarrow> Working | StatusSucceeded \<Rightarrow> Delivered | StatusFailedPermanent \<Rightarrow> Dead)"

definition results_of :: "attempt_row list \<Rightarrow> string \<Rightarrow> result_class list" where
  "results_of as i = map a_result_class (filter (\<lambda>a. a_delivery_id a = i) as)"

definition job_of :: "result_class list \<Rightarrow> delivery_row \<Rightarrow> job" where
  "job_of results r =
     \<lparr>jb_phase = phase_of (d_status r), jb_generation = d_generation r, jb_results = results,
      jb_request = ((d_caller_id r, d_idempotency_key r, d_request_hash r), (d_destination_id r, d_destination_version r), d_method r,
        d_caller_headers r, d_body r, d_supplier_idempotency_value r)\<rparr>"

definition jobs_of :: "db \<Rightarrow> jobs" where
  "jobs_of db i = map_option (job_of (results_of (delivery_attempts db) i)) (find (\<lambda>r. d_id r = i) (deliveries db))"

lemma jobs_of_row: "db_inv db \<Longrightarrow> r \<in> set (deliveries db) \<Longrightarrow> jobs_of db (d_id r) = Some (job_of (results_of (delivery_attempts db) (d_id r)) r)"
proof -
  assume "db_inv db" "r \<in> set (deliveries db)"
  then have "find (\<lambda>x. d_id x = d_id r) (deliveries db) = Some r"
    by (intro find_unique [where key = d_id]) (simp_all add: db_inv_def schema_ok_def deliveries_ok_def)
  then show ?thesis by (simp add: jobs_of_def)
qed

lemma find_no_delivery: "\<not> has_delivery db i \<Longrightarrow> find (\<lambda>r. d_id r = i) (deliveries db) = None"
  by (auto simp: has_delivery_def find_None_iff)

lemma jobs_of_None: "\<not> has_delivery db i \<Longrightarrow> jobs_of db i = None"
  by (simp add: jobs_of_def find_no_delivery)

lemma jobs_of_Some:
  assumes "jobs_of db i = Some j"
  obtains r where "r \<in> set (deliveries db)" "d_id r = i" "j = job_of (results_of (delivery_attempts db) i) r"
  using assms by (auto simp: jobs_of_def dest!: find_SomeD)

text \<open>Two databases with the same deliveries and attempts have the same jobs.\<close>

lemma jobs_of_cong: "deliveries db' = deliveries db \<Longrightarrow> delivery_attempts db' = delivery_attempts db \<Longrightarrow> jobs_of db' = jobs_of db"
  by (simp add: jobs_of_def fun_eq_iff)

lemma find_map_key: "(\<And>r. d_id (f r) = d_id r) \<Longrightarrow> find (\<lambda>r. d_id r = i) (map f rs) = map_option f (find (\<lambda>r. d_id r = i) rs)"
  by (induction rs) auto

text \<open>The jobs after an UPDATE of deliveries that keeps their keys.\<close>

lemma jobs_of_update:
  assumes "deliveries db' = update_where p f (deliveries db)" "\<And>r. d_id (f r) = d_id r"
  shows "jobs_of db' i = map_option (\<lambda>r. job_of (results_of (delivery_attempts db') i) (if p r then f r else r)) (find (\<lambda>r. d_id r = i) (deliveries db))"
proof -
  have "find (\<lambda>r. d_id r = i) (update_where p f (deliveries db)) = map_option (\<lambda>r. if p r then f r else r) (find (\<lambda>r. d_id r = i) (deliveries db))"
    unfolding update_where_def by (rule find_map_key) (simp add: assms(2))
  then show ?thesis by (simp add: jobs_of_def assms(1) option.map_comp comp_def)
qed

text \<open>An UPDATE of one row is an update of one job.\<close>

lemma jobs_of_update_one:
  assumes "db_inv db" "deliveries db' = update_where p f (deliveries db)" "\<And>r. d_id (f r) = d_id r"
    and r: "r \<in> set (deliveries db)" "p r" and only: "\<And>x. p x \<Longrightarrow> d_id x = d_id r"
    and results: "\<And>i. i \<noteq> d_id r \<Longrightarrow> results_of (delivery_attempts db') i = results_of (delivery_attempts db) i"
  shows "jobs_of db' = (jobs_of db)(d_id r \<mapsto> job_of (results_of (delivery_attempts db') (d_id r)) (f r))"
proof
  fix i
  have found: "find (\<lambda>x. d_id x = d_id r) (deliveries db) = Some r"
    using assms(1) r(1) by (intro find_unique [where key = d_id]) (simp_all add: db_inv_def schema_ok_def deliveries_ok_def)
  have "\<not> p x" if "find (\<lambda>r. d_id r = i) (deliveries db) = Some x" "i \<noteq> d_id r" for x
    using that only by (auto dest!: find_SomeD)
  then show "jobs_of db' i = ((jobs_of db)(d_id r \<mapsto> job_of (results_of (delivery_attempts db') (d_id r)) (f r))) i"
    using jobs_of_update [OF assms(2,3), of i] found r(2) results [of i]
    by (cases "i = d_id r"; cases "find (\<lambda>r. d_id r = i) (deliveries db)") (auto simp: jobs_of_def)
qed

section \<open>Every store call is a step of the machine\<close>

lemma commit_snd: "snd (commit E msg db db' x) = db \<or> snd (commit E msg db db' x) = db'"
  by (simp add: commit_def)

lemma refines_commit:
  assumes "job_step (jobs_of db) (jobs_of db')"
  shows "job_step (jobs_of db) (jobs_of (snd (commit E msg db db' x)))"
  using commit_snd [of E msg db db' x] assms job_idle by metis

lemma refines_submit: "job_step (jobs_of db) (jobs_of (snd (Submit E store db s)))" if inv: "db_inv db"
proof -
  have "job_step (jobs_of db) (jobs_of (snd (submit_new E db s)))"
  proof (cases rule: submit_new_cases [of E db s])
    case (committed r e d)
    then have r: "\<not> has_delivery db (d_id r)" "d_status r = StatusPending" "d_generation r = 0" by (auto simp: accepts_def)
    let ?db' = "db\<lparr>deliveries := deliveries db @ [r], outbox_events := outbox_events db @ [e]\<rparr>"
    have none: "results_of (delivery_attempts db) (d_id r) = []"
      using inv r(1) by (auto simp: results_of_def filter_empty_conv db_inv_def schema_ok_def attempts_ok_def list_all_iff)
    have "find (\<lambda>x. d_id x = i) (deliveries db @ [r]) =
        (if i = d_id r then Some r else find (\<lambda>x. d_id x = i) (deliveries db))" for i
    proof -
      have "find (\<lambda>x. d_id x = i) (rs @ [r]) = (case find (\<lambda>x. d_id x = i) rs of Some y \<Rightarrow> Some y | None \<Rightarrow> if i = d_id r then Some r else None)" for rs
        by (induction rs) auto
      moreover have "find (\<lambda>x. d_id x = d_id r) (deliveries db) = None" by (rule find_no_delivery [OF r(1)])
      ultimately show ?thesis by (auto split: option.split)
    qed
    then have "jobs_of ?db' = (jobs_of db)(d_id r \<mapsto> job_of [] r)" by (auto simp: jobs_of_def fun_eq_iff none)
    with job_accept [where J = "jobs_of db" and i = "d_id r", OF jobs_of_None [OF r(1)]] r have "job_step (jobs_of db) (jobs_of ?db')" by (simp add: job_of_def phase_of_def)
    then show ?thesis unfolding committed(3) by (rule refines_commit)
  qed (simp add: job_idle)
  then show ?thesis by (auto simp: Submit_def job_idle commit_def split: option.split)
qed

lemma refines_claim: "job_step (jobs_of db) (jobs_of (snd (ClaimDelivery E db i g owner lease)))" if inv: "db_inv db"
proof -
  have step: "job_step (jobs_of db) (jobs_of (db\<lparr>deliveries := update_where (worker_eligible now k g) (claim_row now owner token lease) (deliveries db)\<rparr>))"
    if found: "find (worker_eligible now k g) (deliveries db) = Some r" for now k token r
  proof -
    from found have r: "r \<in> set (deliveries db)" "worker_eligible now k g r" by (auto dest: find_SomeD)
    then have w: "d_status r = StatusPending" "d_id r = k" by (auto simp: worker_eligible_def)
    let ?db' = "db\<lparr>deliveries := update_where (worker_eligible now k g) (claim_row now owner token lease) (deliveries db)\<rparr>"
    have "jobs_of ?db' = (jobs_of db)(d_id r \<mapsto> job_of (results_of (delivery_attempts ?db') (d_id r)) (claim_row now owner token lease r))"
      by (rule jobs_of_update_one [where p = "worker_eligible now k g" and f = "claim_row now owner token lease", OF inv _ _ r]) (use w in \<open>auto simp: worker_eligible_def claim_row_def\<close>)
    moreover have "jb_phase (job_of x r) = Waiting" "job_of x (claim_row now owner token lease r) = begin_work (job_of x r)" for x
      using w by (simp_all add: job_of_def phase_of_def begin_work_def claim_row_def)
    ultimately show ?thesis using job_claim [where J = "jobs_of db" and i = "d_id r", OF jobs_of_row [OF inv r(1)]] by simp
  qed
  show ?thesis
    unfolding ClaimDelivery_def Let_def
    by (auto simp: job_idle step split: sum.split option.split intro!: refines_commit)
qed

lemma refines_complete: "job_step (jobs_of db) (jobs_of (snd (completeResult E db result cls next)))" if inv: "db_inv db"
proof -
  let ?p = "fenced (clock_timestamp E) result cls next" and ?f = "complete_row (clock_timestamp E) cls next"
  let ?db1 = "db\<lparr>deliveries := update_where ?p ?f (deliveries db)\<rparr>"
  have step: "job_step (jobs_of db) (jobs_of db2)"
    if one: "count_where ?p (deliveries db) = 1" and ins: "insert_attempt ?db1 (attempt_of_result attemptID result cls) = Some db2" for attemptID db2
  proof -
    note db2 = insert_attempt_Some [OF ins]
    from one obtain r where r: "r \<in> set (deliveries db)" "?p r" by (metis count_where_pos zero_less_one)
    then have w: "d_id r = ar_DeliveryID result" "d_status r = StatusDelivering" by (auto simp: fenced_def)
    have res: "results_of (delivery_attempts db2) i =
        (if i = d_id r then results_of (delivery_attempts db) i @ [cls] else results_of (delivery_attempts db) i)" for i
      by (simp add: db2 results_of_def w(1) attempt_of_result_def)
    have "jobs_of db2 = (jobs_of db)(d_id r \<mapsto> job_of (results_of (delivery_attempts db2) (d_id r)) (?f r))"
      by (rule jobs_of_update_one [where p = ?p and f = ?f, OF inv _ _ r]) (use w(1) in \<open>auto simp: db2 fenced_def complete_row_def results_of_def attempt_of_result_def\<close>)
    moreover have "job_of (x @ [cls]) (?f r) = finish_work cls (job_of x r)" for x
      by (simp add: job_of_def finish_work_def complete_row_def phase_of_def split: result_class.split)
    moreover have "jb_phase (job_of x r) = Working" for x using w by (simp add: job_of_def phase_of_def)
    ultimately show ?thesis using job_finish [where J = "jobs_of db" and i = "d_id r", OF jobs_of_row [OF inv r(1)]] by (simp add: res)
  qed
  show ?thesis
    unfolding completeResult_def Let_def
    by (auto simp: job_idle step split: sum.split option.split intro!: refines_commit)
qed

lemma refines_replay: "job_step (jobs_of db) (jobs_of (snd (Replay E db i op reason)))" if inv: "db_inv db"
proof -
  have step: "job_step (jobs_of db) (jobs_of (snd (replay_tx E db a b c op reason r)))"
    if "find (replayable k) (deliveries db) = Some r" for a b c k r
  proof -
    from that have r: "r \<in> set (deliveries db)" "replayable (d_id r) r" and w: "d_status r = StatusFailedPermanent"
      by (auto dest!: find_SomeD simp: replayable_def)
    have one: "job_step (jobs_of db) (jobs_of db3)"
      if "deliveries db3 = update_where (replayable (d_id r)) (replay_row t) (deliveries db)" "delivery_attempts db3 = delivery_attempts db" for t db3
    proof -
      have "jobs_of db3 = (jobs_of db)(d_id r \<mapsto> job_of (results_of (delivery_attempts db3) (d_id r)) (replay_row t r))"
        by (rule jobs_of_update_one [OF inv that(1) _ r]) (auto simp: replayable_def that(2))
      moreover have "job_of x (replay_row t r) = reopen (job_of x r)" "jb_phase (job_of x r) = Dead" for x
        using w by (simp_all add: job_of_def reopen_def replay_row_def phase_of_def)
      ultimately show ?thesis using job_reopen [where J = "jobs_of db" and i = "d_id r", OF jobs_of_row [OF inv r(1)]] that(2) by simp
    qed
    show ?thesis
      unfolding replay_tx_def Let_def
      by (auto simp: job_idle split: option.split intro!: refines_commit one dest!: insert_audit_Some insert_event_Some)
  qed
  show ?thesis by (auto simp: Replay_def job_idle step split: sum.split option.split)
qed

text \<open>An UPDATE of many rows is an update of many jobs.\<close>

lemma jobs_of_update_many:
  assumes inv: "db_inv db" and upd: "deliveries db' = update_where p f (deliveries db)" "\<And>r. d_id (f r) = d_id r"
  defines "I \<equiv> d_id ` {r \<in> set (deliveries db). p r}"
  assumes hit: "\<And>r. r \<in> set (deliveries db) \<Longrightarrow> p r \<Longrightarrow>
      job_of (results_of (delivery_attempts db') (d_id r)) (f r) = g (d_id r) (job_of (results_of (delivery_attempts db) (d_id r)) r)"
    and miss: "\<And>i. i \<notin> I \<Longrightarrow> results_of (delivery_attempts db') i = results_of (delivery_attempts db) i"
  shows "jobs_of db' = (\<lambda>i. if i \<in> I then map_option (g i) (jobs_of db i) else jobs_of db i)"
proof
  fix i
  show "jobs_of db' i = (if i \<in> I then map_option (g i) (jobs_of db i) else jobs_of db i)"
  proof (cases "find (\<lambda>r. d_id r = i) (deliveries db)")
    case None
    then show ?thesis using jobs_of_update [OF upd, of i] by (simp add: jobs_of_def)
  next
    case (Some r)
    then have r: "r \<in> set (deliveries db)" "d_id r = i" by (auto dest: find_SomeD)
    then have "i \<in> I \<longleftrightarrow> p r" unfolding I_def using delivery_row_unique [OF inv] by blast
    with Some r hit [OF r(1)] miss [of i] jobs_of_update [OF upd, of i] show ?thesis by (auto simp: jobs_of_def)
  qed
qed

lemma refines_schedule: "job_step (jobs_of db) (jobs_of (snd (ScheduleDueRetries E db limit)))" if inv: "db_inv db"
proof -
  have step: "job_step (jobs_of db) (jobs_of db2)"
    if "insert_signals E n sigs (db\<lparr>deliveries := update_where (retry_expired E) (expire_row E) (deliveries db)\<rparr>) = Some (c, db2)" for n sigs c db2
  proof -
    from that have db2: "deliveries db2 = update_where (retry_expired E) (expire_row E) (deliveries db)" "delivery_attempts db2 = delivery_attempts db"
      by (auto elim!: insert_signals_events)
    have "jobs_of db2 = (\<lambda>i. if i \<in> d_id ` {r \<in> set (deliveries db). retry_expired E r} then map_option give_up (jobs_of db i) else jobs_of db i)"
      by (rule jobs_of_update_many [OF inv db2(1)]) (auto simp: db2(2) expire_row_def job_of_def give_up_def phase_of_def)
    moreover have "in_phase {Waiting} (jobs_of db) (d_id r)" if "r \<in> set (deliveries db)" "retry_expired E r" for r
      using jobs_of_row [OF inv that(1)] that(2) by (simp add: in_phase_def job_of_def phase_of_def retry_expired_def)
    ultimately show ?thesis using job_expire [of "d_id ` {r \<in> set (deliveries db). retry_expired E r}" "jobs_of db"] by auto
  qed
  show ?thesis
    unfolding ScheduleDueRetries_def Let_def
    by (auto simp: job_idle split: option.split intro!: refines_commit) (rule step)
qed

definition recovered_class :: "env \<Rightarrow> delivery_row \<Rightarrow> result_class" where
  "recovered_class E r = (if d_status (recover_row E r) = StatusFailedPermanent then RcPermanentFailure else RcRetryableFailure)"

lemma insert_attempts_results:
  "insert_attempts E n rs db = Some db' \<Longrightarrow> deliveries db' = deliveries db \<and>
   results_of (delivery_attempts db') i = results_of (delivery_attempts db) i @ map (recovered_class E) (filter (\<lambda>r. d_id r = i) rs)"
proof (induction rs arbitrary: n db)
  case (Cons r rs)
  then obtain db1 where ins: "insert_attempt db (recovered_attempt E n r) = Some db1" "insert_attempts E (Suc n) rs db1 = Some db'"
    by (auto split: option.splits)
  from Cons(1) [OF ins(2)] insert_attempt_Some [OF ins(1)] show ?case
    by (simp add: results_of_def recovered_attempt_def recovered_class_def Let_def)
qed simp

lemma filter_distinct_key: "distinct (map d_id rs) \<Longrightarrow> r \<in> set rs \<Longrightarrow> filter (\<lambda>x. d_id x = d_id r) rs = [r]"
proof (induction rs)
  case (Cons a rs)
  show ?case
  proof (cases "a = r")
    case True
    with Cons(2) have "d_id r \<notin> d_id ` set rs" by simp
    then have "filter (\<lambda>x. d_id x = d_id r) rs = []" unfolding filter_empty_conv by (metis image_eqI)
    with True show ?thesis by simp
  next
    case False
    with Cons(2,3) have "d_id a \<noteq> d_id r" by force
    with Cons False show ?thesis by simp
  qed
qed simp

lemma refines_recover: "job_step (jobs_of db) (jobs_of (snd (RecoverExpiredDeliveries E db limit)))" if inv: "db_inv db"
proof -
  let ?X = "expired_leases E db limit"
  have step: "job_step (jobs_of db) (jobs_of db3)" if "recover_statement E ?X db = Some db3" for db3
  proof -
    let ?db1 = "db\<lparr>deliveries := update_where (\<lambda>r. r \<in> set ?X) (recover_row E) (deliveries db)\<rparr>"
    from that obtain db2 c where att: "insert_attempts E 0 ?X ?db1 = Some db2"
      and sig: "insert_signals E (length ?X) (recovered_signals E ?X) db2 = Some (c, db3)"
      by (auto simp: recover_statement_def Let_def split: option.splits)
    from sig have "deliveries db3 = deliveries db2" "delivery_attempts db3 = delivery_attempts db2" by (auto elim!: insert_signals_events)
    with insert_attempts_results [OF att] have db3: "deliveries db3 = update_where (\<lambda>r. r \<in> set ?X) (recover_row E) (deliveries db)"
      "\<And>i. results_of (delivery_attempts db3) i = results_of (delivery_attempts db) i @ map (recovered_class E) (filter (\<lambda>r. d_id r = i) ?X)" by simp_all
    let ?I = "d_id ` {r \<in> set (deliveries db). r \<in> set ?X}"
    let ?cls = "\<lambda>i. recovered_class E (hd (filter (\<lambda>r. d_id r = i) ?X))"
    have X: "r \<in> set (deliveries db)" "d_status r = StatusDelivering" "filter (\<lambda>x. d_id x = d_id r) ?X = [r]" if "r \<in> set ?X" for r
      using expired_leasesD [OF that] filter_distinct_key [OF distinct_expired_leases [OF inv] that] by (auto simp: lease_expired_def)
    have "jobs_of db3 = (\<lambda>i. if i \<in> ?I then map_option (finish_work (?cls i)) (jobs_of db i) else jobs_of db i)"
    proof (rule jobs_of_update_many [OF inv db3(1)])
      fix r assume "r \<in> set (deliveries db)" "r \<in> set ?X"
      then show "job_of (results_of (delivery_attempts db3) (d_id r)) (recover_row E r) =
          finish_work (?cls (d_id r)) (job_of (results_of (delivery_attempts db) (d_id r)) r)"
        by (simp add: db3(2) X(3)) (simp add: job_of_def finish_work_def recovered_class_def recover_row_def phase_of_def Let_def)
    next
      fix i assume "i \<notin> ?I"
      then have "filter (\<lambda>r. d_id r = i) ?X = []" using X(1) by (auto simp: filter_empty_conv)
      then show "results_of (delivery_attempts db3) i = results_of (delivery_attempts db) i" by (simp add: db3(2))
    qed simp
    moreover have "in_phase {Working} (jobs_of db) i \<and> ?cls i \<noteq> RcSucceeded" if "i \<in> ?I" for i
      using that X(2) jobs_of_row [OF inv] by (auto simp: in_phase_def job_of_def phase_of_def recovered_class_def)
    then have "job_step (jobs_of db) (\<lambda>i. if i \<in> ?I then map_option (finish_work (?cls i)) (jobs_of db i) else jobs_of db i)"
      by (rule job_recover)
    ultimately show ?thesis by (simp only:)
  qed
  show ?thesis
    unfolding RecoverExpiredDeliveries_def Let_def
    by (auto simp: job_idle split: option.split intro!: refines_commit) (rule step)
qed

lemma refines_retention: "job_step (jobs_of db) (jobs_of (snd (DeleteExpiredTerminal E db s f limit)))" if inv: "db_inv db"
proof -
  have step: "job_step (jobs_of db) (jobs_of (delete_deliveries p db))"
    if terminal: "\<And>r. p r \<Longrightarrow> d_status r = StatusSucceeded \<or> d_status r = StatusFailedPermanent" for p
  proof -
    let ?I = "d_id ` {r \<in> set (deliveries db). p r}"
    have gone: "jobs_of (delete_deliveries p db) i = (if i \<in> ?I then None else jobs_of db i)" for i
    proof (cases "i \<in> ?I")
      case True
      then have "\<not> has_delivery (delete_deliveries p db) i" unfolding has_delivery_delete [OF inv] by (auto simp: list_ex_iff)
      with True show ?thesis by (simp add: jobs_of_None)
    next
      case False
      have "find (\<lambda>r. d_id r = i) (filter (\<lambda>r. \<not> p r) rs) = find (\<lambda>r. d_id r = i) rs" if "set rs \<subseteq> set (deliveries db)" for rs
        using that False by (induction rs) auto
      moreover have "results_of (delivery_attempts (delete_deliveries p db)) i = results_of (delivery_attempts db) i"
        using False by (force simp: results_of_def delete_deliveries_def Let_def list_ex_iff intro!: arg_cong [of _ _ "map a_result_class"] filter_cong)
      ultimately show ?thesis using False by (simp add: jobs_of_def)
    qed
    have "in_phase {Delivered, Dead} (jobs_of db) i" if "i \<in> ?I" for i
      using that jobs_of_row [OF inv] terminal by (fastforce simp: in_phase_def job_of_def phase_of_def split: status.split)
    then have "job_step (jobs_of db) (\<lambda>i. if i \<in> ?I then None else jobs_of db i)" by (rule job_forget)
    then show ?thesis unfolding gone [symmetric] .
  qed
  show ?thesis by (auto simp: DeleteExpiredTerminal_def Let_def job_idle intro!: refines_commit step)
qed

text \<open>The calls that touch neither deliveries nor attempts.\<close>

lemma deliveries_unchanged:
  "deliveries (snd (ClaimOutbox E db owner lease limit)) = deliveries db"
  "deliveries (snd (MarkOutboxPublished E db event)) = deliveries db"
  "deliveries (snd (ReleaseOutbox E db event)) = deliveries db"
  "deliveries (snd (ObserveSignal E db i g)) = deliveries db"
  "deliveries (snd (ReconcileStalledSignals E db watchdog limit)) = deliveries db"
  by (simp_all add: ClaimOutbox_def MarkOutboxPublished_def ReleaseOutbox_def ObserveSignal_def ReconcileStalledSignals_def
      commit_def commit_rows_def Let_def split: sum.split option.split)

lemma upsert_caller_deliveries: "upsert_caller db c h = Some db1 \<Longrightarrow> deliveries db1 = deliveries db"
  by (auto simp: upsert_caller_def split: if_splits)

lemma insert_version_deliveries: "insert_version db v = Some db1 \<Longrightarrow> deliveries db1 = deliveries db"
  by (auto simp: insert_version_def split: if_splits)

lemma deliveries_unchanged_bootstrap: "deliveries (snd (Bootstrap E sha256 db config)) = deliveries db"
  by (auto simp: Bootstrap_def bootstrap_tx_def commit_def Let_def insert_grant_def upsert_destination_def
      split: option.split dest!: upsert_caller_deliveries insert_version_deliveries)

lemmas idle_calls = deliveries_unchanged deliveries_unchanged_bootstrap attempts_unchanged attempts_unchanged_bootstrap

lemma store_step_refines: "store_step db db' \<Longrightarrow> db_inv db \<Longrightarrow> job_step (jobs_of db) (jobs_of db')"
  by (induction rule: store_step.induct)
    (simp_all add: refines_submit refines_claim refines_complete refines_replay refines_schedule refines_recover refines_retention
      CompleteSuccess_def CompleteRetry_def CompletePermanent_def job_idle jobs_of_cong [OF idle_calls(1) idle_calls(7)]
      jobs_of_cong [OF idle_calls(2) idle_calls(8)] jobs_of_cong [OF idle_calls(3) idle_calls(9)]
      jobs_of_cong [OF idle_calls(4) idle_calls(10)] jobs_of_cong [OF idle_calls(5) idle_calls(11)] jobs_of_cong [OF idle_calls(6) idle_calls(12)])

lemma reachable_refines: "reachable db \<Longrightarrow> job_reachable (jobs_of db)"
proof (induction rule: reachable.induct)
  case (reach_init db)
  then have "jobs_of db = (\<lambda>_. None)" by (simp add: jobs_of_def fun_eq_iff provisioned_def)
  then show ?case using jobs_start by simp
next
  case (reach_step db db')
  with store_step_refines [OF reach_step(2) reachable_db_inv] jobs_next show ?case by blast
qed

text \<open>C3. The store refines the job machine: the jobs of a reachable database are a reachable state of the abstract
  machine, every store call, whatever fails in it, is one step of that machine or none, and so every
  delivery has a recorded success exactly when it is delivered, exactly one and as its last result, and never
  more results than generations.\<close>

theorem store_refines_job_machine:
  assumes "reachable db"
  shows "job_reachable (jobs_of db) \<and> (\<forall>db'. store_step db db' \<longrightarrow> job_step (jobs_of db) (jobs_of db')) \<and>
    (\<forall>r\<in>set (deliveries db). let results = map a_result_class (filter (\<lambda>a. a_delivery_id a = d_id r) (delivery_attempts db)) in
       (if d_status r = StatusSucceeded then results \<noteq> [] \<and> last results = RcSucceeded \<and> RcSucceeded \<notin> set (butlast results)
        else RcSucceeded \<notin> set results) \<and>
       int (length results) \<le> d_generation r + (if active_status (d_status r) then 0 else 1))"
proof -
  have inv: "db_inv db" using assms by (rule reachable_db_inv)
  note reach = reachable_refines [OF assms]
  have ok: "job_ok (job_of (results_of (delivery_attempts db) (d_id r)) r)" if "r \<in> set (deliveries db)" for r
    using job_reachable_ok [OF reach jobs_of_row [OF inv that]] .
  have "phase_of s = Delivered \<longleftrightarrow> s = StatusSucceeded" "phase_of s \<in> {Delivered, Dead} \<longleftrightarrow> \<not> active_status s" for s
    by (cases s; simp add: phase_of_def)+
  with ok have "let results = map a_result_class (filter (\<lambda>a. a_delivery_id a = d_id r) (delivery_attempts db)) in
       (if d_status r = StatusSucceeded then results \<noteq> [] \<and> last results = RcSucceeded \<and> RcSucceeded \<notin> set (butlast results)
        else RcSucceeded \<notin> set results) \<and>
       int (length results) \<le> d_generation r + (if active_status (d_status r) then 0 else 1)" if "r \<in> set (deliveries db)" for r
    using that unfolding job_ok_def results_of_def job_of_def by (fastforce simp: Let_def split: if_splits)
  with reach store_step_refines inv show ?thesis by blast
qed

theorem store_refines_job_machine_witness:
  "job_reachable (jobs_of succeeded_demo) \<and> map_option (\<lambda>j. (jb_phase j, jb_results j)) (jobs_of succeeded_demo demo_uuid) = Some (Delivered, [RcSucceeded])"
proof -
  have "map_option (\<lambda>j. (jb_phase j, jb_results j)) (jobs_of succeeded_demo demo_uuid) = Some (Delivered, [RcSucceeded])" by code_simp
  with store_refines_job_machine [OF reachable_succeeded_demo] show ?thesis by blast
qed

end
