(* ===== verification/Json_Text.thy ===== *)
theory Json_Text
  imports Go_Json Uuid_Signal
begin

text \<open>
  The text of JSON as \<open>encoding/json\<close> reads and writes it: the scanner and the stream of values behind
  \<open>json.NewDecoder(...).Decode\<close>, the unquoting of strings with its treatment of escapes, surrogates and
  invalid UTF-8, and \<open>json.Marshal\<close> with its HTML escapes. The handlers and the consumer take the stream
  of values as an argument, so what is proved of them holds for any decoder; this one makes the round trip
  through the queue unconditional.
\<close>

section \<open>Tokens\<close>

text \<open>Scanning a token: its text and what follows, the end of the input inside it, or a syntax error.\<close>

datatype 'a scan = Scanned 'a string | Truncated | BadSyntax

fun keep :: "char \<Rightarrow> string scan \<Rightarrow> string scan" where
  "keep c (Scanned s rest) = Scanned (c # s) rest"
| "keep c Truncated = Truncated"
| "keep c BadSyntax = BadSyntax"

fun scan_map :: "('a \<Rightarrow> 'b) \<Rightarrow> 'a scan \<Rightarrow> 'b scan" where
  "scan_map f (Scanned x rest) = Scanned (f x) rest"
| "scan_map f Truncated = Truncated"
| "scan_map f BadSyntax = BadSyntax"

definition json_space :: "char \<Rightarrow> bool" where
  "json_space c \<longleftrightarrow> (of_char c :: nat) \<in> {32, 9, 13, 10}"

fun scan_literal :: "string \<Rightarrow> string \<Rightarrow> unit scan" where
  "scan_literal [] cs = Scanned () cs"
| "scan_literal (e # es) [] = Truncated"
| "scan_literal (e # es) (c # cs) = (if c = e then scan_literal es cs else BadSyntax)"

datatype string_state = InString | InStringEsc | InStringEscU nat

text \<open>The raw contents of a string, from behind its opening quote.\<close>

fun scan_string :: "string_state \<Rightarrow> string \<Rightarrow> string scan" where
  "scan_string st [] = Truncated"
| "scan_string InString (c # cs) =
     (if c = CHR 0x22 then Scanned [] cs
      else if c = CHR 0x5C then keep c (scan_string InStringEsc cs)
      else if (of_char c :: nat) < 0x20 then BadSyntax
      else keep c (scan_string InString cs))"
| "scan_string InStringEsc (c # cs) =
     (if c \<in> {CHR ''b'', CHR ''f'', CHR ''n'', CHR ''r'', CHR ''t'', CHR 0x5C, CHR ''/'', CHR 0x22}
      then keep c (scan_string InString cs)
      else if c = CHR ''u'' then keep c (scan_string (InStringEscU 4) cs)
      else BadSyntax)"
| "scan_string (InStringEscU n) (c # cs) =
     (if ishex c then keep c (scan_string (if n = 1 then InString else InStringEscU (n - 1)) cs) else BadSyntax)"

datatype number_state = NNeg | NZero | NDigits | NDot | NDot0 | NExp | NExpSign | NExp0

definition number_step :: "number_state \<Rightarrow> char \<Rightarrow> number_state option" where
  "number_step st c =
     (case st of
        NNeg \<Rightarrow> if c = CHR ''0'' then Some NZero else if is_digit c then Some NDigits else None
      | NZero \<Rightarrow> if c = CHR ''.'' then Some NDot else if c = CHR ''e'' \<or> c = CHR ''E'' then Some NExp else None
      | NDigits \<Rightarrow> if is_digit c then Some NDigits else if c = CHR ''.'' then Some NDot
          else if c = CHR ''e'' \<or> c = CHR ''E'' then Some NExp else None
      | NDot \<Rightarrow> if is_digit c then Some NDot0 else None
      | NDot0 \<Rightarrow> if is_digit c then Some NDot0 else if c = CHR ''e'' \<or> c = CHR ''E'' then Some NExp else None
      | NExp \<Rightarrow> if c = CHR ''+'' \<or> c = CHR ''-'' then Some NExpSign else if is_digit c then Some NExp0 else None
      | NExpSign \<Rightarrow> if is_digit c then Some NExp0 else None
      | NExp0 \<Rightarrow> if is_digit c then Some NExp0 else None)"

definition number_done :: "number_state \<Rightarrow> bool" where
  "number_done st \<longleftrightarrow> st \<in> {NZero, NDigits, NDot0, NExp0}"

fun scan_number :: "number_state \<Rightarrow> string \<Rightarrow> string scan" where
  "scan_number st [] = (if number_done st then Scanned [] [] else Truncated)"
| "scan_number st (c # cs) =
     (case number_step st c of
        Some st' \<Rightarrow> keep c (scan_number st' cs)
      | None \<Rightarrow> if number_done st then Scanned [] (c # cs) else BadSyntax)"

definition number_start :: "char \<Rightarrow> number_state option" where
  "number_start c = (if c = CHR ''-'' then Some NNeg else if c = CHR ''0'' then Some NZero
     else if is_digit c then Some NDigits else None)"

section \<open>Runes\<close>

text \<open>\<open>utf8.DecodeRune\<close>: the rune at the front and its width; an invalid sequence is the replacement
  rune of width one.\<close>

definition RuneError :: nat where "RuneError = 0xFFFD"

definition DecodeRune :: "string \<Rightarrow> nat \<times> nat" where
  "DecodeRune s =
     (case map of_char s of
        [] \<Rightarrow> (RuneError, 0)
      | b0 # bs \<Rightarrow>
          let (lo, hi) = (if b0 = 0xE0 then (0xA0, 0xBF) else if b0 = 0xED then (0x80, 0x9F)
                else if b0 = 0xF0 then (0x90, 0xBF) else if b0 = 0xF4 then (0x80, 0x8F) else (0x80, 0xBF));
              low6 = (\<lambda>b. b mod 64); cont = (\<lambda>b. 0x80 \<le> b \<and> b \<le> 0xBF)
          in if b0 < 0x80 then (b0, 1)
             else if 0xC2 \<le> b0 \<and> b0 \<le> 0xDF then
               (case bs of b1 # _ \<Rightarrow> if lo \<le> b1 \<and> b1 \<le> hi then (b0 mod 32 * 64 + low6 b1, 2) else (RuneError, 1)
                | _ \<Rightarrow> (RuneError, 1))
             else if 0xE0 \<le> b0 \<and> b0 \<le> 0xEF then
               (case bs of b1 # b2 # _ \<Rightarrow>
                    if lo \<le> b1 \<and> b1 \<le> hi \<and> cont b2 then (b0 mod 16 * 4096 + low6 b1 * 64 + low6 b2, 3) else (RuneError, 1)
                | _ \<Rightarrow> (RuneError, 1))
             else if 0xF0 \<le> b0 \<and> b0 \<le> 0xF4 then
               (case bs of b1 # b2 # b3 # _ \<Rightarrow>
                    if lo \<le> b1 \<and> b1 \<le> hi \<and> cont b2 \<and> cont b3
                    then (b0 mod 8 * 262144 + low6 b1 * 4096 + low6 b2 * 64 + low6 b3, 4) else (RuneError, 1)
                | _ \<Rightarrow> (RuneError, 1))
             else (RuneError, 1))"

definition EncodeRune :: "nat \<Rightarrow> string" where
  "EncodeRune r0 =
     (let r = (if 0xD800 \<le> r0 \<and> r0 \<le> 0xDFFF \<or> 0x10FFFF < r0 then RuneError else r0) in
      map char_of
       (if r < 0x80 then [r]
        else if r < 0x800 then [0xC0 + r div 64, 0x80 + r mod 64]
        else if r < 0x10000 then [0xE0 + r div 4096, 0x80 + r div 64 mod 64, 0x80 + r mod 64]
        else [0xF0 + r div 262144, 0x80 + r div 4096 mod 64, 0x80 + r div 64 mod 64, 0x80 + r mod 64]))"

section \<open>Strings\<close>

definition getu4 :: "string \<Rightarrow> nat option" where
  "getu4 s =
     (case s of
        b # u # h1 # h2 # h3 # h4 # _ \<Rightarrow>
          if b = CHR 0x5C \<and> u = CHR ''u'' \<and> list_all ishex [h1, h2, h3, h4]
          then Some (unhex h1 * 4096 + unhex h2 * 256 + unhex h3 * 16 + unhex h4) else None
      | _ \<Rightarrow> None)"

definition escape_char :: "char \<Rightarrow> char" where
  "escape_char e = (if e = CHR ''b'' then CHR 0x08 else if e = CHR ''f'' then CHR 0x0C else if e = CHR ''n'' then CHR 0x0A
     else if e = CHR ''r'' then CHR 0x0D else if e = CHR ''t'' then CHR 0x09 else e)"

text \<open>\<open>utf16.DecodeRune\<close> of a pair of surrogates.\<close>

definition surrogate_pair :: "nat \<Rightarrow> nat option \<Rightarrow> nat option" where
  "surrogate_pair r1 second =
     (case second of None \<Rightarrow> None
      | Some r2 \<Rightarrow> if 0xD800 \<le> r1 \<and> r1 < 0xDC00 \<and> 0xDC00 \<le> r2 \<and> r2 < 0xE000
          then Some ((r1 - 0xD800) * 1024 + (r2 - 0xDC00) + 0x10000) else None)"

text \<open>\<open>unquote\<close>, on contents the scanner has passed.\<close>

fun unquote :: "string \<Rightarrow> string" where
  "unquote [] = []"
| "unquote (c # cs) =
     (if c = CHR 0x5C then
        (case cs of
           [] \<Rightarrow> []
         | e # cs1 \<Rightarrow>
             if e = CHR ''u'' then
               (case getu4 (c # cs) of
                  None \<Rightarrow> []
                | Some r \<Rightarrow>
                    if 0xD800 \<le> r \<and> r < 0xE000 then
                      (case surrogate_pair r (getu4 (drop 5 cs)) of
                         Some r' \<Rightarrow> EncodeRune r' @ unquote (drop 11 cs)
                       | None \<Rightarrow> EncodeRune RuneError @ unquote (drop 5 cs))
                    else EncodeRune r @ unquote (drop 5 cs))
             else escape_char e # unquote cs1)
      else if (of_char c :: nat) < 0x80 then c # unquote cs
      else let (r, size) = DecodeRune (c # cs) in EncodeRune r @ unquote (drop (size - 1) cs))"

text \<open>\<open>appendString\<close> with HTML escapes.\<close>

definition html_safe :: "char \<Rightarrow> bool" where
  "html_safe c \<longleftrightarrow> 0x20 \<le> (of_char c :: nat) \<and> c \<notin> {CHR 0x22, CHR 0x5C, CHR ''<'', CHR ''>'', CHR ''&''}"

definition short_escapes :: "(char \<times> char) list" where
  "short_escapes = [(CHR 0x5C, CHR 0x5C), (CHR 0x22, CHR 0x22), (CHR 0x08, CHR ''b''), (CHR 0x0C, CHR ''f''),
     (CHR 0x0A, CHR ''n''), (CHR 0x0D, CHR ''r''), (CHR 0x09, CHR ''t'')]"

definition escape_ascii :: "char \<Rightarrow> string" where
  "escape_ascii c =
     (if html_safe c then [c]
      else case map_of short_escapes c of
        Some e \<Rightarrow> [CHR 0x5C, e]
      | None \<Rightarrow> [CHR 0x5C, CHR ''u'', CHR ''0'', CHR ''0'', hex_digit (of_char c div 16), hex_digit (of_char c mod 16)])"

fun escape_string :: "string \<Rightarrow> string" where
  "escape_string [] = []"
| "escape_string (c # cs) =
     (if (of_char c :: nat) < 0x80 then escape_ascii c @ escape_string cs
      else let (r, size) = DecodeRune (c # cs) in
        (if r = RuneError \<and> size = 1 then CHR 0x5C # ''ufffd''
         else if r = 0x2028 \<or> r = 0x2029 then CHR 0x5C # ''u202'' @ [hex_digit (r mod 16)]
         else c # take (size - 1) cs) @ escape_string (drop (size - 1) cs))"

definition quoted :: "string \<Rightarrow> string" where
  "quoted s = CHR 0x22 # escape_string s @ [CHR 0x22]"

section \<open>Values\<close>

definition maxNestingDepth :: nat where "maxNestingDepth = 10000"

text \<open>The scanner reads a value with a stack of the arrays and objects it is in, each with the elements read
  so far, last first, and an object with the key whose value is being read.\<close>

datatype frame = ArrayFrame "json list" | ObjectFrame "(string \<times> json) list" string

datatype scan_mode =
    BeginValue
  | BeginValueOrEmpty
  | BeginString "(string \<times> json) list"
  | BeginStringOrEmpty
  | EndKey "(string \<times> json) list" string
  | EndValue json

definition begin_value :: "frame list \<Rightarrow> char \<Rightarrow> string \<Rightarrow> (scan_mode \<times> frame list) scan" where
  "begin_value stack c r =
     (if c = CHR ''{'' then if length stack < maxNestingDepth then Scanned (BeginStringOrEmpty, stack) r else BadSyntax
      else if c = CHR ''['' then
        if length stack < maxNestingDepth then Scanned (BeginValueOrEmpty, ArrayFrame [] # stack) r else BadSyntax
      else if c = CHR 0x22 then scan_map (\<lambda>s. (EndValue (JStr (unquote s)), stack)) (scan_string InString r)
      else if c = CHR ''t'' then scan_map (\<lambda>_. (EndValue (JBool True), stack)) (scan_literal ''rue'' r)
      else if c = CHR ''f'' then scan_map (\<lambda>_. (EndValue (JBool False), stack)) (scan_literal ''alse'' r)
      else if c = CHR ''n'' then scan_map (\<lambda>_. (EndValue JNull, stack)) (scan_literal ''ull'' r)
      else case number_start c of
        None \<Rightarrow> BadSyntax
      | Some st \<Rightarrow> scan_map (\<lambda>t. (EndValue (JNum (c # t)), stack)) (scan_number st r))"

definition begin_string :: "(string \<times> json) list \<Rightarrow> frame list \<Rightarrow> char \<Rightarrow> string \<Rightarrow> (scan_mode \<times> frame list) scan" where
  "begin_string members stack c r =
     (if c = CHR 0x22 then scan_map (\<lambda>s. (EndKey members (unquote s), stack)) (scan_string InString r) else BadSyntax)"

fun end_value :: "json \<Rightarrow> frame list \<Rightarrow> char \<Rightarrow> string \<Rightarrow> (scan_mode \<times> frame list) scan" where
  "end_value v [] c r = BadSyntax"
| "end_value v (ArrayFrame vs # stack) c r =
     (if c = CHR '','' then Scanned (BeginValue, ArrayFrame (v # vs) # stack) r
      else if c = CHR '']'' then Scanned (EndValue (JArr (rev (v # vs))), stack) r
      else BadSyntax)"
| "end_value v (ObjectFrame members key # stack) c r =
     (if c = CHR '','' then Scanned (BeginString ((key, v) # members), stack) r
      else if c = CHR ''}'' then Scanned (EndValue (JObj (rev ((key, v) # members))), stack) r
      else BadSyntax)"

definition scan_step :: "scan_mode \<Rightarrow> frame list \<Rightarrow> char \<Rightarrow> string \<Rightarrow> (scan_mode \<times> frame list) scan" where
  "scan_step m stack c r =
     (case m of
        BeginValue \<Rightarrow> begin_value stack c r
      | BeginValueOrEmpty \<Rightarrow> if c = CHR '']'' then Scanned (EndValue (JArr []), tl stack) r else begin_value stack c r
      | BeginStringOrEmpty \<Rightarrow> if c = CHR ''}'' then Scanned (EndValue (JObj []), stack) r else begin_string [] stack c r
      | BeginString members \<Rightarrow> begin_string members stack c r
      | EndKey members key \<Rightarrow> if c = CHR '':'' then Scanned (BeginValue, ObjectFrame members key # stack) r else BadSyntax
      | EndValue v \<Rightarrow> end_value v stack c r)"

definition finished :: "scan_mode \<Rightarrow> frame list \<Rightarrow> json option" where
  "finished m stack = (case (m, stack) of (EndValue v, []) \<Rightarrow> Some v | _ \<Rightarrow> None)"

definition unread :: "'a scan \<Rightarrow> nat" where
  "unread s = (case s of Scanned _ rest \<Rightarrow> length rest | _ \<Rightarrow> 0)"

lemma unread_map [simp]: "unread (scan_map f s) = unread s"
  by (cases s) (simp_all add: unread_def)

lemma unread_keep [simp]: "unread (keep c s) = unread s"
  by (cases s) (simp_all add: unread_def)

lemma unread_literal: "unread (scan_literal es cs) \<le> length cs"
  by (induction es cs rule: scan_literal.induct) (auto simp: unread_def)

lemma unread_string: "unread (scan_string st cs) \<le> length cs"
  by (induction st cs rule: scan_string.induct) (auto simp: unread_def [of "Scanned _ _"] unread_def [of Truncated] unread_def [of BadSyntax])

lemma unread_number: "unread (scan_number st cs) \<le> length cs"
  by (induction st cs rule: scan_number.induct)
    (auto simp: unread_def [of "Scanned _ _"] unread_def [of Truncated] unread_def [of BadSyntax] split: option.split)

lemma unread_ends:
  "unread (BadSyntax :: (scan_mode \<times> frame list) scan) = 0" "unread (Scanned (x :: scan_mode \<times> frame list) rest) = length rest"
  by (simp_all add: unread_def)

lemma unread_begin_value: "unread (begin_value stack c r) \<le> length r"
  using unread_literal unread_string unread_number by (simp add: begin_value_def unread_ends split: option.split)

lemma unread_begin_string: "unread (begin_string members stack c r) \<le> length r"
  using unread_string by (simp add: begin_string_def unread_ends)

lemma unread_end_value: "unread (end_value v stack c r) \<le> length r"
  by (cases "(v, stack, c, r)" rule: end_value.cases) (simp_all add: unread_ends)

lemma unread_step: "unread (scan_step m stack c r) \<le> length r"
  by (simp add: scan_step_def unread_ends unread_begin_value unread_begin_string unread_end_value split: scan_mode.split)

function scan_value :: "scan_mode \<Rightarrow> frame list \<Rightarrow> string \<Rightarrow> json scan" where
  "scan_value m stack cs =
     (case finished m stack of
        Some v \<Rightarrow> Scanned v cs
      | None \<Rightarrow>
         (case dropWhile json_space cs of
            [] \<Rightarrow> Truncated
          | c # r \<Rightarrow>
             (case scan_step m stack c r of
                Scanned (m', stack') r' \<Rightarrow> scan_value m' stack' r'
              | Truncated \<Rightarrow> Truncated
              | BadSyntax \<Rightarrow> BadSyntax)))"
  by pat_completeness auto

lemma scan_step_shorter:
  assumes "dropWhile json_space cs = c # r" "scan_step m stack c r = Scanned p r'"
  shows "length r' < length cs"
  using unread_step [of m stack c r] length_dropWhile_le [of json_space cs] assms by (simp add: unread_def)

termination scan_value
  by (relation "measure (\<lambda>(m, stack, cs). length cs)") (auto dest: scan_step_shorter)

declare scan_value.simps [simp del]

section \<open>The stream\<close>

lemma scan_value_unread: "unread (scan_value m stack cs) \<le> length cs"
proof (induction m stack cs rule: scan_value.induct)
  case (1 m stack cs)
  show ?case
  proof (cases "finished m stack")
    case None
    show ?thesis
    proof (cases "dropWhile json_space cs")
      case (Cons c r)
      show ?thesis
      proof (cases "scan_step m stack c r")
        case (Scanned p r')
        obtain m' stack' where p: "p = (m', stack')" by fastforce
        have "unread (scan_value m' stack' r') \<le> length r'" by (rule 1 [OF None Cons Scanned p [symmetric]])
        with scan_step_shorter [OF Cons Scanned] None Cons Scanned p show ?thesis by (simp add: scan_value.simps [of m])
      qed (use None Cons in \<open>simp_all add: scan_value.simps [of m] unread_def\<close>)
    qed (use None in \<open>simp add: scan_value.simps [of m] unread_def del: dropWhile_eq_Nil_conv\<close>)
  qed (simp add: scan_value.simps [of m] unread_def)
qed

lemma scan_value_shorter:
  assumes "scan_value BeginValue [] cs = Scanned v rest"
  shows "length rest < length cs"
proof (cases "dropWhile json_space cs")
  case (Cons c r)
  then obtain m' stack' r' where "scan_step BeginValue [] c r = Scanned (m', stack') r'" "scan_value m' stack' r' = Scanned v rest"
    using assms by (auto simp: scan_value.simps [of BeginValue] finished_def split: scan.splits prod.splits)
  with scan_step_shorter [OF Cons] scan_value_unread [of m' stack' r'] show ?thesis by (fastforce simp: unread_def)
next
  case Nil
  with assms show ?thesis by (simp add: scan_value.simps [of BeginValue] finished_def del: dropWhile_eq_Nil_conv)
qed

function json_stream_of :: "string \<Rightarrow> json_stream" where
  "json_stream_of cs =
     (if dropWhile json_space cs = [] then ([], AtEOF)
      else case scan_value BeginValue [] cs of
        Truncated \<Rightarrow> ([], Incomplete)
      | BadSyntax \<Rightarrow> ([], SyntaxError)
      | Scanned v rest \<Rightarrow> (let (vs, e) = json_stream_of rest in (v # vs, e)))"
  by pat_completeness auto

termination json_stream_of
  by (relation "measure length") (auto dest: scan_value_shorter)

declare json_stream_of.simps [simp del]

definition Decode_values :: "byte list \<Rightarrow> json_stream" where
  "Decode_values body = json_stream_of (map (\<lambda>b. char_of (unat b)) body)"

section \<open>Writing values\<close>

fun commas :: "string list \<Rightarrow> string" where
  "commas [] = []"
| "commas [s] = s"
| "commas (s # ss) = s @ CHR '','' # commas ss"

fun json_chars :: "json \<Rightarrow> string" where
  "json_chars JNull = ''null''"
| "json_chars (JBool b) = (if b then ''true'' else ''false'')"
| "json_chars (JNum t) = t"
| "json_chars (JStr s) = quoted s"
| "json_chars (JArr vs) = CHR ''['' # commas (map json_chars vs) @ '']''"
| "json_chars (JObj members) = CHR ''{'' # commas (map (\<lambda>(k, v). quoted k @ CHR '':'' # json_chars v) members) @ ''}''"

definition Marshal_value :: "json \<Rightarrow> byte list" where
  "Marshal_value v = bytes_of (json_chars v)"

section \<open>Strings survive\<close>

definition ascii :: "string \<Rightarrow> bool" where
  "ascii s \<longleftrightarrow> (\<forall>c\<in>set s. (of_char c :: nat) < 0x80)"

lemma ascii_append [simp]: "ascii (a @ b) \<longleftrightarrow> ascii a \<and> ascii b"
  by (auto simp: ascii_def)

lemma ascii_Cons [simp]: "ascii (c # s) \<longleftrightarrow> (of_char c :: nat) < 0x80 \<and> ascii s"
  by (simp add: ascii_def)

lemma ishex_hex_digit [simp]: "n < 16 \<Longrightarrow> ishex (hex_digit n)"
  by (auto simp: ishex_def hex_digit_def is_digit_def)

lemma unhex_hex_digit [simp]: "n < 16 \<Longrightarrow> unhex (hex_digit n) = n"
  by (auto simp: unhex_def hex_digit_def is_digit_def)

lemma EncodeRune_ascii: "n < 0x80 \<Longrightarrow> EncodeRune n = [char_of n]"
  by (simp add: EncodeRune_def)

lemma getu4_escape:
  assumes "(of_char c :: nat) < 0x80"
  shows "getu4 (CHR 0x5C # CHR ''u'' # CHR ''0'' # CHR ''0'' # hex_digit (of_char c div 16) # hex_digit (of_char c mod 16) # rest) =
    Some (of_char c)"
  using assms by (simp add: getu4_def ishex_def [of "CHR ''0''"] unhex_def [of "CHR ''0''"] is_digit_def)

lemma short_escapes_undone:
  "(c, e) \<in> set short_escapes \<Longrightarrow> escape_char e = c \<and> e \<in> {CHR ''b'', CHR ''f'', CHR ''n'', CHR ''r'', CHR ''t'', CHR 0x5C, CHR ''/'', CHR 0x22}"
  by (auto simp: short_escapes_def escape_char_def)

lemma escape_ascii_cases:
  obtains (plain) "escape_ascii c = [c]" "c \<noteq> CHR 0x22" "c \<noteq> CHR 0x5C" "0x20 \<le> (of_char c :: nat)"
  | (short) e where "escape_ascii c = [CHR 0x5C, e]" "escape_char e = c"
      "e \<in> {CHR ''b'', CHR ''f'', CHR ''n'', CHR ''r'', CHR ''t'', CHR 0x5C, CHR ''/'', CHR 0x22}"
  | (long) "escape_ascii c = [CHR 0x5C, CHR ''u'', CHR ''0'', CHR ''0'', hex_digit (of_char c div 16), hex_digit (of_char c mod 16)]"
proof (cases "html_safe c")
  case True
  then show thesis by (intro plain) (simp_all add: escape_ascii_def, auto simp: html_safe_def)
next
  case False
  then show thesis
  proof (cases "map_of short_escapes c")
    case (Some e)
    with False short_escapes_undone [OF map_of_SomeD [OF Some]] show thesis by (intro short [of e]) (simp_all add: escape_ascii_def)
  qed (use long in \<open>simp add: escape_ascii_def\<close>)
qed

lemma scan_escape_ascii:
  assumes "(of_char c :: nat) < 0x80" "scan_string InString cs = Scanned s rest"
  shows "scan_string InString (escape_ascii c @ cs) = Scanned (escape_ascii c @ s) rest"
proof (cases c rule: escape_ascii_cases)
  case (short e)
  then show ?thesis using assms(2) by auto
next
  case long
  have "ishex (CHR ''0'')" by (simp add: ishex_def is_digit_def)
  with long show ?thesis using assms by simp
qed (use assms in simp)

lemma unquote_escape_ascii:
  assumes "(of_char c :: nat) < 0x80"
  shows "unquote (escape_ascii c @ cs) = c # unquote cs"
proof (cases c rule: escape_ascii_cases)
  case long
  with assms show ?thesis by (simp add: getu4_escape EncodeRune_ascii)
qed (use assms in auto)

lemma scan_escaped: "ascii s \<Longrightarrow> scan_string InString (escape_string s @ CHR 0x22 # rest) = Scanned (escape_string s) rest"
  by (induction s) (simp_all add: ascii_def scan_escape_ascii)

lemma unquote_escaped: "ascii s \<Longrightarrow> unquote (escape_string s) = s"
  by (induction s) (simp_all add: ascii_def unquote_escape_ascii)

section \<open>Values survive\<close>

definition number_text :: "string \<Rightarrow> bool" where
  "number_text t = (case t of [] \<Rightarrow> False
     | c # cs \<Rightarrow> (case number_start c of None \<Rightarrow> False | Some st \<Rightarrow> scan_number st cs = Scanned cs []))"

text \<open>What may follow a number without becoming part of it.\<close>

definition ends_value :: "string \<Rightarrow> bool" where
  "ends_value rest \<longleftrightarrow> (case rest of [] \<Rightarrow> True | c # _ \<Rightarrow> c \<in> {CHR '','', CHR '']'', CHR ''}''})"

lemma keep_Scanned: "keep c r = Scanned (c # cs) rest \<longleftrightarrow> r = Scanned cs rest"
  by (cases r) auto

lemma scan_number_then:
  "scan_number st t = Scanned t [] \<Longrightarrow> ends_value rest \<Longrightarrow> scan_number st (t @ rest) = Scanned t rest"
proof (induction t arbitrary: st)
  case Nil
  then show ?case
    by (cases rest; cases st) (auto simp: ends_value_def number_step_def is_digit_def split: if_splits)
next
  case (Cons c t)
  then show ?case by (cases "number_step st c") (auto simp: keep_Scanned split: if_splits)
qed

text \<open>Values that can be written at a nesting depth: strings in ASCII, numbers in JSON's syntax.\<close>

fun writable :: "nat \<Rightarrow> json \<Rightarrow> bool" where
  "writable d JNull = True"
| "writable d (JBool b) = True"
| "writable d (JNum t) = number_text t"
| "writable d (JStr s) = ascii s"
| "writable d (JArr vs) = (d < maxNestingDepth \<and> (\<forall>v\<in>set vs. writable (Suc d) v))"
| "writable d (JObj members) = (d < maxNestingDepth \<and> (\<forall>(k, v)\<in>set members. ascii k \<and> writable (Suc d) v))"

lemma scan_value_char:
  "finished m stack = None \<Longrightarrow> \<not> json_space c \<Longrightarrow> scan_value m stack (c # r) =
     (case scan_step m stack c r of Scanned (m', stack') r' \<Rightarrow> scan_value m' stack' r' | Truncated \<Rightarrow> Truncated | BadSyntax \<Rightarrow> BadSyntax)"
  by (simp add: scan_value.simps [of m])

lemma not_finished [simp]:
  "finished BeginValue stack = None" "finished BeginValueOrEmpty stack = None" "finished (BeginString ms) stack = None"
  "finished BeginStringOrEmpty stack = None" "finished (EndKey ms k) stack = None" "finished m (f # stack) = None"
  by (simp_all add: finished_def split: scan_mode.split)

lemma marks_not_space [simp]:
  "\<not> json_space (CHR ''['')" "\<not> json_space (CHR '']'')" "\<not> json_space (CHR ''{'')" "\<not> json_space (CHR ''}'')"
  "\<not> json_space (CHR '','')" "\<not> json_space (CHR '':'')" "\<not> json_space (CHR 0x22)" "\<not> json_space (CHR ''t'')"
  "\<not> json_space (CHR ''f'')" "\<not> json_space (CHR ''n'')"
  by (simp_all add: json_space_def)

lemma number_start_char:
  "number_start c = Some st \<Longrightarrow> \<not> json_space c \<and> c \<notin> {CHR ''{'', CHR ''['', CHR 0x22, CHR ''t'', CHR ''f'', CHR ''n'', CHR '']''}"
  by (auto simp: number_start_def json_space_def is_digit_def split: if_splits)

lemma json_chars_first:
  "writable d v \<Longrightarrow> \<exists>c r. json_chars v = c # r \<and> \<not> json_space c \<and> c \<noteq> CHR '']''"
  by (cases v) (auto simp: quoted_def number_text_def dest: number_start_char split: list.splits option.splits)

lemma scan_key:
  assumes "ascii k"
  shows "scan_value (BeginString ms) stack (quoted k @ CHR '':'' # cs) = scan_value BeginValue (ObjectFrame ms k # stack) cs"
  using scan_escaped [OF assms] unquote_escaped [OF assms]
  by (simp add: quoted_def scan_value_char scan_step_def begin_string_def)

text \<open>The elements of an array and the members of an object, given that each value in them is read back.\<close>

definition reads_back :: "json \<Rightarrow> bool" where
  "reads_back v \<longleftrightarrow> (\<forall>stack rest. writable (length stack) v \<longrightarrow> ends_value rest \<longrightarrow>
     scan_value BeginValue stack (json_chars v @ rest) = scan_value (EndValue v) stack rest)"

lemma scan_elements:
  assumes "vs \<noteq> []" "\<forall>v\<in>set vs. reads_back v \<and> writable (Suc (length stack)) v"
  shows "scan_value BeginValue (ArrayFrame us # stack) (commas (map json_chars vs) @ CHR '']'' # rest) =
    scan_value (EndValue (JArr (rev us @ vs))) stack rest"
  using assms
proof (induction vs arbitrary: us rule: list_nonempty_induct)
  case (single v)
  then show ?case by (simp add: reads_back_def ends_value_def scan_value_char scan_step_def)
next
  case (cons v vs)
  then have "scan_value BeginValue (ArrayFrame us # stack) (json_chars v @ CHR '','' # commas (map json_chars vs) @ CHR '']'' # rest) =
      scan_value BeginValue (ArrayFrame (v # us) # stack) (commas (map json_chars vs) @ CHR '']'' # rest)"
    by (simp add: reads_back_def ends_value_def scan_value_char scan_step_def)
  with cons show ?case by (cases vs) simp_all
qed

abbreviation member_chars :: "string \<times> json \<Rightarrow> string" where
  "member_chars \<equiv> \<lambda>(k, v). quoted k @ CHR '':'' # json_chars v"

lemma scan_members:
  assumes "ms \<noteq> []" "\<forall>(k, v)\<in>set ms. ascii k \<and> reads_back v \<and> writable (Suc (length stack)) v"
  shows "scan_value (BeginString us) stack (commas (map member_chars ms) @ CHR ''}'' # rest) =
    scan_value (EndValue (JObj (rev us @ ms))) stack rest"
  using assms
proof (induction ms arbitrary: us rule: list_nonempty_induct)
  case (single m)
  then show ?case by (cases m) (simp add: scan_key reads_back_def ends_value_def scan_value_char scan_step_def)
next
  case (cons m ms)
  obtain k v where m: "m = (k, v)" by fastforce
  with cons.prems have "scan_value (BeginString us) stack (member_chars m @ CHR '','' # commas (map member_chars ms) @ CHR ''}'' # rest) =
      scan_value (BeginString ((k, v) # us)) stack (commas (map member_chars ms) @ CHR ''}'' # rest)"
    by (simp add: scan_key reads_back_def ends_value_def scan_value_char scan_step_def)
  with cons m show ?case by (cases ms) simp_all
qed

lemma scan_literal_self: "scan_literal es (es @ rest) = Scanned () rest"
  by (induction es) simp_all

lemma reads_back_number: "reads_back (JNum t)"
  unfolding reads_back_def
proof (intro allI impI)
  fix stack :: "frame list" and rest
  assume "writable (length stack) (JNum t)" "ends_value rest"
  then obtain c cs st where t: "t = c # cs" "number_start c = Some st" "scan_number st (cs @ rest) = Scanned cs rest"
    by (auto simp: number_text_def scan_number_then split: list.splits option.splits)
  with number_start_char [OF t(2)]
  show "scan_value BeginValue stack (json_chars (JNum t) @ rest) = scan_value (EndValue (JNum t)) stack rest"
    by (simp add: scan_value_char scan_step_def begin_value_def)
qed

lemma reads_back_array:
  assumes "\<forall>v\<in>set vs. reads_back v"
  shows "reads_back (JArr vs)"
  unfolding reads_back_def
proof (intro allI impI)
  fix stack :: "frame list" and rest
  assume w: "writable (length stack) (JArr vs)"
  show "scan_value BeginValue stack (json_chars (JArr vs) @ rest) = scan_value (EndValue (JArr vs)) stack rest"
  proof (cases vs)
    case Nil
    with w show ?thesis by (simp add: scan_value_char scan_step_def begin_value_def)
  next
    case (Cons v vs')
    with w obtain c r where first: "commas (map json_chars vs) = c # r" "\<not> json_space c" "c \<noteq> CHR '']''"
      using json_chars_first [of _ v] by (cases vs') fastforce+
    have "scan_value BeginValueOrEmpty (ArrayFrame [] # stack) (commas (map json_chars vs) @ CHR '']'' # rest) =
        scan_value BeginValue (ArrayFrame [] # stack) (commas (map json_chars vs) @ CHR '']'' # rest)"
      using first by (simp add: scan_value_char scan_step_def)
    with scan_elements [of vs stack "[]" rest] Cons w assms show ?thesis
      by (simp add: scan_value_char scan_step_def begin_value_def)
  qed
qed

lemma reads_back_object:
  assumes "\<forall>(k, v)\<in>set ms. reads_back v"
  shows "reads_back (JObj ms)"
  unfolding reads_back_def
proof (intro allI impI)
  fix stack :: "frame list" and rest
  assume w: "writable (length stack) (JObj ms)"
  show "scan_value BeginValue stack (json_chars (JObj ms) @ rest) = scan_value (EndValue (JObj ms)) stack rest"
  proof (cases ms)
    case Nil
    with w show ?thesis by (simp add: scan_value_char scan_step_def begin_value_def)
  next
    case (Cons m ms')
    then obtain r where "commas (map member_chars ms) = CHR 0x22 # r"
      by (cases m; cases ms') (auto simp: quoted_def)
    then have "scan_value BeginStringOrEmpty stack (commas (map member_chars ms) @ CHR ''}'' # rest) =
        scan_value (BeginString []) stack (commas (map member_chars ms) @ CHR ''}'' # rest)"
      by (simp add: scan_value_char scan_step_def)
    moreover have "\<forall>(k, v)\<in>set ms. ascii k \<and> reads_back v \<and> writable (Suc (length stack)) v"
      using w assms by auto
    ultimately show ?thesis using scan_members [of ms stack "[]" rest] Cons w
      by (simp add: scan_value_char scan_step_def begin_value_def)
  qed
qed

lemma values_read_back: "reads_back v"
proof (induction v)
  case JNull
  show ?case using scan_literal_self [of "''ull''"] by (simp add: reads_back_def scan_value_char scan_step_def begin_value_def)
next
  case (JBool b)
  show ?case
    using scan_literal_self [of "''rue''"] scan_literal_self [of "''alse''"]
    by (simp add: reads_back_def scan_value_char scan_step_def begin_value_def)
next
  case (JNum t)
  show ?case by (rule reads_back_number)
next
  case (JStr s)
  show ?case
    using scan_escaped [of s] unquote_escaped [of s]
    by (simp add: reads_back_def quoted_def scan_value_char scan_step_def begin_value_def)
next
  case (JArr vs)
  then show ?case by (intro reads_back_array ballI)
next
  case (JObj ms)
  then show ?case by (intro reads_back_object) fastforce
qed

lemma chars_of_bytes [simp]: "map (\<lambda>b. char_of (unat b)) (bytes_of s) = s"
  by (simp add: bytes_of_def comp_def unat_of_nat)

text \<open>Any value in ASCII and within the nesting limit is the one value the decoder finds in its text.\<close>

theorem json_text_roundtrip:
  assumes "writable 0 v"
  shows "Decode_values (Marshal_value v) = ([v], AtEOF)"
proof -
  have "scan_value BeginValue [] (json_chars v) = Scanned v []"
    using values_read_back [of v, unfolded reads_back_def, rule_format, of "[]" "[]"] assms
    by (simp add: ends_value_def scan_value.simps [of "EndValue v"] finished_def)
  moreover obtain c r where "json_chars v = c # r" "\<not> json_space c" using json_chars_first [OF assms] by blast
  ultimately show ?thesis
    by (simp add: Decode_values_def Marshal_value_def json_stream_of.simps [of "c # r"] json_stream_of.simps [of "[]"])
qed

end
