(* ===== verification/End_To_End.thy ===== *)
theory End_To_End
  imports Rabbit_Link Json_Text
begin

text \<open>
  A delivery's way through the components: the transaction of \<open>Submit\<close>, a cycle of the publisher, the
  message in the queue, the consumer and the Worker. Each section ends with what the next one starts from.
\<close>

section \<open>The message\<close>

lemma ascii_hex: "list_all is_hex s \<Longrightarrow> ascii s"
  by (fastforce simp: ascii_def list_all_iff is_hex_def Let_def)

lemma validUUID_ascii:
  assumes "validUUID u"
  shows "ascii u"
proof -
  have len: "length u = 36" and dash: "u ! 8 = CHR ''-''" "u ! 13 = CHR ''-''" "u ! 18 = CHR ''-''" "u ! 23 = CHR ''-''"
    and hex: "ascii (take 8 u @ slice 9 13 u @ slice 14 18 u @ slice 19 23 u @ drop 24 u)"
    using assms by (auto simp: validUUID_def hex_decodes_def intro!: ascii_hex split: if_splits)
  have cut: "drop a u = slice a b u @ u ! b # drop (Suc b) u" if "a \<le> b" "b < 36" for a b
    using that len append_take_drop_id [of "b - a" "drop a u"] by (simp add: slice_def Cons_nth_drop_Suc)
  have "u = slice 0 8 u @ u ! 8 # slice 9 13 u @ u ! 13 # slice 14 18 u @ u ! 18 # slice 19 23 u @ u ! 23 # drop 24 u"
    using cut [of 0 8] cut [of 9 13] cut [of 14 18] cut [of 19 23] by simp
  moreover have "ascii (slice 0 8 u @ u ! 8 # slice 9 13 u @ u ! 13 # slice 14 18 u @ u ! 18 # slice 19 23 u @ u ! 23 # drop 24 u)"
    using hex by (simp add: dash slice_def [of 0])
  ultimately show ?thesis by simp
qed

lemma scan_digits: "list_all is_digit ds \<Longrightarrow> scan_number NDigits ds = Scanned ds []"
  by (induction ds) (simp_all add: number_done_def number_step_def)

lemma dec_digits_first: "0 < n \<Longrightarrow> hd (dec_digits n) \<noteq> CHR ''0''"
proof (induction n rule: dec_digits.induct)
  case (1 n)
  show ?case
  proof (cases "n < 10")
    case True
    with "1.prems" have "(of_char (char_of (48 + n) :: char) :: nat) \<noteq> of_char (CHR ''0'')" by simp
    then have "char_of (48 + n) \<noteq> CHR ''0''" by metis
    with True show ?thesis by (subst dec_digits.simps) simp
  next
    case False
    with 1 show ?thesis by (subst dec_digits.simps) (simp add: dec_digits_ne)
  qed
qed

lemma number_text_0: "number_text (FormatInt 0)"
  by code_simp

lemma number_text_FormatInt:
  assumes "0 \<le> g"
  shows "number_text (FormatInt g)"
proof -
  obtain c cs where d: "dec_digits (nat g) = c # cs" by (metis dec_digits_ne list.exhaust)
  have digits: "list_all is_digit (c # cs)"
    using dec_digits_range [of _ "nat g"] by (auto simp: d [symmetric] list_all_iff is_digit_def Let_def)
  show ?thesis
  proof (cases "g = 0")
    case True
    then show ?thesis using number_text_0 by simp
  next
    case False
    with assms have "c \<noteq> CHR ''0''" using dec_digits_first [of "nat g"] d by simp
    with digits scan_digits [of cs] assms d show ?thesis
      by (auto simp: FormatInt_def number_text_def number_start_def is_digit_def)
  qed
qed

lemma signal_decodes:
  assumes "Validate signal = None" "sg_Generation signal < 2 ^ 63"
  shows "decodeSignal Decode_values (pm_Body (signal_publishing Marshal_value now exchange key kind signal)) = Some signal"
proof (rule signal_survives_queue)
  have ok: "validUUID (sg_DeliveryID signal)" "0 \<le> sg_Generation signal" "validUUID (sg_TraceID signal)"
    using assms(1) by (auto simp: Validate_def split: if_splits)
  then have "writable 0 (Marshal_signal signal)"
    by (simp add: Marshal_signal_def maxNestingDepth_def validUUID_ascii number_text_FormatInt ascii_def [of "[]"])
  then show "Decode_values (Marshal_value (Marshal_signal signal)) = ([Marshal_signal signal], AtEOF)"
    by (rule json_text_roundtrip)
  show "- (2 ^ 63) \<le> sg_Generation signal" using ok(2) by simp
qed (rule assms(2))

text \<open>C40. A signal that passes the consumer's validation survives the queue: the consumer decodes from the message
  that \<open>Publish\<close> or \<open>Defer\<close> sent exactly the signal that went in.\<close>

theorem signal_roundtrip:
  assumes "Validate signal = None" "sg_Generation signal < 2 ^ 63"
  shows "decodeSignal Decode_values (pm_Body (signal_publishing Marshal_value now exchange key kind signal)) = Some signal"
  using assms by (rule signal_decodes)

section \<open>The submission\<close>

lemma submit_writes:
  assumes "Submit E store db s = (Inr d, db1)" "(sub_CallerID s, sub_IdempotencyKey s) \<notin> idem_key ` set (deliveries db)"
  obtains did oid tid v where "newUUID (rand_read E 0) = Inr did" "newUUID (rand_read E 2) = Inr tid"
    "d = accepted_delivery s did v"
    "db1 = db\<lparr>deliveries := deliveries db @ [accepted_row E s did v],
       outbox_events := outbox_events db @ [new_event oid did 0 tid (timestamptz (sub_AcceptedAt s)) (clock_timestamp E)]\<rparr>"
proof -
  have "queryDeliveryByIdempotency db (sub_CallerID s) (sub_IdempotencyKey s) = None"
    using assms(2) by (simp add: queryDeliveryByIdempotency_None)
  with assms(1) have "submit_new E db s = (Inr d, db1)" by (simp add: Submit_def split: if_splits)
  then obtain did oid tid v db2 db3 where ids: "newUUID (rand_read E 0) = Inr did" "newUUID (rand_read E 2) = Inr tid"
    and ins: "insert_delivery db (accepted_row E s did v) = Some db2"
      "insert_event db2 (new_event oid did 0 tid (timestamptz (sub_AcceptedAt s)) (clock_timestamp E)) = Some db3"
    and "commit E ''commit submission'' db db3 (accepted_delivery s did v) = (Inr d, db1)"
    unfolding submit_new_def Let_def by (auto split: sum.splits option.splits if_splits)
  then have d: "d = accepted_delivery s did v" "db3 = db1" by (auto simp: commit_def split: if_splits)
  from ins have "db1 = db\<lparr>deliveries := deliveries db @ [accepted_row E s did v],
      outbox_events := outbox_events db @ [new_event oid did 0 tid (timestamptz (sub_AcceptedAt s)) (clock_timestamp E)]\<rparr>"
    unfolding d(2) by (auto dest!: insert_event_Some insert_delivery_Some(1))
  with ids d(1) show thesis by (rule that)
qed

section \<open>The publisher\<close>

text \<open>The publisher touches nothing but the Outbox.\<close>

definition outbox_only :: "db \<Rightarrow> db \<Rightarrow> bool" where
  "outbox_only db0 db \<longleftrightarrow> db\<lparr>outbox_events := []\<rparr> = db0\<lparr>outbox_events := []\<rparr>"

definition alone :: "db \<Rightarrow> pub_world \<Rightarrow> bool" where
  "alone db0 w \<longleftrightarrow> (\<forall>n. pw_others w n = id) \<and> outbox_only db0 (pw_db w)"

lemma outbox_only_update: "outbox_only db0 db \<Longrightarrow> outbox_only db0 (db\<lparr>outbox_events := es\<rparr>)"
  unfolding outbox_only_def by simp

lemma outbox_only_tables:
  assumes "outbox_only db0 db"
  shows "deliveries db = deliveries db0" "destination_versions db = destination_versions db0"
    "delivery_attempts db = delivery_attempts db0"
  using assms [unfolded outbox_only_def] by (metis db.select_convs db.surjective db.update_convs)+

lemma outbox_ops_only:
  assumes "outbox_only db0 db"
  shows "outbox_only db0 (snd (ClaimOutbox E db owner lease limit))"
    "outbox_only db0 (snd (MarkOutboxPublished E db event))" "outbox_only db0 (snd (ReleaseOutbox E db event))"
  using assms outbox_only_update [OF assms]
  by (auto simp: ClaimOutbox_def MarkOutboxPublished_def ReleaseOutbox_def Let_def commit_def commit_rows_def split: sum.split option.split)

lemma store_call_alone:
  assumes "alone db0 w" "\<And>E db. outbox_only db0 db \<Longrightarrow> outbox_only db0 (snd (op E db))"
  shows "alone db0 (snd (store_call op ok failed w))"
  using assms(1) assms(2) [of "pw_db w" "pw_env w (pw_calls w)"] by (auto simp: store_call_def Let_def alone_def split: prod.split)

interpretation only: publisher_world world_store world_broker pw_log "alone db0" for db0
  by unfold_locales (simp_all add: world.claim_actions world.mark_actions world.release_actions world.publish_actions,
    auto simp: world_store_def intro!: store_call_alone outbox_ops_only, simp add: world_broker_def alone_def Let_def split: prod.split)

text \<open>The cycle finds a quiet store and a broker that confirms at once and has no leftover answers in its channels, and
  its batch has room for every claimable event.\<close>

definition publisher_ready :: "string \<Rightarrow> duration \<Rightarrow> int \<Rightarrow> pub_world \<Rightarrow> bool" where
  "publisher_ready owner lease batch w \<longleftrightarrow> owner \<noteq> [] \<and> 0 < lease \<and>
     calm (clock_timestamp (pw_env w (pw_calls w)) + Milliseconds lease * Millisecond) w \<and>
     (\<exists>token. newUUID (rand_read (pw_env w (pw_calls w)) 0) = Inr token) \<and> (\<forall>i. \<not> row_locked (pw_env w (pw_calls w)) i) \<and>
     int (count_where (outbox_claimable (clock_timestamp (pw_env w (pw_calls w)))) (outbox_events (pw_db w))) \<le> batch"

lemma ClaimOutbox_ready:
  assumes ready: "publisher_ready owner lease batch w"
    and e: "e \<in> set (outbox_events (pw_db w))" "outbox_claimable (clock_timestamp (pw_env w (pw_calls w))) e"
  obtains token events db1 where "ClaimOutbox (pw_env w (pw_calls w)) (pw_db w) owner lease batch = (Inr events, db1)"
    "claimed_event owner token e \<in> set events"
proof -
  let ?E = "pw_env w (pw_calls w)"
  have "0 < count_where (outbox_claimable (clock_timestamp ?E)) (outbox_events (pw_db w))"
    using e by (auto simp: count_where_def filter_empty_conv)
  then have limit: "0 < batch" using ready by (simp add: publisher_ready_def)
  obtain token where token: "newUUID (rand_read ?E 0) = Inr token" using ready by (auto simp: publisher_ready_def)
  have "\<not> stmt_fails ?E msg" for msg using ready by (simp add: publisher_ready_def calm_def fault_free_def)
  with token limit ready have "ClaimOutbox ?E (pw_db w) owner lease batch =
      (Inr (map (claimed_event owner token) (outbox_candidates ?E (pw_db w) batch)), snd (ClaimOutbox ?E (pw_db w) owner lease batch))"
    by (simp add: ClaimOutbox_def Let_def commit_rows_def publisher_ready_def)
  moreover have "set (outbox_candidates ?E (pw_db w) batch) =
      {x \<in> set (outbox_events (pw_db w)). outbox_claimable (clock_timestamp ?E) x \<and> \<not> row_locked ?E (o_id x)}"
    unfolding outbox_candidates_def by (rule select_limit_all) (use ready in \<open>simp add: publisher_ready_def\<close>)
  then have "claimed_event owner token e \<in> set (map (claimed_event owner token) (outbox_candidates ?E (pw_db w) batch))"
    using e ready by (simp add: publisher_ready_def)
  ultimately show thesis by (rule that)
qed

lemma cycle_confirms:
  assumes "db_inv (pw_db w)" "publisher_ready owner lease batch w"
    and "e \<in> set (outbox_events (pw_db w))" "outbox_claimable (clock_timestamp (pw_env w (pw_calls w))) e"
  obtains n w' where "RunOnce (world_publisher owner lease batch) w = ((n, None), w')"
    "Confirmed \<lparr>sg_DeliveryID = o_delivery_id e, sg_Generation = o_generation e, sg_TraceID = o_trace_id e\<rparr> \<in> set (pw_log w')"
    "outbox_only (pw_db w) (pw_db w')" "db_inv (pw_db w')"
proof -
  let ?p = "world_publisher owner lease batch"
  obtain token events db1 where claim: "ClaimOutbox (pw_env w (pw_calls w)) (pw_db w) owner lease batch = (Inr events, db1)"
    and mem: "claimed_event owner token e \<in> set events" by (rule ClaimOutbox_ready [OF assms(2-4)])
  have calm: "calm (clock_timestamp (pw_env w (pw_calls w)) + Milliseconds lease * Millisecond) w"
    using assms(2) by (simp add: publisher_ready_def)
  from publisher_publishes_claimed [OF assms(1) claim calm] obtain w' where
    run: "RunOnce ?p w = ((length events, None), w')" by blast
  have uses: "pb_store ?p = world_store \<and> pb_broker ?p = world_broker" by (simp add: world_publisher_def)
  have others: "\<forall>n. pw_others w n = id" using calm by (simp add: calm_def)
  obtain w1 where w1: "os_ClaimOutbox world_store owner lease batch w = (Inr events, w1)"
    using claim others by (simp add: world_store_def store_call_def)
  with run have "publish_loop ?p events 0 w1 = ((length events, None), w')" by (simp add: RunOnce_def world_publisher_def)
  from world.publish_loop_log [OF uses this]
  have "pw_log w' = pw_log w1 @ concat (map (\<lambda>e. [Confirmed (signal_of_event e), Marked e]) events)" by auto
  with mem have "Confirmed (signal_of_event (claimed_event owner token e)) \<in> set (pw_log w')" by auto
  moreover have "alone (pw_db w) w" "world_inv w" using others assms(1) by (simp_all add: alone_def outbox_only_def world_inv_def)
  with only.run_once_inv [OF uses] world.run_once_inv [OF uses] run
  have "alone (pw_db w) w'" "world_inv w'" by (metis snd_conv)+
  then have "outbox_only (pw_db w) (pw_db w')" "db_inv (pw_db w')" by (simp_all add: alone_def world_inv_def)
  ultimately show thesis using run by (intro that) (simp_all add: signal_of_event_def claimed_event_def)
qed

section \<open>The consumer\<close>

lemma message_settles:
  assumes "decodeSignal json_values (mg_Body message) = Some signal" "Validate signal = None"
    and "db_inv (ww_db (cs_work c))" "smooth (cs_work c) signal owner lease r v"
    and "newUUID (rand_read (ww_env (cs_work c) (ww_calls (cs_work c) + 3)) 0) = Inr token"
    and "task = claimed_of_row (claim_row (clock_timestamp (ww_env (cs_work c) (ww_calls (cs_work c) + 3))) owner token lease r)"
    and "fst (Send (ww_ip_literal (cs_work c)) (ww_http (cs_work c) (ww_calls (cs_work c) + 5))
           (ww_sender (cs_work c) (ww_calls (cs_work c) + 5)) task v) = (res, err)"
  shows "\<exists>c' r'. processMessage json_values (world_consumer ParseTime owner lease) message c =
      (Handled (map_option AckCommitted (cs_settle c (cs_calls c))), c') \<and> cs_log c' = cs_log c @ [Acked (mg_Tag message)] \<and>
    r' \<in> set (deliveries (ww_db (cs_work c'))) \<and>
    settled r (ww_clock (cs_work c) (ww_calls (cs_work c) + 6)) (classify (res_StatusCode res) err v) r'"
proof -
  obtain w' r' where "Process ParseTime (world_worker owner lease) signal (cs_work c) = (Finished True None, w')"
    "r' \<in> set (deliveries (ww_db w'))"
    "settled r (ww_clock (cs_work c) (ww_calls (cs_work c) + 6)) (classify (res_StatusCode res) err v) r'"
    using worker_settles_delivery [OF assms(3,4,6,5,7)] by blast
  then show ?thesis using assms(1,2)
    by (cases "cs_settle c (cs_calls c)") (auto simp: processMessage_def world_consumer_def Let_def)
qed

section \<open>From the submission to the result\<close>

text \<open>The consumer gets the message of a signal on a smooth run of the Worker, which ends with the client's answer.\<close>

definition smooth_delivery :: "consumer_state \<Rightarrow> amqp_message \<Rightarrow> Signal \<Rightarrow> string \<Rightarrow> duration \<Rightarrow> delivery_row \<Rightarrow> DestinationVersion
    \<Rightarrow> Result \<Rightarrow> send_error option \<Rightarrow> bool" where
  "smooth_delivery c message signal owner lease r v res err \<longleftrightarrow>
     (\<exists>now. mg_Body message = pm_Body (signal_publishing Marshal_value now ExchangeName RoutingKey ''delivery.dispatch'' signal)) \<and>
     smooth (cs_work c) signal owner lease r v \<and>
     (\<exists>token. newUUID (rand_read (ww_env (cs_work c) (ww_calls (cs_work c) + 3)) 0) = Inr token \<and>
        fst (Send (ww_ip_literal (cs_work c)) (ww_http (cs_work c) (ww_calls (cs_work c) + 5))
              (ww_sender (cs_work c) (ww_calls (cs_work c) + 5))
              (claimed_of_row (claim_row (clock_timestamp (ww_env (cs_work c) (ww_calls (cs_work c) + 3))) owner token lease r)) v) = (res, err))"

text \<open>C6. An accepted delivery reaches its result. After a new submission, a cycle of the publisher that meets no fault
  confirms a signal for generation 0 of exactly that delivery and changes nothing but the Outbox. The
  consumer that gets the message of this signal, on a run of the Worker that meets no fault, acknowledges it
  after the database has recorded the result that the outbound client's answer demands: success, a permanent
  failure, or a retry in the next generation within an hour and before the deadline.\<close>

theorem accepted_delivery_reaches_result:
  assumes "db_inv db" "Submit E store db s = (Inr d, pw_db w)" "(sub_CallerID s, sub_IdempotencyKey s) \<notin> idem_key ` set (deliveries db)"
    and "\<forall>n value. rand_read E n = Some value \<longrightarrow> length value = 16"
    and "publisher_ready powner please batch w" "sub_AcceptedAt s \<le> clock_timestamp (pw_env w (pw_calls w))"
  shows "\<exists>n w' r signal. RunOnce (world_publisher powner please batch) w = ((n, None), w') \<and> Confirmed signal \<in> set (pw_log w') \<and>
    sg_DeliveryID signal = dl_ID d \<and> sg_Generation signal = 0 \<and> r \<in> set (deliveries (pw_db w')) \<and> delivery_of_row r = as_stored d \<and>
    outbox_only (pw_db w) (pw_db w') \<and>
    (\<forall>ParseTime owner lease c message v res err.
       ww_db (cs_work c) = pw_db w' \<and> smooth_delivery c message signal owner lease r v res err \<longrightarrow>
       (\<exists>c' r'. processMessage Decode_values (world_consumer ParseTime owner lease) message c =
            (Handled (map_option AckCommitted (cs_settle c (cs_calls c))), c') \<and>
          cs_log c' = cs_log c @ [Acked (mg_Tag message)] \<and> r' \<in> set (deliveries (ww_db (cs_work c'))) \<and>
          settled r (ww_clock (cs_work c) (ww_calls (cs_work c) + 6)) (classify (res_StatusCode res) err v) r'))"
proof -
  obtain did oid tid v0 where ids: "newUUID (rand_read E 0) = Inr did" "newUUID (rand_read E 2) = Inr tid"
    and d: "d = accepted_delivery s did v0"
    and db1: "pw_db w = db\<lparr>deliveries := deliveries db @ [accepted_row E s did v0],
       outbox_events := outbox_events db @ [new_event oid did 0 tid (timestamptz (sub_AcceptedAt s)) (clock_timestamp E)]\<rparr>"
    by (rule submit_writes [OF assms(2,3)])
  let ?r = "accepted_row E s did v0" and ?e = "new_event oid did 0 tid (timestamptz (sub_AcceptedAt s)) (clock_timestamp E)"
  let ?signal = "\<lparr>sg_DeliveryID = did, sg_Generation = 0, sg_TraceID = tid\<rparr>"
  have uuid: "validUUID u" if "newUUID (rand_read E n) = Inr u" for n u
    using that assms(4) newUUID_valid by (cases "rand_read E n") (auto simp: newUUID_def)
  have valid: "Validate ?signal = None" using uuid [OF ids(1)] uuid [OF ids(2)] by (simp add: Validate_def)
  have inv: "db_inv (pw_db w)" using Submit_good [OF assms(1), of E store s] assms(2) by (simp add: good_step_def)
  have "outbox_claimable (clock_timestamp (pw_env w (pw_calls w))) ?e" "?e \<in> set (outbox_events (pw_db w))"
    using timestamptz_below(2) [OF assms(6)] by (simp_all add: outbox_claimable_def new_event_def db1)
  from cycle_confirms [OF inv assms(5) this(2,1)] obtain n w' where cycle:
    "RunOnce (world_publisher powner please batch) w = ((n, None), w')" "Confirmed ?signal \<in> set (pw_log w')"
    "outbox_only (pw_db w) (pw_db w')" "db_inv (pw_db w')"
    by (auto simp: new_event_def)
  have "\<exists>c' r'. processMessage Decode_values (world_consumer ParseTime owner lease) message c =
         (Handled (map_option AckCommitted (cs_settle c (cs_calls c))), c') \<and>
       cs_log c' = cs_log c @ [Acked (mg_Tag message)] \<and> r' \<in> set (deliveries (ww_db (cs_work c'))) \<and>
       settled ?r (ww_clock (cs_work c) (ww_calls (cs_work c) + 6)) (classify (res_StatusCode res) err v) r'"
    if run: "ww_db (cs_work c) = pw_db w'" "smooth_delivery c message ?signal owner lease ?r v res err"
    for ParseTime owner lease c message v res err
  proof -
    have "decodeSignal Decode_values (mg_Body message) = Some ?signal"
      using run(2) signal_decodes [OF valid] by (auto simp: smooth_delivery_def)
    with run cycle(4) valid show ?thesis unfolding smooth_delivery_def
      by (elim conjE exE) (rule message_settles [OF _ valid _ _ _ refl], simp_all)
  qed
  with cycle d db1 outbox_only_tables(1) [OF cycle(3)] show ?thesis
    by (intro exI [of _ n] exI [of _ w'] exI [of _ ?r] exI [of _ ?signal]) (auto simp: accepted_delivery_stored accepted_delivery_def)
qed

section \<open>The properties on an example\<close>

theorem signal_roundtrip_witness:
  "decodeSignal Decode_values (pm_Body (signal_publishing Marshal_value 0 ExchangeName RoutingKey ''delivery.dispatch''
     \<lparr>sg_DeliveryID = demo_uuid, sg_Generation = 12, sg_TraceID = demo_uuid\<rparr>)) =
   Some \<lparr>sg_DeliveryID = demo_uuid, sg_Generation = 12, sg_TraceID = demo_uuid\<rparr>"
proof (rule signal_roundtrip)
  show "Validate \<lparr>sg_DeliveryID = demo_uuid, sg_Generation = 12, sg_TraceID = demo_uuid\<rparr> = None" by code_simp
qed simp

definition demo_accepted :: delivery_row where
  "demo_accepted = accepted_row (quiet_env 5) (demo_submission ''new'' 9) demo_uuid demo_uuid"

definition demo_answer :: Delivery where
  "demo_answer = accepted_delivery (demo_submission ''new'' 9) demo_uuid demo_uuid"

lemma demo_accepted_answer: "delivery_of_row demo_accepted = as_stored demo_answer" "dl_ID demo_answer = demo_uuid"
  by (simp_all add: demo_accepted_def demo_answer_def accepted_delivery_stored accepted_delivery_def)

definition demo_submitted :: db where
  "demo_submitted = snd (Submit (quiet_env 5) \<lparr>st_backlogLimit = 10\<rparr> demo_db (demo_submission ''new'' 9))"

lemma demo_submitted_tables:
  "Submit (quiet_env 5) \<lparr>st_backlogLimit = 10\<rparr> demo_db (demo_submission ''new'' 9) = (Inr demo_answer, demo_submitted)"
  "deliveries demo_submitted = deliveries demo_db @ [demo_accepted]" "destination_versions demo_submitted = [demo_version]"
  "delivery_attempts demo_submitted = []"
proof -
  have "fst (Submit (quiet_env 5) \<lparr>st_backlogLimit = 10\<rparr> demo_db (demo_submission ''new'' 9)) = Inr demo_answer"
    by code_simp
  then show "Submit (quiet_env 5) \<lparr>st_backlogLimit = 10\<rparr> demo_db (demo_submission ''new'' 9) =
      (Inr demo_answer, demo_submitted)"
    unfolding demo_submitted_def by (metis prod.collapse)
  show "deliveries demo_submitted = deliveries demo_db @ [demo_accepted]" by code_simp
  show "destination_versions demo_submitted = [demo_version]" by code_simp
  show "delivery_attempts demo_submitted = []" by code_simp
qed

definition demo_cycle :: pub_world where
  "demo_cycle = \<lparr>pw_db = demo_submitted, pw_calls = 0, pw_log = [], pw_env = (\<lambda>n. quiet_env 10), pw_others = (\<lambda>_. id),
     pw_channels = new_channels, pw_broker = (\<lambda>_. prompt)\<rparr>"

lemma demo_cycle_ready: "publisher_ready ''w'' Second 10 demo_cycle"
proof -
  have "(10::int) < 10 + Milliseconds Second * Millisecond" by code_simp
  moreover have "newUUID (rand_read (quiet_env 10) 0) = Inr demo_uuid" by code_simp
  moreover have "int (count_where (outbox_claimable 10) (outbox_events demo_submitted)) \<le> 10" by code_simp
  ultimately show ?thesis by (simp add: publisher_ready_def demo_cycle_def calm_def quiet_env_def fault_free_def in_step_new)
qed

lemma demo_accepted_smooth:
  assumes "outbox_only demo_submitted db" "sg_DeliveryID signal = demo_uuid" "sg_Generation signal = 0"
  shows "smooth (demo_world\<lparr>ww_db := db\<rparr>) signal ''w'' Second demo_accepted (destination_of_row demo_version)"
proof -
  note t = outbox_only_tables [OF assms(1)]
  have "newUUID (rand_read (quiet_env 10) 0) = Inr demo_uuid" by code_simp
  moreover have "worker_eligible 10 demo_uuid 0 demo_accepted" by code_simp
  moreover have "interval Second = Second" by code_simp
  moreover have "fst (tryAcquire 10 (destination_of_row demo_version) newDestinationLimiter) \<noteq> None" by code_simp
  moreover have "queryDestinationVersion demo_submitted (d_destination_id demo_accepted) (d_destination_version demo_accepted) =
      Some (destination_of_row demo_version)" by code_simp
  then have "queryDestinationVersion db (d_destination_id demo_accepted) (d_destination_version demo_accepted) =
      Some (destination_of_row demo_version)" by (simp add: queryDestinationVersion_def t(2))
  moreover have "demo_accepted \<in> set (deliveries db)" "delivery_attempts db = []" "d_id demo_accepted = demo_uuid"
    by (simp_all add: t demo_submitted_tables demo_accepted_def)
  ultimately show ?thesis
    unfolding smooth_def using assms(2,3) by (simp add: demo_world_def quiet_env_def fault_free_def)
qed

lemma demo_accepted_refused:
  "fst (Send no_ip_literal demo_http (demo_sender\<lparr>sn_resolver := \<lambda>_. Inr []\<rparr>) (claimed_of_row (claim_row 10 ''w'' demo_uuid Second demo_accepted))
     (destination_of_row demo_version)) = (zero_result, Some (Permanent ''destination DNS returned no addresses''))"
  by code_simp

lemma demo_accepted_unique:
  assumes "r \<in> set (deliveries demo_submitted)" "delivery_of_row r = delivery_of_row demo_accepted"
  shows "r = demo_accepted"
proof -
  have "d_id r = demo_uuid" using arg_cong [OF assms(2), of dl_ID] by (simp add: delivery_of_row_def demo_accepted_def)
  with assms(1) show ?thesis by (auto simp: demo_submitted_tables demo_db_def demo_delivery_def demo_uuid_def)
qed

theorem accepted_delivery_reaches_result_witness:
  "\<exists>w' body c' r'. RunOnce (world_publisher ''w'' Second 10) demo_cycle = ((5, None), w') \<and>
     processMessage Decode_values (world_consumer (\<lambda>_. None) ''w'' Second) \<lparr>mg_Tag = 5, mg_Body = body\<rparr>
       (demo_state\<lparr>cs_work := demo_world\<lparr>ww_db := pw_db w'\<rparr>\<rparr>) = (Handled None, c') \<and>
     r' \<in> set (deliveries (ww_db (cs_work c'))) \<and> d_id r' = demo_uuid \<and> d_status r' = StatusFailedPermanent"
proof -
  let ?v = "destination_of_row demo_version" and ?refused = "Permanent ''destination DNS returned no addresses''"
  have rand: "\<forall>n value. rand_read (quiet_env 5) n = Some value \<longrightarrow> length value = 16" by (auto simp: quiet_env_def)
  have new: "(sub_CallerID (demo_submission ''new'' 9), sub_IdempotencyKey (demo_submission ''new'' 9)) \<notin> idem_key ` set (deliveries demo_db)"
    by code_simp
  have sub: "Submit (quiet_env 5) \<lparr>st_backlogLimit = 10\<rparr> demo_db (demo_submission ''new'' 9) =
      (Inr demo_answer, pw_db demo_cycle)"
    by (simp add: demo_submitted_tables demo_cycle_def)
  have due: "sub_AcceptedAt (demo_submission ''new'' 9) \<le> clock_timestamp (pw_env demo_cycle (pw_calls demo_cycle))"
    by (simp add: demo_cycle_def demo_submission_def quiet_env_def)
  obtain n w' r signal where run: "RunOnce (world_publisher ''w'' Second 10) demo_cycle = ((n, None), w')"
    and signal: "sg_DeliveryID signal = dl_ID demo_answer" "sg_Generation signal = 0"
    and r: "r \<in> set (deliveries (pw_db w'))" "delivery_of_row r = as_stored demo_answer" "outbox_only (pw_db demo_cycle) (pw_db w')"
    and consume: "\<And>ParseTime owner lease c message v res err. ww_db (cs_work c) = pw_db w' \<and>
       smooth_delivery c message signal owner lease r v res err \<Longrightarrow>
       \<exists>c' r'. processMessage Decode_values (world_consumer ParseTime owner lease) message c =
            (Handled (map_option AckCommitted (cs_settle c (cs_calls c))), c') \<and>
          cs_log c' = cs_log c @ [Acked (mg_Tag message)] \<and> r' \<in> set (deliveries (ww_db (cs_work c'))) \<and>
          settled r (ww_clock (cs_work c) (ww_calls (cs_work c) + 6)) (classify (res_StatusCode res) err v) r'"
    using accepted_delivery_reaches_result [OF demo_db_inv sub new rand demo_cycle_ready due] by blast
  have "fst (fst (RunOnce (world_publisher ''w'' Second 10) demo_cycle)) = 5" by code_simp
  with run have n: "n = 5" by simp
  have only: "outbox_only demo_submitted (pw_db w')" using r(3) by (simp add: demo_cycle_def)
  have "r = demo_accepted" using demo_accepted_unique r(1,2) outbox_only_tables(1) [OF only] by (simp add: demo_accepted_answer)
  let ?body = "pm_Body (signal_publishing Marshal_value 0 ExchangeName RoutingKey ''delivery.dispatch'' signal)"
  let ?c = "demo_state\<lparr>cs_work := demo_world\<lparr>ww_db := pw_db w'\<rparr>\<rparr>"
  have id: "d_id demo_accepted = demo_uuid" by (simp add: demo_accepted_def)
  have token: "newUUID (rand_read (quiet_env 10) 0) = Inr demo_uuid" by code_simp
  have "smooth_delivery ?c \<lparr>mg_Tag = 5, mg_Body = ?body\<rparr> signal ''w'' Second r ?v zero_result (Some ?refused)"
    using demo_accepted_smooth [OF only] signal token demo_accepted_refused unfolding \<open>r = demo_accepted\<close>
    by (auto simp: smooth_delivery_def demo_world_def quiet_env_def demo_accepted_answer id)
  with consume [of ?c "\<lparr>mg_Tag = 5, mg_Body = ?body\<rparr>" "''w''" Second ?v zero_result "Some ?refused" "\<lambda>_. None"] obtain c' r' where
    "processMessage Decode_values (world_consumer (\<lambda>_. None) ''w'' Second) \<lparr>mg_Tag = 5, mg_Body = ?body\<rparr> ?c = (Handled None, c')"
    "r' \<in> set (deliveries (ww_db (cs_work c')))" "settled r (ww_clock (cs_work ?c) (ww_calls (cs_work ?c) + 6)) (classify (res_StatusCode zero_result) (Some ?refused) ?v) r'"
    by (auto simp: demo_state_def)
  moreover have "classify (res_StatusCode zero_result) (Some ?refused) ?v = resultPermanent" by code_simp
  ultimately show ?thesis using run n id \<open>r = demo_accepted\<close> by (auto simp: settled_def)
qed

end
