(* ===== verification/Client_Request.thy ===== *)
theory Client_Request
  imports Http_Api Json_Text
begin

text \<open>
  A submission from the client's side: the request a client writes, with the JSON text of \<open>encoding/json\<close> and the
  body in base64, and its way through \<open>submit\<close> down to the row of the delivery. It composes \<open>Json_Text\<close>,
  the decoding in \<open>Http_Api\<close>, \<open>Header_Hash\<close> and \<open>Store\<close>.
\<close>

section \<open>The request a client writes\<close>

definition client_json :: "string \<Rightarrow> string \<Rightarrow> (string \<times> string) list \<Rightarrow> byte list \<Rightarrow> json" where
  "client_json destination verb headers body =
     JObj [(''destination_id'', JStr destination), (''method'', JStr verb),
       (''headers'', JObj (map (\<lambda>(name, val). (name, JStr val)) headers)), (''body_base64'', JStr (b64_encode body))]"

definition client_request :: "string \<Rightarrow> string \<Rightarrow> string \<Rightarrow> string \<Rightarrow> (string \<times> string) list \<Rightarrow> byte list \<Rightarrow> http_request" where
  "client_request token key destination verb headers body =
     \<lparr>hq_Header = [''Authorization'' \<mapsto> ''Bearer '' @ token, ''Idempotency-Key'' \<mapsto> key],
      hq_Body = Marshal_value (client_json destination verb headers body), hq_PathID = []\<rparr>"

text \<open>What the client has to keep to: a token, a key of 1 to 200 bytes, text in ASCII, headers that can be made
  canonical, and the two size limits.\<close>

definition request_ok :: "string \<Rightarrow> string \<Rightarrow> string \<Rightarrow> string \<Rightarrow> (string \<times> string) list \<Rightarrow> byte list \<Rightarrow> (string, string) go_map \<Rightarrow> bool" where
  "request_ok token key destination verb headers body canonical \<longleftrightarrow>
     token \<noteq> [] \<and> TrimSpace key \<noteq> [] \<and> length (TrimSpace key) \<le> 200 \<and>
     ascii destination \<and> ascii verb \<and> list_all (\<lambda>(name, val). ascii name \<and> ascii val) headers \<and>
     length (Marshal_value (client_json destination verb headers body)) \<le> maxSubmissionJSONBytes \<and>
     CanonicalCallerHeaders headers = Inr canonical \<and> payloadSize canonical body \<le> maxDeliveryPayloadBytes"

text \<open>What the destination has to allow.\<close>

definition permits :: "DestinationVersion \<Rightarrow> string \<Rightarrow> (string, string) go_map \<Rightarrow> bool" where
  "permits destination verb canonical \<longleftrightarrow>
     IsSupportedOutboundMethod (ToUpper (TrimSpace verb)) \<and>
     api_containsFold (dv_AllowedMethods destination) (ToUpper (TrimSpace verb)) \<and>
     validateCallerHeaders canonical destination = None"

text \<open>The submission the store is to be asked for.\<close>

definition client_submission ::
  "(byte list \<Rightarrow> byte list) \<Rightarrow> string \<Rightarrow> string \<Rightarrow> string \<Rightarrow> (string, string) go_map \<Rightarrow> byte list \<Rightarrow> DestinationVersion \<Rightarrow> instant \<Rightarrow> Submission" where
  "client_submission sha256 caller key verb canonical body destination now =
     \<lparr>sub_CallerID = caller, sub_IdempotencyKey = TrimSpace key,
      sub_RequestHash = sha256 (hashed_bytes \<lparr>hi_DestinationID = dv_DestinationID destination,
        hi_DestinationVersion = dv_Version destination, hi_Method = ToUpper (TrimSpace verb), hi_CallerHeaders = canonical,
        hi_Body = body\<rparr> canonical),
      sub_DestinationID = dv_DestinationID destination, sub_DestinationVersion = dv_Version destination,
      sub_Method = ToUpper (TrimSpace verb), sub_CallerHeaders = canonical, sub_Body = body, sub_SupplierIdempotencyValue = [],
      sub_AcceptedAt = now, sub_RetryDeadline = now + 24 * Hour\<rparr>"

section \<open>The text arrives\<close>

lemma b64_char_ascii: "n < 64 \<Longrightarrow> (of_char (b64_char n) :: nat) < 128"
  by (auto simp: b64_char_def)

lemma b64_encode_ascii: "ascii (b64_encode bytes)"
  by (induction bytes rule: b64_encode.induct) (simp_all add: b64_char_ascii b64_bits ascii_def [of "[]"])

lemma client_json_arrives:
  assumes "request_ok token key destination verb headers body canonical"
  shows "read_limited maxSubmissionJSONBytes Decode_values (Marshal_value (client_json destination verb headers body)) =
    ([client_json destination verb headers body], AtEOF)"
proof -
  have "writable 0 (client_json destination verb headers body)"
    using assms by (auto simp: request_ok_def client_json_def maxNestingDepth_def b64_encode_ascii ascii_def [of "[]"] list_all_iff)
  then have "Decode_values (Marshal_value (client_json destination verb headers body)) = ([client_json destination verb headers body], AtEOF)"
    by (rule json_text_roundtrip)
  with assms show ?thesis by (simp add: read_limited_def request_ok_def)
qed

lemma submission_keys:
  "EqualFold ''destination_id'' ''destination_id''" "\<not> EqualFold ''destination_id'' ''method''"
  "EqualFold ''method'' ''method''" "\<not> EqualFold ''destination_id'' ''headers''" "\<not> EqualFold ''method'' ''headers''"
  "EqualFold ''headers'' ''headers''" "\<not> EqualFold ''destination_id'' ''body_base64''" "\<not> EqualFold ''method'' ''body_base64''"
  "\<not> EqualFold ''headers'' ''body_base64''" "EqualFold ''body_base64'' ''body_base64''"
  by code_simp+

lemma client_json_decodes:
  "decode_submission ([client_json destination verb headers body], AtEOF) =
     Inr \<lparr>si_DestinationID = destination, si_Method = verb,
       si_Headers = Some (JObj (map (\<lambda>(name, val). (name, JStr val)) headers)), si_BodyBase64 = b64_encode body\<rparr>"
  by (simp add: decode_submission_def client_json_def decode_struct_def submission_fields_def submission_keys string_field_def
      ensureJSONEOF_None)

text \<open>Headers whose canonical names differ are decoded as they are.\<close>

lemma header_members_strings:
  assumes "distinct (map (canonical_name \<circ> fst) headers)" "(canonical_name \<circ> fst) ` set headers \<inter> set seen = {}"
  shows "header_members seen acc (map (\<lambda>(name, val). (name, JStr val)) headers) = Some (acc @ headers)"
  using assms
proof (induction headers arbitrary: seen acc)
  case (Cons h headers)
  obtain name val where h: "h = (name, val)" by (cases h)
  have "header_members (canonical_name name # seen) (acc @ [h]) (map (\<lambda>(name, val). (name, JStr val)) headers) = Some ((acc @ [h]) @ headers)"
    using Cons.prems by (intro Cons.IH) (auto simp: h)
  with Cons.prems show ?case by (simp add: h Let_def canonical_name_def)
qed simp

lemma client_headers_decode:
  assumes "CanonicalCallerHeaders headers = Inr canonical"
  shows "decodeCallerHeaders (Some (JObj (map (\<lambda>(name, val). (name, JStr val)) headers))) = Some headers"
  using assms header_members_strings [of headers "[]" "[]"] by (simp add: decodeCallerHeaders_def CanonicalCallerHeaders_Inr_iff)

lemma client_header:
  "header_get ''Idempotency-Key'' (hq_Header (client_request token key destination verb headers body)) = key"
  "header_get ''Authorization'' (hq_Header (client_request token key destination verb headers body)) = ''Bearer '' @ token"
proof -
  have "CanonicalMIMEHeaderKey ''Idempotency-Key'' = ''Idempotency-Key''" "CanonicalMIMEHeaderKey ''Authorization'' = ''Authorization''"
    by code_simp+
  then show "header_get ''Idempotency-Key'' (hq_Header (client_request token key destination verb headers body)) = key"
    "header_get ''Authorization'' (hq_Header (client_request token key destination verb headers body)) = ''Bearer '' @ token"
    by (simp_all add: client_request_def header_get_def)
qed

lemma client_request_parses:
  assumes "request_ok token key destination verb headers body canonical"
  shows "parse_submission Decode_values (client_request token key destination verb headers body) =
    Inr (TrimSpace key, destination, verb, canonical, body)"
proof -
  note client_header(1) [of token key destination verb headers body]
  with assms client_json_arrives [OF assms] client_headers_decode [of headers canonical]
    body_base64_roundtrip [OF b64_encode_no_breaks, of body] show ?thesis
    by (auto simp: parse_submission_def client_request_def client_json_decodes request_ok_def)
qed

section \<open>The submission is the request's\<close>

lemma client_submission_built:
  assumes "CanonicalCallerHeaders headers = Inr canonical" "permits dest verb canonical"
  shows "build_submission sha256 caller (TrimSpace key) verb canonical body dest now =
    Inr (client_submission sha256 caller key verb canonical body dest now)"
  using assms CanonicalCallerHeaders_fix [OF assms(1)]
  by (simp add: build_submission_def client_submission_def permits_def RequestHash_def Let_def)

text \<open>The principal of a token that is stored, by a call that does not fail.\<close>

lemma stored_token_authenticates:
  assumes "token \<noteq> []" "AuthenticatePrincipal (aw_env w (aw_calls w)) sha256 (aw_others w (aw_calls w) (aw_db w)) token = Inr p"
  shows "authenticate sha256 (client_request token key destination verb headers body) w =
    (Inr (pr_CallerID p), w\<lparr>aw_db := aw_others w (aw_calls w) (aw_db w), aw_calls := Suc (aw_calls w),
      aw_log := aw_log w @ [Authenticated p]\<rparr>)"
  using assms by (simp add: authenticate_def authenticatePrincipal_def client_header HasPrefix_def bearer_def api_call_def
      when_ok_def Let_def)

lemma client_request_submits:
  assumes ok: "request_ok token key destination verb headers body canonical"
    and auth: "AuthenticatePrincipal (aw_env w (aw_calls w)) sha256 (aw_others w (aw_calls w) (aw_db w)) token = Inr p"
    and dest: "AuthorizedDestination (aw_env w (aw_calls w + 1)) (aw_others w (aw_calls w + 1) (aw_others w (aw_calls w) (aw_db w)))
      (pr_CallerID p) destination = Inr dest"
    and "permits dest verb canonical"
    and sub: "Submit (aw_env w (aw_calls w + 2)) store
      (aw_others w (aw_calls w + 2) (aw_others w (aw_calls w + 1) (aw_others w (aw_calls w) (aw_db w))))
      (client_submission sha256 (pr_CallerID p) key verb canonical body dest (aw_now w (aw_calls w + 2))) = (r, db')"
  shows "\<exists>w'. submit sha256 Decode_values store (client_request token key destination verb headers body) w = (submit_response r, w') \<and>
    aw_db w' = db'"
proof -
  have "token \<noteq> []" and canonical: "CanonicalCallerHeaders headers = Inr canonical" using ok by (simp_all add: request_ok_def)
  note stored_token_authenticates [OF this(1) auth] client_request_parses [OF ok]
    client_submission_built [OF canonical assms(4)]
  with dest sub show ?thesis by (simp add: submit_def api_call_def when_ok_def Let_def)
qed

section \<open>The request is accepted\<close>

lemma authenticated_stored:
  "AuthenticatePrincipal E sha256 db token = Inr p \<Longrightarrow> pr_CallerID p \<in> c_id ` set (callers db)"
  by (auto simp: AuthenticatePrincipal_def split: if_splits option.splits dest!: find_SomeD)

lemma authorized_stored:
  assumes "AuthorizedDestination E db caller destination = Inr dest"
  shows "dv_DestinationID dest = destination"
    "(dv_DestinationID dest, dv_Version dest) \<in> version_key ` set (destination_versions db)"
proof -
  from assms obtain v where "v \<in> set (destination_versions db)" "v_destination_id v = destination" "dest = destination_of_row v"
    by (auto simp: AuthorizedDestination_def split: if_splits option.splits dest!: find_SomeD)
  then show "dv_DestinationID dest = destination" "(dv_DestinationID dest, dv_Version dest) \<in> version_key ` set (destination_versions db)"
    by (auto simp: destination_of_row_def intro: rev_image_eqI)
qed

text \<open>C37. A good request is accepted as it was sent. When a caller whose token is stored writes a submission for a
  destination it may use, within the limits of size and with a method and headers that the destination
  allows, the key is unused, the store has room and meets no fault, and no other process interferes, the answer is 202 and the database has exactly one more delivery: with
  this caller and key, the destination's current version, the method in upper case, the canonical
  headers and, byte for byte, the body that was sent as base64 in the JSON text.\<close>

theorem well_formed_request_accepted:
  assumes "request_ok token key destination verb headers body canonical" "db_inv (aw_db w)" "\<forall>n. aw_others w n = id"
    and "AuthenticatePrincipal (aw_env w (aw_calls w)) sha256 (aw_db w) token = Inr p"
    and "AuthorizedDestination (aw_env w (aw_calls w + 1)) (aw_db w) (pr_CallerID p) destination = Inr dest"
    and "permits dest verb canonical"
    and "admissible (aw_env w (aw_calls w + 2)) store (aw_db w)
      (client_submission sha256 (pr_CallerID p) key verb canonical body dest (aw_now w (aw_calls w + 2))) did"
  shows "\<exists>answer w' r.
    submit sha256 Decode_values store (client_request token key destination verb headers body) w = (writeJSON 202 answer, w') \<and>
    dr_ID answer = did \<and> dr_Status answer = StatusPending \<and> deliveries (aw_db w') = deliveries (aw_db w) @ [r] \<and>
    d_id r = did \<and> idem_key r = (pr_CallerID p, TrimSpace key) \<and> d_destination_id r = destination \<and>
    d_destination_version r = dv_Version dest \<and> d_method r = ToUpper (TrimSpace verb) \<and> d_caller_headers r = canonical \<and>
    d_body r = body \<and> d_status r = StatusPending \<and> d_generation r = 0"
proof -
  let ?s = "client_submission sha256 (pr_CallerID p) key verb canonical body dest (aw_now w (aw_calls w + 2))"
  note stored = authenticated_stored [OF assms(4)] authorized_stored [OF assms(5)]
  obtain db' v where sub: "Submit (aw_env w (aw_calls w + 2)) store (aw_db w) ?s = (Inr (accepted_delivery ?s did v), db')"
    and rows: "deliveries db' = deliveries (aw_db w) @ [accepted_row (aw_env w (aw_calls w + 2)) ?s did v]"
    using Submit_admits [OF assms(2,7)] stored by (auto simp: client_submission_def)
  obtain w' where "submit sha256 Decode_values store (client_request token key destination verb headers body) w =
      (submit_response (Inr (accepted_delivery ?s did v)), w')" "aw_db w' = db'"
    using client_request_submits [OF assms(1) _ _ assms(6), of w sha256 p store] assms(3-5) sub by auto
  with rows stored(2) show ?thesis
    by (auto simp: submit_response_def responseFromDelivery_def accepted_delivery_def accepted_row_def client_submission_def)
qed

theorem well_formed_request_accepted_witness:
  "\<exists>answer w' r. submit demo_sha Decode_values \<lparr>st_backlogLimit = 10\<rparr>
      (client_request ''k'' ''new'' ''s'' ''post'' [(''X-A'', '' 1'')] [123, 125]) demo_api = (writeJSON 202 answer, w') \<and>
    deliveries (aw_db w') = deliveries demo_db @ [r] \<and> d_method r = ''POST'' \<and> d_caller_headers r = [(''x-a'', ''1'')] \<and>
    d_body r = [123, 125]"
proof -
  let ?dest = "destination_of_row demo_version" and ?p = "\<lparr>pr_CallerID = ''c'', pr_IsOperator = False\<rparr>"
  have w: "aw_db demo_api = demo_db" "aw_calls demo_api = 0" "aw_env demo_api = (\<lambda>_. quiet_env 10)" "aw_now demo_api = (\<lambda>_. 10)"
    "\<forall>n. aw_others demo_api n = id" by (simp_all add: demo_api_def)
  have "length (Marshal_value (client_json ''s'' ''post'' [(''X-A'', '' 1'')] [123, 125])) \<le> 200"
    "CanonicalCallerHeaders [(''X-A'', '' 1'')] = Inr [(''x-a'', ''1'')]" "TrimSpace ''new'' = ''new''"
    "ascii ''s'' \<and> ascii ''post'' \<and> ascii ''X-A'' \<and> ascii '' 1''" by code_simp+
  then have ok: "request_ok ''k'' ''new'' ''s'' ''post'' [(''X-A'', '' 1'')] [123, 125] [(''x-a'', ''1'')]"
    by (simp add: request_ok_def maxSubmissionJSONBytes_def maxDeliveryPayloadBytes_def payloadSize_def)
  have permit: "permits ?dest ''post'' [(''x-a'', ''1'')]" by code_simp
  have admit: "admissible (quiet_env 10) \<lparr>st_backlogLimit = 10\<rparr> demo_db
      (client_submission demo_sha ''c'' ''new'' ''post'' [(''x-a'', ''1'')] [123, 125] ?dest 10) ''00000000-0000-4000-8000-000000000000''"
    unfolding admissible_def by (intro conjI fault_free_quiet; code_simp)
  have "ToUpper (TrimSpace ''post'') = ''POST''" by code_simp
  moreover obtain answer w' r where "submit demo_sha Decode_values \<lparr>st_backlogLimit = 10\<rparr>
      (client_request ''k'' ''new'' ''s'' ''post'' [(''X-A'', '' 1'')] [123, 125]) demo_api = (writeJSON 202 answer, w')"
    "deliveries (aw_db w') = deliveries demo_db @ [r]" "d_method r = ToUpper (TrimSpace ''post'')"
    "d_caller_headers r = [(''x-a'', ''1'')]" "d_body r = [123, 125]"
    using well_formed_request_accepted [OF ok, of demo_api demo_sha ?p ?dest "\<lparr>st_backlogLimit = 10\<rparr>"
        "''00000000-0000-4000-8000-000000000000''"] demo_db_inv demo_store_calls(1,2) permit admit w(5)
    unfolding w(1-4) Principal.simps by blast
  ultimately show ?thesis by metis
qed

end
