(* ===== verification/Spec2Isabelle.thy ===== *)
theory Spec2Isabelle
  imports Notifier_Main Job_Machine End_To_End Client_Request Toolchain_Probe
begin

text \<open>
  Verification of the reliable notifier: a service that accepts HTTP notifications from callers, stores them
  durably in PostgreSQL and delivers each to its supplier over HTTPS at least once, with leases,
  generations, an Outbox and RabbitMQ signals that carry identifiers only.

  \<^bold>\<open>How the program is put together.\<close> The API (\<open>internal/delivery/http.go\<close>) authenticates a caller, checks a
  submission and stores it with its Outbox event in one transaction. The publisher (\<open>internal/dispatch\<close>) claims
  Outbox events under a lease, publishes a signal for each and records the confirmed ones. The consumer
  (\<open>internal/worker/rabbit.go\<close>) receives signals and lets the Worker (\<open>worker.go\<close>) claim the delivery, send it
  through the outbound client (\<open>internal/outbound\<close>) within the limits of its destination
  (\<open>limiter.go\<close>) and record the result, fenced by its lease. Background loops (\<open>cmd/notifier/scheduling.go\<close>) signal due
  retries, take back expired leases, republish lost signals, delete old deliveries and raise
  alerts. Operators replay failed deliveries. All of them meet in the database only.

  \<^bold>\<open>Theories and sources.\<close>
  \<^item> \<open>Notifier_Prelude\<close>: time in nanoseconds, Go strings and maps, UPDATE ... WHERE and
    ORDER BY ... LIMIT ... FOR UPDATE SKIP LOCKED as list functions, and their lemmas.
  \<^item> \<open>Delivery_Model\<close> (\<open>model.go\<close>), \<open>Header_Hash\<close> (\<open>hash.go\<close>), \<open>Uuid_Signal\<close> (\<open>uuid.go\<close>, the signal of
    \<open>dispatch/rabbit.go\<close>): data types, header canonicalisation and the request hash, identifiers.
  \<^item> \<open>Database\<close> (\<open>migrations/\<close>): tables, constraints and the environment of a store call;
    \<open>Delivery_Protocol\<close>: the invariant \<open>db_inv\<close> and the legal evolution \<open>good_step\<close> of a
    database, with the locale \<open>store_operation\<close> that every operation interprets.
  \<^item> \<open>Store\<close> (\<open>store.go\<close>), \<open>Outbox\<close> (\<open>outbox.go\<close>), \<open>Worker_Store\<close> (\<open>worker_store.go\<close>), \<open>Scheduling\<close>
    (\<open>scheduling.go\<close>), \<open>Replay\<close> (\<open>replay.go\<close>), \<open>Maintenance\<close> (\<open>maintenance.go\<close>): one definition per operation of the store,
    its statements in their order, every error return a branch.
  \<^item> \<open>System\<close>: the store as a state machine, any operation in any order under any environment;
    \<open>Job_Machine\<close>: an abstract machine of jobs that it refines; \<open>Row_Stamps\<close>: operations never
    write a delivery with a time before their own.
  \<^item> \<open>Publisher\<close> (\<open>dispatch/publisher.go\<close>, and \<open>publishSignal\<close> over the two channels of answers that the calls on a
    broker share), \<open>Limiter\<close> (\<open>worker/limiter.go\<close>),
    \<open>Ip_Policy\<close>, \<open>Outbound\<close> (\<open>outbound/client.go\<close>) on \<open>Go_Net\<close> (URLs, header maps and numbers as Go's library treats them),
    \<open>Worker\<close> (\<open>worker/worker.go\<close>), \<open>Rabbit_Consumer\<close> (\<open>processMessage\<close>, \<open>decodeSignal\<close>) on \<open>Go_Json\<close>,
    \<open>Rabbit_Link\<close> (broker, topology, depth probe, consumer link and its receive loop), \<open>Http_Api\<close> (\<open>http.go\<close>,
    \<open>submission_metrics.go\<close>, the routes of \<open>Register\<close> included).
  \<^item> \<open>Maintenance_Loops\<close> (\<open>cmd/notifier/scheduling.go\<close>) and \<open>Notifier_Main\<close> (the rest of \<open>cmd/notifier\<close>): loops,
    startup, health routes, supervisors, and the sender and Worker they configure.
  \<^item> \<open>Json_Text\<close>: the text of JSON as \<open>encoding/json\<close> scans, unquotes and writes it;
    \<open>Client_Request\<close>: a submission from the JSON text the client writes to the row of its delivery;
    \<open>End_To_End\<close>: the composition of \<open>Submit\<close>, \<open>RunOnce\<close>, the message, \<open>processMessage\<close> and \<open>Process\<close>.
  \<^item> \<open>Toolchain_Probe\<close> (\<open>cmd/toolchain-probe\<close>, \<open>cmd/fake-supplier\<close>): the probes of RabbitMQ and HTTPS, over a broker with
    queues and unacknowledged messages.

  \<^bold>\<open>How code becomes definitions.\<close> A struct is a record with a prefix for its fields, a sentinel error a
  constructor, an error return the left of a sum. A store operation takes the environment of the call and the database and
  returns its result with the database after it; it is one atomic step, as the sources run it in one statement
  or in one transaction whose rows its first statement locks. An \<open>UPDATE ... RETURNING\<close> is taken to return its rows in the order in which its \<open>ORDER BY\<close> subquery
  selected them, which SQL does not promise; the order in which \<open>ClaimOutbox\<close> hands out events rests on it.
  The environment says which statement
  fails (text that PostgreSQL refuses, such as invalid UTF-8, appears only so), whether a commit that reported an error took effect, which rows are locked, the server clock
  (\<open>clock_timestamp\<close> is read once per operation), random bytes and generated UUIDs. Components above the store are
  written over any implementation of the interfaces they call; what they rely on is a locale, and
  each locale is interpreted on a world made of the models themselves, in which other processes
  may change the database before every call: \<open>publisher_world\<close>, \<open>lockstep_broker\<close>, \<open>worker_world\<close>, \<open>consumer_world\<close>, \<open>amqp_library\<close>,
  \<open>supervisor\<close>, \<open>probe_rabbit\<close>. Goroutines are steps of a relation: \<open>limiter_history\<close> for the limiter, whose mutex makes each
  operation one step, and \<open>run_step\<close> for the receive loop, where handling one message is one step and the
  interference of others with it is that of the Worker's world.

  \<^bold>\<open>Numbers and bounds.\<close> Times and durations are integers in nanoseconds, without the limits of
  \<open>time.Duration\<close>; the generation of a delivery is unbounded. \<open>interval\<close> rounds to microseconds as PostgreSQL does,
  and \<open>timestamptz\<close> cuts a Go time to microseconds when it becomes a parameter of a statement, so that the answer to
  a new submission and the row behind it differ below that (\<open>as_stored\<close> relates them).
  The sequence number of the limiter is a 64-bit word, so its guarantee holds for fewer than \<open>2 ^ 64\<close>
  acquisitions; the submission counters wrap at \<open>2 ^ 64\<close>; addresses are 32- and 128-bit words; the
  lengths that are hashed are 64-bit words. Rates and ages are rationals in place of floats, so a rate too small for \<open>time.Duration\<close> does not overflow. Strings are
  lists of bytes; case folding and trimming treat ASCII, so the Kelvin sign and the long s, which Go folds to k and s, are
  left alone. Loops that need not end (\<open>drain_loop\<close>, \<open>publisher_cycles\<close>,
  \<open>runPublisher\<close>, \<open>worker_rounds\<close>) are partial functions into option, and that they return is a
  theorem; a loop driven by a ticker or a select statement takes the list of what it received.

  \<^bold>\<open>Parameters.\<close> SHA-256, the reading and writing of JSON text (instantiated by \<open>Json_Text\<close> in \<open>Client_Request\<close> and \<open>End_To_End\<close>), \<open>http.ParseTime\<close>, IP literals in brackets, DNS, the
  HTTP exchange of one request (\<open>http.Transport\<close> calls the dialer that the client installed), the AMQP client
  library, the process environment and PostgreSQL's \<open>uuid\<close> input are arguments of the definitions. Headers that
  went through the \<open>jsonb\<close> column come back as they were stored.

  \<^bold>\<open>What is shown.\<close>
  \<^item> The store: every reachable database satisfies schema and protocol; deliveries move only along the
    protocol; the store refines the job machine, so a success is recorded once and last; recorded
    success is final; no due delivery stays without a signal.
  \<^item> Submission: atomic with its event, one delivery per key however often and with whatever faults it is
    retried, never above the backlog limit; the hash identifies the request; 202 only for what is stored, and any other
    answer leaves nothing behind but for a commit that was reported failed and was not; a good request is
    accepted and stored as it was sent; nothing in an accepted request makes the client refuse it.
  \<^item> Leases: claims of deliveries and of events are exclusive, results of every class are fenced and recorded exactly,
    expired leases are taken back and the old Worker is shut out.
  \<^item> Signals: only confirmed signals are recorded, and in the publisher each by its own confirmation; lost
    ones are republished; a message is settled once and acknowledged only after the Worker settled it or the deferring
    broker gave a confirmation, which is its own unless an earlier deferral left its answers behind (then it
    may not be: \<open>stale_confirmation_taken\<close>); a signal survives the queue byte for byte; the receive loop leaves no message unsettled; connections are
    not leaked.
  \<^item> Sending: only a validated public address is contacted, injected headers are authoritative, the
    production build has no way into the test network, retries are spaced and bounded, concurrency is
    limited, and the lease of the configured Worker outlasts every request timeout the schema allows.
  \<^item> The whole way: an accepted delivery is signalled by the next undisturbed cycle of the publisher, and the consumer of
    that message acknowledges it with the result recorded that the supplier's answer demands.
  \<^item> Operation: replay keeps identity and needs an operator, retention deletes only what has
    expired and its drain ends while others keep working, supervisors stop when they are told to, alerts are exact; the probes leave no
    connection open, pass on a healthy broker and succeed only after a redelivery.

  \<^bold>\<open>Not modelled.\<close> The package \<open>internal/toolchain\<close> only pins module versions, and the fake supplier's \<open>main\<close> only
  starts its listener. Of the process itself, listening, TLS, logging and the scheduling of goroutines are the
  runtime's. Timeouts appear as failing calls. The supervisors' theorem takes each call they make, \<open>Run\<close> of the
  consumer among them, to return. Two transactions of
  the store never interleave within one operation.
\<close>

end
